(* ===== verification/Prelude.thy ===== *)
theory Prelude
  imports Main "HOL-Library.Word" "HOL-Library.List_Lexorder" "HOL-Library.Sublist"
begin

text \<open>
  Shared vocabulary of the development: Go byte slices and strings, the outcome of a Go call
  (a value, a panic, or no return at all), the state-passing sequencing of calls, checked slice
  and index expressions, and the list lemmas that several components use.
  \<^item> \<open>bytes\<close> is a Go \<open>[]byte\<close>; HOL's \<open>string\<close> is a Go \<open>string\<close> (a sequence of bytes);
    \<open>bytes_of\<close> and \<open>string_of\<close> are the two Go conversions.
  \<^item> \<open>'a outcome\<close> is what a Go call does: \<open>Ret\<close> a value, \<open>Panic\<close> with a message, or \<open>Diverge\<close>.
  \<^item> \<open>('s, 'a) st\<close> is a call that reads and writes the state \<open>'s\<close>. The state is returned also
    beside a panic, because what was written to a database before a panic stays written.
\<close>

named_theorems go_simps \<open>unfolding of the sequencing operators\<close>

section \<open>Bytes and strings\<close>

type_synonym byte = "8 word"
type_synonym bytes = "byte list"

definition bytes_of :: "string \<Rightarrow> bytes" where
  "bytes_of s = map (\<lambda>c. of_nat (of_char c)) s"

definition string_of :: "bytes \<Rightarrow> string" where
  "string_of b = map (\<lambda>x. char_of (unat x)) b"

lemma unat_of_char [simp]: "unat (of_nat (of_char c) :: byte) = of_char c"
  by (simp add: unat_of_nat)

lemma string_of_bytes_of [simp]: "string_of (bytes_of s) = s"
  by (induction s) (simp_all add: string_of_def bytes_of_def)

lemma of_nat_char_of_unat: "of_nat (of_char (char_of (unat b))) = (b :: byte)"
proof -
  have "unat b < 256"
    using unsigned_less [of b] by simp
  then show ?thesis
    by (simp add: word_unat_eq_iff unat_of_nat)
qed

lemma bytes_of_string_of [simp]: "bytes_of (string_of b) = b"
  by (induction b) (simp_all add: string_of_def bytes_of_def of_nat_char_of_unat del: of_char_of)

lemma bytes_of_inject [simp]: "bytes_of s = bytes_of t \<longleftrightarrow> s = t"
  by (metis string_of_bytes_of)

lemma length_bytes_of [simp]: "length (bytes_of s) = length s"
  by (simp add: bytes_of_def)

lemma length_string_of [simp]: "length (string_of b) = length b"
  by (simp add: string_of_def)

lemma bytes_of_append [simp]: "bytes_of (s @ t) = bytes_of s @ bytes_of t"
  by (simp add: bytes_of_def)

lemma string_of_append [simp]: "string_of (a @ b) = string_of a @ string_of b"
  by (simp add: string_of_def)

lemma bytes_of_Nil [simp]: "bytes_of [] = []" and string_of_Nil [simp]: "string_of [] = []"
  by (simp_all add: bytes_of_def string_of_def)

lemma bytes_of_eq_Nil [simp]: "bytes_of s = [] \<longleftrightarrow> s = []"
  by (simp add: bytes_of_def)

section \<open>Outcomes of Go calls\<close>

datatype 'a outcome = Ret 'a | Panic string | Diverge

fun obind :: "'a outcome \<Rightarrow> ('a \<Rightarrow> 'b outcome) \<Rightarrow> 'b outcome" where
  "obind (Ret x) f = f x"
| "obind (Panic m) f = Panic m"
| "obind Diverge f = Diverge"

lemma obind_eq_Ret: "obind m f = Ret y \<longleftrightarrow> (\<exists>x. m = Ret x \<and> f x = Ret y)"
  by (cases m) auto

lemma obind_assoc: "obind (obind m f) g = obind m (\<lambda>x. obind (f x) g)"
  by (cases m) auto

lemma obind_Ret_right [simp]: "obind m Ret = m"
  by (cases m) auto

text \<open>A loop that may not return is a partial function into \<open>option\<close>; \<open>None\<close> is no return.\<close>

definition of_loop :: "'a option \<Rightarrow> 'a outcome" where
  "of_loop m = (case m of None \<Rightarrow> Diverge | Some x \<Rightarrow> Ret x)"

lemma of_loop_simps [simp]: "of_loop None = Diverge" "of_loop (Some x) = Ret x"
  by (simp_all add: of_loop_def)

text \<open>A loop over the elements of a slice whose body may panic.\<close>

fun omap :: "('a \<Rightarrow> 'b outcome) \<Rightarrow> 'a list \<Rightarrow> 'b list outcome" where
  "omap f [] = Ret []"
| "omap f (x # xs) = obind (f x) (\<lambda>y. obind (omap f xs) (\<lambda>ys. Ret (y # ys)))"

lemma omap_Ret: "(\<And>x. x \<in> set xs \<Longrightarrow> f x = Ret (g x)) \<Longrightarrow> omap f xs = Ret (map g xs)"
  by (induction xs) auto

lemma omap_map: "omap f (map g xs) = omap (\<lambda>x. f (g x)) xs"
  by (induction xs) auto

text \<open>Dereferencing a pointer: \<open>None\<close> is the nil pointer.\<close>

fun deref :: "'a option \<Rightarrow> 'a outcome" where
  "deref None = Panic ''invalid memory address or nil pointer dereference''"
| "deref (Some x) = Ret x"

section \<open>Checked slice and index expressions\<close>

text \<open>\<open>slice b lo hi\<close> is Go's \<open>b[lo:hi]\<close>, \<open>index_at b i\<close> is \<open>b[i]\<close>, \<open>set_at b i x\<close> is \<open>b[i] = x\<close>.\<close>

definition slice :: "'a list \<Rightarrow> nat \<Rightarrow> nat \<Rightarrow> 'a list outcome" where
  "slice b lo hi =
     (if lo \<le> hi \<and> hi \<le> length b then Ret (take (hi - lo) (drop lo b))
      else Panic ''slice bounds out of range'')"

definition index_at :: "'a list \<Rightarrow> nat \<Rightarrow> 'a outcome" where
  "index_at b i = (if i < length b then Ret (b ! i) else Panic ''index out of range'')"

definition set_at :: "'a list \<Rightarrow> nat \<Rightarrow> 'a \<Rightarrow> 'a list outcome" where
  "set_at b i x = (if i < length b then Ret (b[i := x]) else Panic ''index out of range'')"

text \<open>The loop \<open>for i, x := range src { dst[off+i] = x }\<close>.\<close>

fun blit :: "'a list \<Rightarrow> nat \<Rightarrow> 'a list \<Rightarrow> 'a list outcome" where
  "blit dst off [] = Ret dst"
| "blit dst off (x # src) = obind (set_at dst off x) (\<lambda>dst'. blit dst' (Suc off) src)"

lemma blit_append:
  assumes "length mid = length src"
  shows "blit (pre @ mid @ post) (length pre) src = Ret (pre @ src @ post)"
  using assms
proof (induction src arbitrary: pre mid)
  case Nil
  then show ?case by simp
next
  case (Cons x src)
  then obtain m mid' where mid: "mid = m # mid'" "length mid' = length src"
    by (cases mid) auto
  have "set_at (pre @ mid @ post) (length pre) x = Ret ((pre @ [x]) @ mid' @ post)"
    by (simp add: set_at_def mid)
  then show ?case
    using Cons.IH [of mid' "pre @ [x]"] mid by simp
qed

lemma slice_append [simp]:
  "slice (a @ b @ c) (length a) (length a + length b) = Ret b"
  by (simp add: slice_def)

lemma slice_prefix: "n = length a \<Longrightarrow> slice (a @ b) 0 n = Ret a"
  by (simp add: slice_def)

lemma slice_suffix: "n = length a \<Longrightarrow> m = length a + length b \<Longrightarrow> slice (a @ b) n m = Ret b"
  by (simp add: slice_def)

section \<open>State-passing calls\<close>

type_synonym ('s, 'a) st = "'s \<Rightarrow> 'a outcome \<times> 's"

definition ret :: "'a \<Rightarrow> ('s, 'a) st" where
  "ret x = (\<lambda>s. (Ret x, s))"

definition lift :: "'a outcome \<Rightarrow> ('s, 'a) st" where
  "lift m = (\<lambda>s. (m, s))"

definition bnd :: "('s, 'a) st \<Rightarrow> ('a \<Rightarrow> ('s, 'b) st) \<Rightarrow> ('s, 'b) st" where
  "bnd m f = (\<lambda>s. case m s of
       (Ret x, s') \<Rightarrow> f x s'
     | (Panic e, s') \<Rightarrow> (Panic e, s')
     | (Diverge, s') \<Rightarrow> (Diverge, s'))"

lemma ret_apply [go_simps, simp]: "ret x s = (Ret x, s)"
  by (simp add: ret_def)

lemma lift_apply [go_simps, simp]: "lift m s = (m, s)"
  by (simp add: lift_def)

lemma bnd_apply [go_simps]:
  "bnd m f s = (case m s of
       (Ret x, s') \<Rightarrow> f x s'
     | (Panic e, s') \<Rightarrow> (Panic e, s')
     | (Diverge, s') \<Rightarrow> (Diverge, s'))"
  by (simp add: bnd_def)

lemma bnd_Ret: "m s = (Ret x, s') \<Longrightarrow> bnd m f s = f x s'"
  by (simp add: bnd_apply)

lemma bnd_Panic: "m s = (Panic e, s') \<Longrightarrow> bnd m f s = (Panic e, s')"
  by (simp add: bnd_apply)

lemma bnd_Diverge: "m s = (Diverge, s') \<Longrightarrow> bnd m f s = (Diverge, s')"
  by (simp add: bnd_apply)

lemma bnd_ret_left [simp]: "bnd (ret x) f = f x"
  by (simp add: fun_eq_iff bnd_apply)

lemma bnd_eq_Ret:
  "bnd m f s = (Ret y, s') \<longleftrightarrow> (\<exists>x t. m s = (Ret x, t) \<and> f x t = (Ret y, s'))"
  by (auto simp: bnd_apply split: prod.splits outcome.splits)

lemma bnd_assoc: "bnd (bnd m f) g = bnd m (\<lambda>x. bnd (f x) g)"
  by (auto simp: fun_eq_iff bnd_apply split: prod.splits outcome.splits)

text \<open>A call that always ends, with a value or a panic.\<close>

definition ends :: "('s, 'a) st \<Rightarrow> bool" where
  "ends m \<longleftrightarrow> (\<forall>s. fst (m s) \<noteq> Diverge)"

lemma ends_ret [intro, simp]: "ends (ret x)"
  by (simp add: ends_def)

lemma ends_lift [intro]: "m \<noteq> Diverge \<Longrightarrow> ends (lift m)"
  by (simp add: ends_def)

lemma ends_bnd [intro]: "ends m \<Longrightarrow> (\<And>x. ends (f x)) \<Longrightarrow> ends (bnd m f)"
  by (auto simp: ends_def bnd_apply split: prod.splits outcome.splits) (metis fst_conv)+

lemma ends_if: "ends f \<Longrightarrow> ends g \<Longrightarrow> ends (if c then f else g)"
  by simp

lemma ends_option: "ends f \<Longrightarrow> (\<And>y. ends (g y)) \<Longrightarrow> ends (case m of None \<Rightarrow> f | Some y \<Rightarrow> g y)"
  by (cases m) simp_all

lemma ends_sum: "(\<And>y. ends (f y)) \<Longrightarrow> (\<And>y. ends (g y)) \<Longrightarrow> ends (case m of Inl y \<Rightarrow> f y | Inr y \<Rightarrow> g y)"
  by (cases m) simp_all

lemma ends_prod: "(\<And>a b. ends (f a b)) \<Longrightarrow> ends (case p of (a, b) \<Rightarrow> f a b)"
  by (cases p) simp

lemma ends_Let: "(\<And>y. ends (f y)) \<Longrightarrow> ends (let y = m in f y)"
  by (simp add: Let_def)

lemmas ends_intros = ends_bnd ends_ret ends_lift ends_if ends_option ends_sum ends_prod ends_Let

lemma obind_ends: "m \<noteq> Diverge \<Longrightarrow> (\<And>x. f x \<noteq> Diverge) \<Longrightarrow> obind m f \<noteq> Diverge"
  by (cases m) auto

lemma deref_ends [simp]: "deref p \<noteq> Diverge"
  by (cases p) auto

lemma omap_ends:
  assumes "\<And>x. f x \<noteq> Diverge"
  shows "omap f xs \<noteq> Diverge"
proof (induction xs)
  case (Cons x xs)
  then show ?case using assms [of x] by (cases "f x"; cases "omap f xs") auto
qed simp

section \<open>Numbers written in a base\<close>

text \<open>
  The value of a list of digits, most significant first; used for the bytes of a
  \<open>big.Int\<close> (base 256) and for decimal strings (base 10).
\<close>

definition horner :: "('a \<Rightarrow> nat) \<Rightarrow> nat \<Rightarrow> 'a list \<Rightarrow> nat" where
  "horner v B xs = foldl (\<lambda>a x. a * B + v x) 0 xs"

lemma horner_Nil [simp]: "horner v B [] = 0"
  by (simp add: horner_def)

lemma horner_snoc [simp]: "horner v B (xs @ [x]) = horner v B xs * B + v x"
  by (simp add: horner_def)

lemma horner_append: "horner v B (xs @ ys) = horner v B xs * B ^ length ys + horner v B ys"
  by (induction ys rule: rev_induct) (simp_all add: algebra_simps flip: append_assoc)

lemma horner_Cons: "horner v B (x # xs) = v x * B ^ length xs + horner v B xs"
  using horner_append [of v B "[x]" xs] by (simp add: horner_def)

lemma horner_bound:
  assumes "\<forall>x \<in> set xs. v x < B"
  shows "horner v B xs < B ^ length xs"
  using assms
proof (induction xs)
  case Nil
  then show ?case by simp
next
  case (Cons x xs)
  then have "v x + 1 \<le> B" and IH: "horner v B xs < B ^ length xs" by auto
  then have "(v x + 1) * B ^ length xs \<le> B * B ^ length xs"
    by (intro mult_right_mono) auto
  with IH show ?case by (simp add: horner_Cons)
qed

lemma horner_less_iff:
  fixes xs ys :: "'a :: linorder list"
  assumes "length xs = length ys"
    and "\<forall>x \<in> set xs \<union> set ys. v x < B"
    and "\<And>x y. x \<in> set xs \<Longrightarrow> y \<in> set ys \<Longrightarrow> x < y \<longleftrightarrow> v x < v y"
    and "\<And>x y. x \<in> set xs \<Longrightarrow> y \<in> set ys \<Longrightarrow> x = y \<longleftrightarrow> v x = v y"
  shows "xs < ys \<longleftrightarrow> horner v B xs < horner v B ys"
  using assms
proof (induction xs ys rule: list_induct2)
  case Nil
  then show ?case by simp
next
  case (Cons x xs y ys)
  have bx: "horner v B xs < B ^ length xs" and "horner v B ys < B ^ length ys"
    using Cons.prems(1) by (auto intro!: horner_bound)
  then have by': "horner v B ys < B ^ length xs"
    using Cons.hyps by simp
  have IH: "xs < ys \<longleftrightarrow> horner v B xs < horner v B ys"
    using Cons.IH Cons.prems by auto
  have lt: "x < y \<longleftrightarrow> v x < v y" and eq: "x = y \<longleftrightarrow> v x = v y"
    using Cons.prems(2,3) by auto
  have step: "a * P + p < b * P + q" if "a < b" "p < P" for a b p q P :: nat
  proof -
    have "(a + 1) * P \<le> b * P" using that(1) by (intro mult_right_mono) auto
    with that(2) show ?thesis by simp
  qed
  consider "v x < v y" | "v x = v y" | "v y < v x" by linarith
  then show ?case
  proof cases
    case 1
    then show ?thesis using lt step [OF 1 bx] Cons.hyps by (simp add: horner_Cons)
  next
    case 2
    then show ?thesis using eq IH Cons.hyps by (simp add: horner_Cons)
  next
    case 3
    then show ?thesis using lt eq step [OF 3 by', of "horner v B xs"] Cons.hyps
      by (auto simp: horner_Cons)
  qed
qed

section \<open>Lists\<close>

lemma filter_sorted_list_of_set:
  assumes "finite A"
  shows "filter P (sorted_list_of_set A) = sorted_list_of_set {x \<in> A. P x}"
  using assms
  by (intro sorted_distinct_set_unique) (auto simp: sorted_wrt_filter)

text \<open>A list that is strictly sorted by a key is determined by its elements.\<close>

lemma sorted_key_unique:
  fixes f :: "'a \<Rightarrow> 'b :: linorder"
  assumes "sorted_wrt (\<lambda>a b. f a < f b) xs" "sorted_wrt (\<lambda>a b. f a < f b) ys" "set xs = set ys"
  shows "xs = ys"
proof -
  have "sorted_wrt (<) (map f xs)" "sorted_wrt (<) (map f ys)" using assms(1,2) by (simp_all add: sorted_wrt_map)
  moreover from this have "map f xs = map f ys"
    by (intro strict_sorted_equal) (simp_all add: assms(3))
  moreover have "inj_on f (set xs)" using calculation(1) by (simp add: strict_sorted_iff distinct_map)
  ultimately show ?thesis using inj_on_map_eq_map [of f xs ys] assms(3) by simp
qed

lemma sorted_wrt_concat:
  assumes "\<And>xs. xs \<in> set xss \<Longrightarrow> sorted_wrt R xs" "sorted_wrt (\<lambda>xs ys. \<forall>x \<in> set xs. \<forall>y \<in> set ys. R x y) xss"
  shows "sorted_wrt R (concat xss)"
  using assms by (induction xss) (auto simp: sorted_wrt_append)

text \<open>The length of a page of a list.\<close>

lemma page_length:
  "int (length (take (nat r) (drop (nat st) xs))) = max 0 (min r (int (length xs) - max 0 st))"
proof -
  have "int (length (take a (drop b xs))) = max 0 (min (int a) (int (length xs) - int b))" for a b
    by auto
  moreover have "int (nat r) = max 0 r" "int (nat st) = max 0 st" by auto
  ultimately show ?thesis by auto
qed

lemma append_less_cancel [simp]:
  fixes a b c :: "'a :: linorder list"
  shows "a @ b < a @ c \<longleftrightarrow> b < c"
  by (induction a) simp_all

lemma append_le_cancel [simp]:
  fixes a b c :: "'a :: linorder list"
  shows "a @ b \<le> a @ c \<longleftrightarrow> b \<le> c"
  by (induction a) simp_all

text \<open>Two lists whose first \<open>n\<close> elements differ compare as those first elements do.\<close>

lemma append_less_same_length:
  fixes a b x y :: "'a :: linorder list"
  assumes "length a = length b"
  shows "a @ x < b @ y \<longleftrightarrow> a < b \<or> (a = b \<and> x < y)"
  using assms by (induction a b rule: list_induct2) auto

end
