(* ===== verification/GoLib.thy ===== *)
theory GoLib
  imports Prelude
begin

text \<open>
  The parts of Go's standard library that the indexer's data depends on: \<open>math/big\<close> (\<open>Bytes\<close>,
  \<open>SetBytes\<close>, \<open>String\<close>, \<open>SetString\<close>, \<open>Int64\<close>, \<open>Uint64\<close>), \<open>strconv\<close> (\<open>ParseInt\<close>, \<open>Atoi\<close>,
  \<open>Itoa\<close>) and \<open>time\<close> (\<open>Unix\<close>, \<open>Add\<close>, \<open>Sub\<close>, \<open>IsZero\<close>).
  \<^item> A \<open>big.Int\<close> is an \<open>int\<close>; a \<open>*big.Int\<close> field is an \<open>int option\<close> whose \<open>None\<close> is nil.
  \<^item> \<open>int64\<close> and \<open>uint64\<close> are \<open>64 word\<close>, read by \<open>sint\<close> and \<open>uint\<close>.
  \<^item> A \<open>time.Time\<close> is the number of nanoseconds since the Unix epoch, a \<open>time.Duration\<close> a number
    of nanoseconds; the zero \<open>time.Time\<close> is midnight of January 1 of the year 1.
  \<^item> After a failed \<open>SetString\<close> the receiver's value is not specified by the documentation; the
    model keeps what \<open>math/big\<close> leaves there, the value of the digits read before the failure.
\<close>

section \<open>Bytes of a big integer\<close>

fun be_bytes :: "nat \<Rightarrow> bytes" where
  "be_bytes n = (if n = 0 then [] else be_bytes (n div 256) @ [of_nat (n mod 256)])"

declare be_bytes.simps [simp del]

abbreviation be_val :: "bytes \<Rightarrow> nat" where
  "be_val \<equiv> horner unat 256"

definition big_Bytes :: "int \<Rightarrow> bytes" where
  "big_Bytes x = be_bytes (nat \<bar>x\<bar>)"

definition big_SetBytes :: "bytes \<Rightarrow> int" where
  "big_SetBytes b = int (be_val b)"

lemma be_bytes_0 [simp]: "be_bytes 0 = []"
  by (simp add: be_bytes.simps)

lemma unat_of_nat_mod_256 [simp]: "unat (of_nat (n mod 256) :: byte) = n mod 256"
  by (simp add: unat_of_nat)

lemma be_val_be_bytes [simp]: "be_val (be_bytes n) = n"
proof (induction n rule: be_bytes.induct)
  case (1 n)
  show ?case
  proof (cases "n = 0")
    case False
    with "1.IH" have "be_val (be_bytes n) = n div 256 * 256 + n mod 256"
      by (simp add: be_bytes.simps [of n])
    then show ?thesis by simp
  qed simp
qed

lemma be_val_bound: "be_val b < 256 ^ length b"
  by (rule horner_bound) (use unsigned_less [where 'b = 8] in auto)

lemma length_be_bytes: "256 ^ k \<le> n \<Longrightarrow> n < 256 ^ Suc k \<Longrightarrow> length (be_bytes n) = Suc k"
proof (induction k arbitrary: n)
  case 0
  then show ?case by (simp add: be_bytes.simps [of n])
next
  case (Suc k)
  have "256 ^ k \<le> n div 256" using Suc.prems(1) by (simp add: less_eq_div_iff_mult_less_eq)
  moreover have "n div 256 < 256 ^ Suc k" using Suc.prems(2) by (simp add: div_less_iff_less_mult)
  ultimately have "length (be_bytes (n div 256)) = Suc k" by (rule Suc.IH)
  moreover have "n \<noteq> 0" using Suc.prems(1) by (metis le_zero_eq power_not_zero zero_neq_numeral)
  ultimately show ?case by (simp add: be_bytes.simps [of n])
qed

lemma length_be_bytes_le: "n < 256 ^ k \<Longrightarrow> length (be_bytes n) \<le> k"
proof (induction k arbitrary: n)
  case 0
  then show ?case by simp
next
  case (Suc k)
  have "n div 256 < 256 ^ k" using Suc.prems by (simp add: div_less_iff_less_mult)
  with Suc.IH show ?case by (simp add: be_bytes.simps [of n])
qed

lemma big_SetBytes_Bytes [simp]: "big_SetBytes (big_Bytes x) = \<bar>x\<bar>"
  by (simp add: big_SetBytes_def big_Bytes_def)

lemma big_Bytes_inj: "big_Bytes x = big_Bytes y \<Longrightarrow> \<bar>x\<bar> = \<bar>y\<bar>"
  by (metis big_SetBytes_Bytes)

lemma be_val_less_iff:
  assumes "length a = length b"
  shows "a < b \<longleftrightarrow> be_val a < be_val b"
  using assms
proof (rule horner_less_iff)
  show "\<forall>x \<in> set a \<union> set b. unat x < 256"
    using unsigned_less [where 'b = 8] by auto
qed (auto simp: word_less_nat_alt word_unat_eq_iff)

section \<open>Decimal strings\<close>

definition digit_char :: "nat \<Rightarrow> char" where
  "digit_char d = char_of (48 + d)"

definition digit_val :: "char \<Rightarrow> nat" where
  "digit_val c = of_char c - 48"

definition is_digit :: "char \<Rightarrow> bool" where
  "is_digit c \<longleftrightarrow> 48 \<le> (of_char c :: nat) \<and> (of_char c :: nat) \<le> 57"

fun dec :: "nat \<Rightarrow> string" where
  "dec n = (if n < 10 then [digit_char n] else dec (n div 10) @ [digit_char (n mod 10)])"

declare dec.simps [simp del]

abbreviation dec_val :: "string \<Rightarrow> nat" where
  "dec_val \<equiv> horner digit_val 10"

lemma digit_val_char [simp]: "d < 10 \<Longrightarrow> digit_val (digit_char d) = d"
  by (simp add: digit_val_def digit_char_def)

lemma is_digit_char [simp]: "d < 10 \<Longrightarrow> is_digit (digit_char d)"
  by (simp add: is_digit_def digit_char_def)

lemma digit_val_less: "is_digit c \<Longrightarrow> digit_val c < 10"
  by (auto simp: is_digit_def digit_val_def)

lemma dec_digits: "\<forall>c \<in> set (dec n). is_digit c"
proof (induction n rule: dec.induct)
  case (1 n)
  then show ?case by (cases "n < 10") (auto simp: dec.simps [of n])
qed

lemma dec_not_Nil [simp]: "dec n \<noteq> []"
  by (simp add: dec.simps [of n])

lemma dec_val_dec [simp]: "dec_val (dec n) = n"
proof (induction n rule: dec.induct)
  case (1 n)
  show ?case
  proof (cases "n < 10")
    case True
    then show ?thesis by (simp add: dec.simps [of n] horner_def)
  next
    case False
    then have "dec_val (dec n) = n div 10 * 10 + n mod 10"
      using "1.IH" by (simp add: dec.simps [of n])
    then show ?thesis by simp
  qed
qed

lemma dec_inject [simp]: "dec m = dec n \<longleftrightarrow> m = n"
  by (metis dec_val_dec)

lemma length_dec_le: "n < 10 ^ Suc k \<Longrightarrow> length (dec n) \<le> Suc k"
proof (induction k arbitrary: n)
  case 0
  then show ?case by (simp add: dec.simps [of n])
next
  case (Suc k)
  then have "n div 10 < 10 ^ Suc k" by (simp add: div_less_iff_less_mult)
  with Suc.IH show ?case by (simp add: dec.simps [of n])
qed

lemma dec_val_bound: "\<forall>c \<in> set s. is_digit c \<Longrightarrow> dec_val s < 10 ^ length s"
  by (rule horner_bound) (auto simp: digit_val_less)

lemma less_length_dec: "10 ^ k \<le> n \<Longrightarrow> k < length (dec n)"
  using dec_val_bound [OF dec_digits, of n]
  by (metis dec_val_dec le_less_trans one_less_numeral_iff power_less_imp_less_exp semiring_norm(76))

lemma length_dec_iff: "length (dec n) \<le> Suc k \<longleftrightarrow> n < 10 ^ Suc k"
  using length_dec_le less_length_dec by (metis linorder_not_less)

lemma takeWhile_digits [simp]: "\<forall>c \<in> set s. is_digit c \<Longrightarrow> takeWhile is_digit s = s"
  by (simp add: takeWhile_eq_all_conv)

lemma of_char_nat_digit: "is_digit c \<Longrightarrow> (of_char c :: nat) = 48 + digit_val c"
  by (auto simp: is_digit_def digit_val_def)

text \<open>Digit strings of one length compare, byte by byte, as their values do.\<close>

lemma horner_bytes_of:
  "\<forall>c \<in> set s. is_digit c \<Longrightarrow> horner (\<lambda>b. unat b - 48) 10 (bytes_of s) = dec_val s"
  by (induction s rule: rev_induct) (auto simp: bytes_of_def digit_val_def)

lemma bytes_of_less_iff:
  assumes "length s = length t" "\<forall>c \<in> set s \<union> set t. is_digit c"
  shows "bytes_of s < bytes_of t \<longleftrightarrow> dec_val s < dec_val t"
proof -
  have dig: "48 \<le> unat b \<and> unat b \<le> 57"
    if "b \<in> set (bytes_of s) \<union> set (bytes_of t)" for b
    using that assms(2) by (auto simp: bytes_of_def is_digit_def)
  have "bytes_of s < bytes_of t \<longleftrightarrow>
      horner (\<lambda>b. unat b - 48) 10 (bytes_of s) < horner (\<lambda>b. unat b - 48) 10 (bytes_of t)"
  proof (rule horner_less_iff)
    show "\<forall>x \<in> set (bytes_of s) \<union> set (bytes_of t). unat x - 48 < 10"
      using dig by force
  next
    fix x y assume "x \<in> set (bytes_of s)" "y \<in> set (bytes_of t)"
    then have "48 \<le> unat x" "48 \<le> unat y" using dig by auto
    then show "x < y \<longleftrightarrow> unat x - 48 < unat y - 48" and "x = y \<longleftrightarrow> unat x - 48 = unat y - 48"
      by (auto simp: word_less_nat_alt word_unat_eq_iff)
  qed (simp add: assms(1))
  then show ?thesis using assms(2) by (simp add: horner_bytes_of)
qed

section \<open>Conversions of big integers\<close>

definition big_String :: "int option \<Rightarrow> string" where
  "big_String p = (case p of
       None \<Rightarrow> ''<nil>''
     | Some x \<Rightarrow> (if x < 0 then CHR ''-'' # dec (nat (- x)) else dec (nat x)))"

definition split_sign :: "string \<Rightarrow> bool \<times> string" where
  "split_sign s = (case s of
       [] \<Rightarrow> (False, [])
     | c # r \<Rightarrow> (if c = CHR ''-'' then (True, r) else if c = CHR ''+'' then (False, r) else (False, s)))"

text \<open>\<open>new(big.Int).SetString(s, 10)\<close>: the receiver afterwards, and the reported success.\<close>

definition big_SetString :: "string \<Rightarrow> int \<times> bool" where
  "big_SetString s =
     (let (neg, r) = split_sign s; ds = takeWhile is_digit r; v = int (dec_val ds)
      in (if neg then - v else v, ds \<noteq> [] \<and> ds = r))"

definition big_Int64 :: "int \<Rightarrow> 64 word" where
  "big_Int64 x = word_of_int x"

definition big_Uint64 :: "int \<Rightarrow> 64 word" where
  "big_Uint64 x = word_of_int \<bar>x\<bar>"

lemma digit_not_sign: "is_digit c \<Longrightarrow> c \<noteq> CHR ''-'' \<and> c \<noteq> CHR ''+''"
  by (auto simp: is_digit_def)

lemma split_sign_dec [simp]: "split_sign (dec n) = (False, dec n)"
  using dec_digits [of n] digit_not_sign
  by (cases "dec n") (auto simp: split_sign_def)

lemma big_SetString_dec [simp]: "big_SetString (dec n) = (int n, True)"
  using dec_digits [of n] by (simp add: big_SetString_def)

lemma big_SetString_String [simp]: "big_SetString (big_String (Some x)) = (x, True)"
proof (cases "x < 0")
  case True
  then show ?thesis
    using dec_digits [of "nat (- x)"] by (simp add: big_String_def big_SetString_def split_sign_def)
next
  case False
  then show ?thesis by (simp add: big_String_def)
qed

lemma big_String_nonneg: "0 \<le> x \<Longrightarrow> big_String (Some x) = dec (nat x)"
  by (simp add: big_String_def)

lemma big_SetString_digits:
  "s \<noteq> [] \<Longrightarrow> \<forall>c \<in> set s. is_digit c \<Longrightarrow> big_SetString s = (int (dec_val s), True)"
  using digit_not_sign by (cases s) (auto simp: big_SetString_def split_sign_def)

lemma sint_big_Int64: "- (2 ^ 63) \<le> x \<Longrightarrow> x < 2 ^ 63 \<Longrightarrow> sint (big_Int64 x) = x"
  by (simp add: big_Int64_def signed_of_int signed_take_bit_int_eq_self)

lemma uint_big_Uint64: "0 \<le> x \<Longrightarrow> x < 2 ^ 64 \<Longrightarrow> uint (big_Uint64 x) = x"
  by (simp add: big_Uint64_def unsigned_of_int take_bit_int_eq_self)

section \<open>strconv\<close>

definition Itoa :: "int \<Rightarrow> string" where
  "Itoa x = big_String (Some x)"

definition ParseInt :: "string \<Rightarrow> string + int" where
  "ParseInt s =
     (let (neg, r) = split_sign s
      in if r = [] \<or> \<not> list_all is_digit r then Inl ''invalid syntax''
         else if \<not> neg \<and> 2 ^ 63 \<le> dec_val r then Inl ''value out of range''
         else if neg \<and> 2 ^ 63 < dec_val r then Inl ''value out of range''
         else Inr (if neg then - int (dec_val r) else int (dec_val r)))"

definition Atoi :: "string \<Rightarrow> string + int" where
  "Atoi s = ParseInt s"

lemma ParseInt_dec: "n < 2 ^ 63 \<Longrightarrow> ParseInt (dec n) = Inr (int n)"
  using dec_digits [of n] by (simp add: ParseInt_def list_all_iff)

section \<open>time\<close>

type_synonym gotime = int
type_synonym duration = int

definition Second :: duration where "Second = 1000000000"
definition Minute :: duration where "Minute = 60 * Second"
definition Hour :: duration where "Hour = 60 * Minute"

definition time_Unix :: "int \<Rightarrow> gotime" where
  "time_Unix sec = sec * Second"

definition tUnix :: "gotime \<Rightarrow> int" where
  "tUnix t = t div Second"

definition zeroTime :: gotime where
  "zeroTime = time_Unix (- 62135596800)"

definition tIsZero :: "gotime \<Rightarrow> bool" where
  "tIsZero t \<longleftrightarrow> t = zeroTime"

definition tAdd :: "gotime \<Rightarrow> duration \<Rightarrow> gotime" where
  "tAdd t d = t + d"

text \<open>\<open>Sub\<close> saturates at the largest and the smallest \<open>Duration\<close>.\<close>

definition tSub :: "gotime \<Rightarrow> gotime \<Rightarrow> duration" where
  "tSub t u = max (- (2 ^ 63)) (min (2 ^ 63 - 1) (t - u))"

lemma tUnix_time_Unix [simp]: "tUnix (time_Unix s) = s"
  by (simp add: tUnix_def time_Unix_def Second_def)

lemma tUnix_Add_Second [simp]: "tUnix (tAdd t Second) = tUnix t + 1"
  by (simp add: tUnix_def tAdd_def Second_def)

end
