(* ===== verification/CoreTypes.thy ===== *)
theory CoreTypes
  imports GoLib
begin

text \<open>
  The data types of \<open>core/types\<close>: what is received from the blockchain (\<open>blockchain.go\<close>), what is
  stored (\<open>index.go\<close>) and the progress of a batch (\<open>batch_status.go\<close>) with its operations
  \<open>IsDone\<close>, \<open>Next\<close> and \<open>String\<close>. Fields keep the source's names behind a two-letter prefix of their
  struct (\<open>bsFrom\<close> is \<open>BatchStatus.From\<close>), because the structs share field names; embedding is
  record extension. A \<open>*big.Int\<close> field is an \<open>int option\<close>.
\<close>

section \<open>Blockchain data\<close>

record TransactionDetail =
  txFrom :: string
  txTo :: string
  txTxHash :: string
  txValue :: "int option"

record TransactionExtra =
  exData :: bytes
  exGas :: "64 word"
  exGasPrice :: "int option"

record BLockDetail =
  bdBlockNumber :: "int option"
  bdTime :: "int option"
  bdTransactions :: "TransactionDetail list"

section \<open>Index data\<close>

record AddressSequence =
  Address :: string
  Sequence :: "8 word"

record AddressIndex = AddressSequence +
  aiTxHash :: string
  aiValue :: "int option"
  aiTime :: "int option"
  CoupleAddress :: string

record BlockIndex =
  biBlockNumber :: string
  biAddresses :: "AddressSequence list"
  biTime :: "int option"
  biCreatedAt :: "int option"

definition emptyBlockIndex :: BlockIndex where
  "emptyBlockIndex = \<lparr>biBlockNumber = [], biAddresses = [], biTime = None, biCreatedAt = None\<rparr>"

definition AddressIndex_String :: "AddressIndex \<Rightarrow> string" where
  "AddressIndex_String index =
     ''address '' @ Address index @ '', tx hash: '' @ aiTxHash index @
     '', value: '' @ big_String (aiValue index) @ '', time: '' @ big_String (aiTime index)"

section \<open>Batch status\<close>

record BatchStatus =
  bsFrom :: "int option"
  bsTo :: "int option"
  bsCreatedAt :: "int option"
  bsStep :: "8 word"
  bsCurrent :: "int option"
  bsUpdatedAt :: "int option"

text \<open>The sum is an \<open>int64\<close>: it wraps, and the comparison is signed.\<close>

definition IsDone :: "BatchStatus \<Rightarrow> bool outcome" where
  "IsDone bs =
     (case bsCurrent bs of
        None \<Rightarrow> Ret False
      | Some c \<Rightarrow>
          (let next = big_Int64 c + ucast (bsStep bs)
           in obind (deref (bsTo bs)) (\<lambda>to. Ret (sint next > sint (big_Int64 to)))))"

text \<open>\<open>Next\<close> updates the receiver and returns the new current block number.\<close>

definition Next :: "BatchStatus \<Rightarrow> (int \<times> BatchStatus) outcome" where
  "Next bs =
     (case bsCurrent bs of
        None \<Rightarrow> obind (deref (bsFrom bs)) (\<lambda>from. Ret (from, bs\<lparr>bsCurrent := Some from\<rparr>))
      | Some c \<Rightarrow>
          (let current = sint (big_Int64 c + ucast (bsStep bs))
           in Ret (current, bs\<lparr>bsCurrent := Some current\<rparr>)))"

definition BatchStatus_String :: "BatchStatus \<Rightarrow> string" where
  "BatchStatus_String bs =
     ''From '' @ big_String (bsFrom bs) @ '', To '' @ big_String (bsTo bs) @
     '', Step '' @ big_String (Some (uint (bsStep bs))) @
     '', Current '' @ big_String (bsCurrent bs) @
     '', CreatedAt '' @ big_String (bsCreatedAt bs) @
     '', UpdatedAt '' @ big_String (bsUpdatedAt bs)"

text \<open>
  Away from the limits of \<open>int64\<close> the two operations are ordinary arithmetic. \<open>batch_ok\<close> is the
  shape every batch of the indexer has: both ends known and in range, and a step of at least 1.
\<close>

definition in_range :: "int \<Rightarrow> bool" where
  "in_range x \<longleftrightarrow> 0 \<le> x \<and> x < 2 ^ 62"

definition batch_ok :: "BatchStatus \<Rightarrow> bool" where
  "batch_ok bs \<longleftrightarrow>
     (\<exists>f t. bsFrom bs = Some f \<and> bsTo bs = Some t \<and> in_range f \<and> in_range t) \<and>
     bsStep bs \<noteq> 0 \<and> (\<forall>c. bsCurrent bs = Some c \<longrightarrow> in_range c)"

lemma sint_Int64_add_step:
  assumes "in_range c"
  shows "sint (big_Int64 c + (ucast (step :: 8 word) :: 64 word)) = c + uint step"
proof -
  have step: "0 \<le> uint step" "uint step < 256"
    using unsigned_less [of step] by auto
  have "(ucast step :: 64 word) = word_of_int (uint step)"
    by (simp add: unsigned_ucast_eq word_uint_eq_iff take_bit_int_eq_self unsigned_of_int)
  then have "big_Int64 c + (ucast step :: 64 word) = big_Int64 (c + uint step)"
    by (simp add: big_Int64_def)
  moreover have "- (2 ^ 63) \<le> c + uint step" "c + uint step < 2 ^ 63"
    using assms step by (auto simp: in_range_def intro: order_trans [of _ 0])
  ultimately show ?thesis by (metis sint_big_Int64)
qed

lemma IsDone_None [simp]: "bsCurrent bs = None \<Longrightarrow> IsDone bs = Ret False"
  by (simp add: IsDone_def)

lemma IsDone_Some:
  assumes "bsCurrent bs = Some c" "bsTo bs = Some t" "in_range c" "in_range t"
  shows "IsDone bs = Ret (c + uint (bsStep bs) > t)"
  using assms sint_big_Int64 [of t]
  by (simp add: IsDone_def sint_Int64_add_step in_range_def)

lemma Next_None [simp]:
  "bsCurrent bs = None \<Longrightarrow> bsFrom bs = Some f \<Longrightarrow> Next bs = Ret (f, bs\<lparr>bsCurrent := Some f\<rparr>)"
  by (simp add: Next_def)

lemma Next_Some:
  assumes "bsCurrent bs = Some c" "in_range c"
  shows "Next bs = Ret (c + uint (bsStep bs), bs\<lparr>bsCurrent := Some (c + uint (bsStep bs))\<rparr>)"
  using assms by (simp add: Next_def sint_Int64_add_step Let_def)

end
