(* ===== verification/Datetime.thy ===== *)
theory Datetime
  imports GoLib
begin

text \<open>
  \<open>common/datetime.go\<close>: how a Unix time is written as bytes and read back. A stored time is the
  big-endian form of at most the first ten decimal digits; it takes exactly four bytes from
  \<open>2\<^sup>2\<^sup>4\<close> (1970-07-14) up to \<open>2\<^sup>3\<^sup>2\<close> (2106-02-07), the window \<open>time_ok\<close>.
\<close>

definition MarshallTime :: "int option \<Rightarrow> bytes" where
  "MarshallTime t =
     (let timeStr = big_String t;
          timeStr' = (if length timeStr > 10 then take 10 timeStr else timeStr)
      in big_Bytes (fst (big_SetString timeStr')))"

definition MarshallTime2 :: "gotime \<Rightarrow> bytes" where
  "MarshallTime2 tm = big_Bytes (tUnix tm)"

definition UnmarshallTimeToInt :: "bytes \<Rightarrow> int" where
  "UnmarshallTimeToInt v = big_SetBytes v"

definition UnmarshallIntToTime :: "int option \<Rightarrow> gotime outcome" where
  "UnmarshallIntToTime v = obind (deref v) (\<lambda>x. Ret (time_Unix (sint (big_Uint64 x))))"

definition UnmarshallTime :: "bytes \<Rightarrow> gotime outcome" where
  "UnmarshallTime v = UnmarshallIntToTime (Some (UnmarshallTimeToInt v))"

definition StrToUnixTimeInt :: "string \<Rightarrow> string + int" where
  "StrToUnixTimeInt str = ParseInt str"

section \<open>The four-byte window\<close>

definition time_ok :: "int \<Rightarrow> bool" where
  "time_ok t \<longleftrightarrow> 2 ^ 24 \<le> t \<and> t < 2 ^ 32"

lemma MarshallTime_short:
  assumes "0 \<le> t" "t < 10 ^ 10"
  shows "MarshallTime (Some t) = be_bytes (nat t)"
proof -
  have "nat t < 10 ^ Suc 9" using assms by simp
  then have "length (dec (nat t)) \<le> Suc 9" by (rule length_dec_le)
  with assms show ?thesis
    by (simp add: MarshallTime_def big_String_nonneg big_Bytes_def)
qed

lemma length_be_bytes_time: "time_ok t \<Longrightarrow> length (be_bytes (nat t)) = 4"
  using length_be_bytes [of 3 "nat t"] by (auto simp: time_ok_def)

lemma MarshallTime_ok: "time_ok t \<Longrightarrow> MarshallTime (Some t) = be_bytes (nat t)"
  by (rule MarshallTime_short) (auto simp: time_ok_def)

lemma length_MarshallTime [simp]: "time_ok t \<Longrightarrow> length (MarshallTime (Some t)) = 4"
  by (simp add: MarshallTime_ok length_be_bytes_time)

lemma UnmarshallTimeToInt_Marshall [simp]:
  "time_ok t \<Longrightarrow> UnmarshallTimeToInt (MarshallTime (Some t)) = t"
  by (simp add: MarshallTime_ok UnmarshallTimeToInt_def big_SetBytes_def time_ok_def)

lemma MarshallTime2_ok: "time_ok (tUnix tm) \<Longrightarrow> MarshallTime2 tm = MarshallTime (Some (tUnix tm))"
  by (simp add: MarshallTime2_def MarshallTime_ok big_Bytes_def time_ok_def)

lemma MarshallTime_less_iff:
  "time_ok t \<Longrightarrow> time_ok u \<Longrightarrow> MarshallTime (Some t) < MarshallTime (Some u) \<longleftrightarrow> t < u"
  by (simp add: be_val_less_iff) (auto simp: MarshallTime_ok time_ok_def)

lemma MarshallTime_eq_iff:
  "time_ok t \<Longrightarrow> time_ok u \<Longrightarrow> MarshallTime (Some t) = MarshallTime (Some u) \<longleftrightarrow> t = u"
  by (metis UnmarshallTimeToInt_Marshall)

lemma UnmarshallIntToTime_ok:
  assumes "0 \<le> x" "x < 2 ^ 63"
  shows "UnmarshallIntToTime (Some x) = Ret (time_Unix x)"
  using assms sint_big_Int64 [of x]
  by (simp add: UnmarshallIntToTime_def big_Uint64_def big_Int64_def)

section \<open>Times given in milliseconds\<close>

text \<open>Dropping the last digits of a decimal string divides by a power of ten.\<close>

lemma dec_snoc: "0 < n \<Longrightarrow> d < 10 \<Longrightarrow> dec (n * 10 + d) = dec n @ [digit_char d]"
  by (simp add: dec.simps [of "n * 10 + d"])

lemma take_dec:
  assumes "0 < n" "r < 10 ^ k"
  shows "take (length (dec n)) (dec (n * 10 ^ k + r)) = dec n"
  using assms(2)
proof (induction k arbitrary: r)
  case 0
  then show ?case by simp
next
  case (Suc k)
  have "r div 10 < 10 ^ k" using Suc.prems by (simp add: div_less_iff_less_mult)
  then have IH: "take (length (dec n)) (dec (n * 10 ^ k + r div 10)) = dec n"
    by (rule Suc.IH)
  have split: "n * 10 ^ Suc k + r = (n * 10 ^ k + r div 10) * 10 + r mod 10"
    by simp
  have "length (dec n) \<le> length (dec (n * 10 ^ k + r div 10))"
    using IH by (metis length_take min.cobounded1)
  with IH show ?case
    unfolding split using assms(1) by (subst dec_snoc) auto
qed

lemma MarshallTime_millis:
  assumes "10 ^ 9 \<le> t" "t < 10 ^ 10" "0 \<le> r" "r < 1000"
  shows "MarshallTime (Some (t * 1000 + r)) = MarshallTime (Some t)"
proof -
  let ?n = "nat t" and ?r = "nat r"
  have n: "0 < ?n" "10 ^ 9 \<le> ?n" "?n < 10 ^ Suc 9" and r: "?r < 10 ^ 3" using assms by auto
  have len: "length (dec ?n) = 10"
    using length_dec_le [OF n(3)] less_length_dec [OF n(2)] by simp
  have eq: "nat (t * 1000 + r) = ?n * 10 ^ 3 + ?r"
    using assms by (simp add: nat_add_distrib nat_mult_distrib)
  have "take 10 (dec (?n * 10 ^ 3 + ?r)) = dec ?n"
    using take_dec [OF n(1) r] len by simp
  moreover have "length (dec (?n * 10 ^ 3 + ?r)) > 10"
    using less_length_dec [of 10 "?n * 10 ^ 3 + ?r"] n by simp
  ultimately show ?thesis
    using assms len eq by (simp add: MarshallTime_def big_String_nonneg)
qed

end
