(* ===== verification/External.thy ===== *)
theory External
  imports Prelude
begin

text \<open>
  The stateless third-party functions the indexer calls, as one record \<open>ext\<close> of parameters that
  every definition using them takes as an argument: \<open>hexutil.Decode\<close> and \<open>hexutil.Encode\<close> of
  go-ethereum, and \<open>util.BytesPrefix\<close> of goleveldb. The locale \<open>external\<close> states what their
  documentation promises and the indexer relies on. \<open>URange\<close> is goleveldb's \<open>util.Range\<close>: the
  start is included, the limit is not, and a nil limit is no limit.
\<close>

record URange =
  Start :: bytes
  Limit :: "bytes option"

definition in_urange :: "URange \<Rightarrow> bytes \<Rightarrow> bool" where
  "in_urange r k \<longleftrightarrow> Start r \<le> k \<and> (case Limit r of None \<Rightarrow> True | Some l \<Rightarrow> k < l)"

record ext =
  hexDecode :: "string \<Rightarrow> bytes \<times> string option"
  hexEncode :: "bytes \<Rightarrow> string"
  BytesPrefix :: "bytes \<Rightarrow> URange"

text \<open>go-ethereum's \<open>common.AddressLength\<close> and \<open>common.HashLength\<close> in bytes.\<close>

definition AddressLength :: nat where "AddressLength = 20"
definition HashLength :: nat where "HashLength = 32"

text \<open>
  The bytes of an address or a hash, as the code uses them (it ignores \<open>Decode\<close>'s error), and the
  form in which the same bytes are printed again.
\<close>

definition addr_bytes :: "ext \<Rightarrow> string \<Rightarrow> bytes" where
  "addr_bytes x s = fst (hexDecode x s)"

definition norm_hex :: "ext \<Rightarrow> string \<Rightarrow> string" where
  "norm_hex x s = hexEncode x (addr_bytes x s)"

definition addr_ok :: "ext \<Rightarrow> string \<Rightarrow> bool" where
  "addr_ok x s \<longleftrightarrow> length (addr_bytes x s) = 20"

definition hash_ok :: "ext \<Rightarrow> string \<Rightarrow> bool" where
  "hash_ok x s \<longleftrightarrow> length (addr_bytes x s) = 32"

locale external =
  fixes x :: ext
  assumes decode_encode: "hexDecode x (hexEncode x b) = (b, None)"
    and BytesPrefix_range: "in_urange (BytesPrefix x p) k \<longleftrightarrow> prefix p k"
begin

lemma addr_bytes_encode [simp]: "addr_bytes x (hexEncode x b) = b"
  by (simp add: addr_bytes_def decode_encode)

lemma addr_bytes_norm [simp]: "addr_bytes x (norm_hex x s) = addr_bytes x s"
  by (simp add: norm_hex_def)

lemma norm_hex_idem [simp]: "norm_hex x (norm_hex x s) = norm_hex x s"
  by (simp add: norm_hex_def)

lemma addr_ok_norm [simp]: "addr_ok x (norm_hex x s) = addr_ok x s"
  by (simp add: addr_ok_def)

lemma hexEncode_inject [simp]: "hexEncode x a = hexEncode x b \<longleftrightarrow> a = b"
  by (metis addr_bytes_encode)

end

end
