(* ===== verification/Marshal.thy ===== *)
theory Marshal
  imports CoreTypes Datetime External
begin

text \<open>
  \<open>ByteMarshaller\<close> (\<open>repository/keyvalue/marshal/byte_marshaller.go\<close>): the binary layout of the
  three databases.
  \<^item> address database: key \<open>address(20) time(4) sequence(1)\<close>, value \<open>hash(32) address(20) amount\<close>;
  \<^item> block database: key the decimal block number, value \<open>createdAt(4) time(4) (address(20) seq(1))*\<close>;
  \<^item> batch database: key \<open>from(10) to(10) step(1) createdAt\<close>, value \<open>updatedAt(4) current\<close>.
  An index or slice out of range panics, as in Go; the lemmas give the layouts, the round trips and
  the order of the keys.
\<close>

definition TimestampByteLength :: nat where "TimestampByteLength = 4"
definition BlockNumberMarshallLength :: nat where "BlockNumberMarshallLength = 10"

lemmas marshal_consts = AddressLength_def HashLength_def TimestampByteLength_def
  BlockNumberMarshallLength_def

section \<open>Definitions\<close>

text \<open>The loop of \<open>MarshallBlockValue\<close> over the addresses, from byte \<open>off\<close> on.\<close>

fun put_addresses :: "ext \<Rightarrow> bytes \<Rightarrow> nat \<Rightarrow> AddressSequence list \<Rightarrow> bytes outcome" where
  "put_addresses x result off [] = Ret result"
| "put_addresses x result off (a # as) =
     obind (blit result off (fst (hexDecode x (Address a)))) (\<lambda>r1.
     obind (set_at r1 (off + AddressLength) (Sequence a)) (\<lambda>r2.
     put_addresses x r2 (off + (AddressLength + 1)) as))"

definition MarshallBlockValue :: "ext \<Rightarrow> BlockIndex \<Rightarrow> bytes outcome" where
  "MarshallBlockValue x bi =
     (if biCreatedAt bi = None \<or> biTime bi = None then Panic ''block data is not correct''
      else let numAddr = length (biAddresses bi); addrSeqLen = AddressLength + 1
           in obind (blit (replicate (2 * TimestampByteLength + numAddr * addrSeqLen) 0) 0
                       (MarshallTime (biCreatedAt bi))) (\<lambda>r1.
              obind (blit r1 TimestampByteLength (MarshallTime (biTime bi))) (\<lambda>r2.
              put_addresses x r2 (2 * TimestampByteLength) (biAddresses bi))))"

definition UnmarshallBlockValue :: "ext \<Rightarrow> bytes \<Rightarrow> BlockIndex outcome" where
  "UnmarshallBlockValue x v =
     (let addressSeqLen = AddressLength + 1
      in obind (slice v 0 TimestampByteLength) (\<lambda>c.
         obind (slice v TimestampByteLength (2 * TimestampByteLength)) (\<lambda>t.
         (let numAddress = (length v - 2 * TimestampByteLength) div addressSeqLen;
              addrValue = drop (2 * TimestampByteLength) v
          in obind (omap (\<lambda>i.
                 obind (slice addrValue (i * addressSeqLen) ((i + 1) * addressSeqLen - 1)) (\<lambda>a.
                 obind (index_at addrValue ((i + 1) * addressSeqLen - 1)) (\<lambda>s.
                 Ret \<lparr>Address = hexEncode x a, Sequence = s\<rparr>))) [0..<numAddress]) (\<lambda>addrResult.
             Ret \<lparr>biBlockNumber = [], biAddresses = addrResult,
                  biTime = Some (UnmarshallTimeToInt t), biCreatedAt = Some (UnmarshallTimeToInt c)\<rparr>)))))"

definition MarshallAddressKeyPrefix :: "ext \<Rightarrow> string \<Rightarrow> bytes" where
  "MarshallAddressKeyPrefix x address = fst (hexDecode x address)"

definition MarshallAddressKeyPrefix2 :: "ext \<Rightarrow> string \<Rightarrow> int option \<Rightarrow> bytes" where
  "MarshallAddressKeyPrefix2 x address tm = fst (hexDecode x address) @ MarshallTime tm"

definition MarshallAddressKeyPrefix3 :: "ext \<Rightarrow> string \<Rightarrow> gotime \<Rightarrow> bytes" where
  "MarshallAddressKeyPrefix3 x address tm = fst (hexDecode x address) @ MarshallTime2 tm"

definition MarshallAddressKeyStr :: "ext \<Rightarrow> string \<Rightarrow> int option \<Rightarrow> 8 word \<Rightarrow> bytes" where
  "MarshallAddressKeyStr x address tm seq = MarshallAddressKeyPrefix2 x address tm @ [seq]"

definition MarshallAddressKey :: "ext \<Rightarrow> AddressIndex \<Rightarrow> bytes" where
  "MarshallAddressKey x index = MarshallAddressKeyStr x (Address index) (aiTime index) (Sequence index)"

definition MarshallAddressValue :: "ext \<Rightarrow> AddressIndex \<Rightarrow> bytes outcome" where
  "MarshallAddressValue x index =
     obind (deref (aiValue index)) (\<lambda>v.
     Ret (fst (hexDecode x (aiTxHash index)) @ fst (hexDecode x (CoupleAddress index)) @ big_Bytes v))"

definition UnmarshallAddressKey :: "ext \<Rightarrow> bytes \<Rightarrow> (string \<times> int) outcome" where
  "UnmarshallAddressKey x key =
     obind (slice key 0 AddressLength) (\<lambda>a.
     obind (slice key AddressLength (AddressLength + TimestampByteLength)) (\<lambda>t.
     Ret (hexEncode x a, big_SetBytes t)))"

definition UnmarshallAddressValue :: "ext \<Rightarrow> bytes \<Rightarrow> AddressIndex outcome" where
  "UnmarshallAddressValue x v =
     obind (slice v 0 HashLength) (\<lambda>h.
     obind (slice v HashLength (HashLength + AddressLength)) (\<lambda>a.
     obind (slice v (HashLength + AddressLength) (length v)) (\<lambda>n.
     Ret \<lparr>Address = [], Sequence = 0, aiTxHash = hexEncode x h, aiValue = Some (big_SetBytes n),
          aiTime = None, CoupleAddress = hexEncode x a\<rparr>)))"

definition MarshallBatchValue :: "int option \<Rightarrow> int option \<Rightarrow> bytes outcome" where
  "MarshallBatchValue updatedAt currentBlock =
     obind (deref currentBlock) (\<lambda>c. Ret (MarshallTime updatedAt @ big_Bytes c))"

definition emptyBatchStatus :: BatchStatus where
  "emptyBatchStatus = \<lparr>bsFrom = None, bsTo = None, bsCreatedAt = None, bsStep = 0,
     bsCurrent = None, bsUpdatedAt = None\<rparr>"

definition UnmarshallBatchValue :: "bytes \<Rightarrow> BatchStatus outcome" where
  "UnmarshallBatchValue v =
     obind (slice v 0 TimestampByteLength) (\<lambda>t.
     obind (slice v TimestampByteLength (length v)) (\<lambda>c.
     Ret (emptyBatchStatus\<lparr>bsUpdatedAt := Some (UnmarshallTimeToInt t),
                           bsCurrent := Some (big_SetBytes c)\<rparr>)))"

definition blockNumberWidPad :: "string \<Rightarrow> string" where
  "blockNumberWidPad s =
     (if length s < BlockNumberMarshallLength then replicate (10 - length s) CHR ''0'' @ s else [])"

definition MarshallBatchKey :: "int option \<Rightarrow> int option \<Rightarrow> 8 word \<Rightarrow> int option \<Rightarrow> bytes" where
  "MarshallBatchKey from to step createdAt =
     bytes_of (blockNumberWidPad (big_String from)) @ bytes_of (blockNumberWidPad (big_String to)) @
     [step] @ bytes_of (big_String createdAt)"

definition MarshallBatchKeyFrom :: "int option \<Rightarrow> bytes" where
  "MarshallBatchKeyFrom from = bytes_of (blockNumberWidPad (big_String from))"

definition UnmarshallBatchKey :: "bytes \<Rightarrow> BatchStatus outcome" where
  "UnmarshallBatchKey key =
     obind (slice key 0 BlockNumberMarshallLength) (\<lambda>f.
     obind (slice key BlockNumberMarshallLength (2 * BlockNumberMarshallLength)) (\<lambda>t.
     obind (index_at key (2 * BlockNumberMarshallLength)) (\<lambda>step.
     obind (slice key (2 * BlockNumberMarshallLength + 1) (length key)) (\<lambda>c.
     Ret (emptyBatchStatus\<lparr>bsFrom := Some (fst (big_SetString (string_of f))),
                           bsTo := Some (fst (big_SetString (string_of t))), bsStep := step,
                           bsCreatedAt := Some (fst (big_SetString (string_of c)))\<rparr>)))))"

definition MarshallBlockKey :: "string \<Rightarrow> bytes" where
  "MarshallBlockKey blockNumber = bytes_of blockNumber"

definition UnmarshallBlockKey :: "bytes \<Rightarrow> int" where
  "UnmarshallBlockKey key = fst (big_SetString (string_of key))"

section \<open>Layouts\<close>

text \<open>The block value as a concatenation of its fields.\<close>

definition enc_addr :: "ext \<Rightarrow> AddressSequence \<Rightarrow> bytes" where
  "enc_addr x a = addr_bytes x (Address a) @ [Sequence a]"

lemma put_addresses_layout:
  assumes "\<forall>a \<in> set as. addr_ok x (Address a)"
  shows "put_addresses x (pre @ replicate (21 * length as) 0) (length pre) as
       = Ret (pre @ concat (map (enc_addr x) as))"
  using assms
proof (induction as arbitrary: pre)
  case Nil
  then show ?case by simp
next
  case (Cons a as)
  let ?b = "addr_bytes x (Address a)" and ?rest = "replicate (21 * length as) (0 :: byte)"
  have len: "length ?b = 20" using Cons.prems by (simp add: addr_ok_def)
  have split: "replicate (21 + 21 * length as) (0 :: byte) = replicate 20 0 @ 0 # ?rest"
    by (simp flip: replicate_add replicate_Suc)
  have blit: "blit (pre @ replicate 20 0 @ 0 # ?rest) (length pre) ?b
      = Ret (pre @ ?b @ 0 # ?rest)"
    by (rule blit_append) (simp add: len)
  have set: "set_at (pre @ ?b @ 0 # ?rest) (length pre + 20) (Sequence a)
      = Ret (pre @ enc_addr x a @ ?rest)"
    by (simp add: set_at_def enc_addr_def len list_update_append)
  have "length (pre @ enc_addr x a) = length pre + 21"
    by (simp add: enc_addr_def len)
  then show ?case
    using Cons.IH [of "pre @ enc_addr x a"] Cons.prems
    by (simp add: split blit set AddressLength_def flip: addr_bytes_def)
qed

lemma MarshallBlockValue_layout:
  assumes "biCreatedAt bi = Some c" "biTime bi = Some t" "time_ok c" "time_ok t"
    and "\<forall>a \<in> set (biAddresses bi). addr_ok x (Address a)"
  shows "MarshallBlockValue x bi =
     Ret (MarshallTime (Some c) @ MarshallTime (Some t) @ concat (map (enc_addr x) (biAddresses bi)))"
proof -
  let ?c = "MarshallTime (Some c)" and ?t = "MarshallTime (Some t)" and ?as = "biAddresses bi"
  let ?rest = "replicate (21 * length ?as) (0 :: byte)"
  have len: "length ?c = 4" "length ?t = 4" using assms by simp_all
  have split: "replicate (8 + length ?as * 21) (0 :: byte) = [] @ replicate 4 0 @ (replicate 4 0 @ ?rest)"
    by (simp add: mult.commute flip: replicate_add)
  have b1: "blit ([] @ replicate 4 0 @ (replicate 4 0 @ ?rest)) (length ([] :: bytes)) ?c
      = Ret ([] @ ?c @ (replicate 4 0 @ ?rest))"
    by (rule blit_append) (simp add: len)
  have b2: "blit (?c @ replicate 4 0 @ ?rest) (length ?c) ?t = Ret (?c @ ?t @ ?rest)"
    by (rule blit_append) (simp add: len)
  have b3: "put_addresses x ((?c @ ?t) @ ?rest) (length (?c @ ?t)) ?as
      = Ret ((?c @ ?t) @ concat (map (enc_addr x) ?as))"
    by (rule put_addresses_layout) (rule assms(5))
  show ?thesis
    using b1 b2 b3 assms(1,2) len
    by (simp add: MarshallBlockValue_def marshal_consts split)
qed

text \<open>Reading the \<open>i\<close>-th block of a concatenation of blocks of one length.\<close>

lemma take_drop_concat:
  assumes "\<forall>b \<in> set bs. length b = L" "i < length bs"
  shows "take L (drop (i * L) (concat bs)) = bs ! i"
  using assms
proof (induction bs arbitrary: i)
  case Nil
  then show ?case by simp
next
  case (Cons b bs)
  then show ?case by (cases i) auto
qed

lemma length_concat_blocks:
  "\<forall>b \<in> set bs. length b = L \<Longrightarrow> length (concat bs) = length bs * L"
  by (induction bs) auto

lemma length_enc_addr: "addr_ok x (Address a) \<Longrightarrow> length (enc_addr x a) = 21"
  by (simp add: enc_addr_def addr_ok_def)

context external
begin

lemma read_addr:
  assumes ok: "\<forall>a \<in> set as. addr_ok x (Address a)" and i: "i < length as"
  shows "obind (slice (concat (map (enc_addr x) as)) (i * 21) ((i + 1) * 21 - 1)) (\<lambda>a.
         obind (index_at (concat (map (enc_addr x) as)) ((i + 1) * 21 - 1)) (\<lambda>s.
         Ret \<lparr>Address = hexEncode x a, Sequence = s\<rparr>))
       = Ret \<lparr>Address = norm_hex x (Address (as ! i)), Sequence = Sequence (as ! i)\<rparr>"
    (is "obind (slice ?c ?lo ?hi) _ = _")
proof -
  have blocks: "\<forall>b \<in> set (map (enc_addr x) as). length b = 21"
    using ok by (auto simp: length_enc_addr)
  have blk: "take 21 (drop ?lo ?c) = enc_addr x (as ! i)"
    using take_drop_concat [OF blocks, of i] i by simp
  have len: "length ?c = length as * 21"
    using length_concat_blocks [OF blocks] by simp
  have le: "i * 21 + 21 \<le> length as * 21"
    using i by (metis Suc_leI add.commute mult_Suc mult_le_mono1)
  have a20: "length (addr_bytes x (Address (as ! i))) = 20"
    using ok i by (simp add: addr_ok_def)
  have "take 20 (drop ?lo ?c) = take 20 (enc_addr x (as ! i))"
    by (simp flip: blk)
  then have "slice ?c ?lo ?hi = Ret (addr_bytes x (Address (as ! i)))"
    using le by (simp add: slice_def len enc_addr_def a20)
  moreover have "?c ! ?hi = enc_addr x (as ! i) ! 20"
    using le by (simp add: len add.commute flip: blk)
  then have "index_at ?c ?hi = Ret (Sequence (as ! i))"
    using le by (simp add: index_at_def len enc_addr_def a20 nth_append)
  ultimately show ?thesis by (simp add: norm_hex_def)
qed

text \<open>Round trip of the block value: addresses come back in the printed form of their bytes.\<close>

lemma block_value_roundtrip:
  assumes "biCreatedAt bi = Some c" "biTime bi = Some t" "time_ok c" "time_ok t"
    and ok: "\<forall>a \<in> set (biAddresses bi). addr_ok x (Address a)"
  shows "obind (MarshallBlockValue x bi) (UnmarshallBlockValue x) =
     Ret (bi\<lparr>biBlockNumber := [],
             biAddresses := map (\<lambda>a. a\<lparr>Address := norm_hex x (Address a)\<rparr>) (biAddresses bi)\<rparr>)"
proof -
  let ?as = "biAddresses bi" and ?c = "MarshallTime (Some c)" and ?t = "MarshallTime (Some t)"
  let ?e = "concat (map (enc_addr x) ?as)"
  have len: "length ?c = 4" "length ?t = 4" using assms by simp_all
  have "length ?e = length ?as * 21"
    using ok by (subst length_concat_blocks [where L = 21]) (auto simp: length_enc_addr)
  then have n: "(length (?c @ ?t @ ?e) - 8) div 21 = length ?as" by (simp add: len)
  have s1: "slice (?c @ ?t @ ?e) 0 4 = Ret ?c" by (rule slice_prefix) (simp add: len)
  have s2: "slice (?c @ ?t @ ?e) 4 8 = Ret ?t"
    using slice_append [of ?c ?t ?e] by (simp add: len)
  have om: "omap (\<lambda>i. obind (slice ?e (i * 21) ((i + 1) * 21 - 1)) (\<lambda>a.
         obind (index_at ?e ((i + 1) * 21 - 1)) (\<lambda>s. Ret \<lparr>Address = hexEncode x a, Sequence = s\<rparr>)))
         [0..<length ?as]
       = Ret (map (\<lambda>i. \<lparr>Address = norm_hex x (Address (?as ! i)), Sequence = Sequence (?as ! i)\<rparr>)
               [0..<length ?as])"
    by (rule omap_Ret) (rule read_addr [OF ok], simp)
  have mp: "map (\<lambda>i. \<lparr>Address = norm_hex x (Address (?as ! i)), Sequence = Sequence (?as ! i)\<rparr>)
      [0..<length ?as] = map (\<lambda>a. a\<lparr>Address := norm_hex x (Address a)\<rparr>) ?as"
    by (rule nth_equalityI) simp_all
  have dr: "drop 8 (?c @ ?t @ ?e) = ?e" by (simp add: len)
  have "UnmarshallBlockValue x (?c @ ?t @ ?e) =
      Ret (bi\<lparr>biBlockNumber := [], biAddresses := map (\<lambda>a. a\<lparr>Address := norm_hex x (Address a)\<rparr>) ?as\<rparr>)"
    using s1 s2 n om mp dr assms(1-4)
    by (simp add: UnmarshallBlockValue_def marshal_consts del: upt_Suc length_append drop_append)
  then show ?thesis
    using MarshallBlockValue_layout [OF assms] by simp
qed

end

end
