(* ===== verification/MarshalFacts.thy ===== *)
theory MarshalFacts
  imports Marshal
begin

text \<open>
  What the layouts of \<open>Marshal\<close> give: the address key as an ordered triple (address, time,
  sequence), so that byte order is the order of the triples and a range of keys is an interval of
  times; the round trips of address and batch records; the decimal order of block keys.
\<close>

section \<open>The address key as an ordered triple\<close>

datatype AddrKey = AddrKey (akAddr: bytes) (akTime: int) (akSeq: "8 word")

instantiation AddrKey :: linorder
begin

definition less_AddrKey :: "AddrKey \<Rightarrow> AddrKey \<Rightarrow> bool" where
  "less_AddrKey a b \<longleftrightarrow>
     akAddr a < akAddr b \<or>
     akAddr a = akAddr b \<and> (akTime a < akTime b \<or> akTime a = akTime b \<and> akSeq a < akSeq b)"

definition less_eq_AddrKey :: "AddrKey \<Rightarrow> AddrKey \<Rightarrow> bool" where
  "less_eq_AddrKey a b \<longleftrightarrow> a < b \<or> a = b"

instance
  by standard (auto simp: less_AddrKey_def less_eq_AddrKey_def intro: AddrKey.expand)

end

definition enc_key :: "AddrKey \<Rightarrow> bytes" where
  "enc_key k = akAddr k @ MarshallTime (Some (akTime k)) @ [akSeq k]"

definition dec_key :: "bytes \<Rightarrow> AddrKey" where
  "dec_key b = AddrKey (take 20 b) (big_SetBytes (take 4 (drop 20 b))) (b ! 24)"

definition key_ok :: "AddrKey \<Rightarrow> bool" where
  "key_ok k \<longleftrightarrow> length (akAddr k) = 20 \<and> time_ok (akTime k)"

lemma MarshallAddressKeyStr_enc:
  "MarshallAddressKeyStr x s (Some t) q = enc_key (AddrKey (addr_bytes x s) t q)"
  by (simp add: MarshallAddressKeyStr_def MarshallAddressKeyPrefix2_def enc_key_def addr_bytes_def)

lemma key_ok_simp [simp]: "key_ok (AddrKey a t q) \<longleftrightarrow> length a = 20 \<and> time_ok t"
  by (simp add: key_ok_def)

lemma dec_enc_key [simp]: "key_ok k \<Longrightarrow> dec_key (enc_key k) = k"
  using UnmarshallTimeToInt_Marshall [of "akTime k"]
  by (cases k) (simp add: dec_key_def enc_key_def UnmarshallTimeToInt_def nth_append)

lemma enc_key_inject: "key_ok a \<Longrightarrow> key_ok b \<Longrightarrow> enc_key a = enc_key b \<longleftrightarrow> a = b"
  by (metis dec_enc_key)

lemma enc_key_less_iff:
  assumes "key_ok a" "key_ok b"
  shows "enc_key a < enc_key b \<longleftrightarrow> a < b"
  using assms
  by (cases a; cases b)
     (auto simp: enc_key_def less_AddrKey_def append_less_same_length MarshallTime_less_iff
        MarshallTime_eq_iff)

lemma length_enc_key: "key_ok k \<Longrightarrow> length (enc_key k) = 25"
  by (cases k) (simp add: enc_key_def)

text \<open>A time bound after an address: the keys from it on, and the keys before it.\<close>

lemma enc_key_less_bound:
  assumes "key_ok k" "length a = 20" "time_ok t"
  shows "enc_key k < a @ MarshallTime (Some t) \<longleftrightarrow> akAddr k < a \<or> akAddr k = a \<and> akTime k < t"
  using assms
  by (cases k)
     (auto simp: enc_key_def append_less_same_length MarshallTime_less_iff MarshallTime_eq_iff
        append_less_same_length [where y = "[]", simplified])

lemma bound_le_enc_key:
  assumes "key_ok k" "length a = 20" "time_ok t"
  shows "a @ MarshallTime (Some t) \<le> enc_key k \<longleftrightarrow> a < akAddr k \<or> akAddr k = a \<and> t \<le> akTime k"
  using enc_key_less_bound [OF assms] by (auto simp: not_less [symmetric])

lemma prefix_enc_key:
  "key_ok k \<Longrightarrow> length a = 20 \<Longrightarrow> prefix a (enc_key k) \<longleftrightarrow> akAddr k = a"
  by (cases k) (auto simp: enc_key_def prefix_def append_eq_append_conv)

text \<open>
  The three ranges of a query by time: from \<open>f\<close> on, up to and including \<open>t\<close>, and both. The two
  half-open ones lean on the range of the address prefix for their other end.
\<close>

lemma in_range_from_to:
  assumes "key_ok k" "length a = 20" "time_ok f" "time_ok (t + 1)"
  shows "in_urange \<lparr>Start = a @ MarshallTime (Some f), Limit = Some (a @ MarshallTime (Some (t + 1)))\<rparr> (enc_key k)
     \<longleftrightarrow> akAddr k = a \<and> f \<le> akTime k \<and> akTime k \<le> t"
  using assms by (auto simp: in_urange_def bound_le_enc_key enc_key_less_bound)

section \<open>Round trips\<close>

context external
begin

lemma address_key_roundtrip:
  assumes "addr_ok x s" "time_ok t"
  shows "UnmarshallAddressKey x (MarshallAddressKeyStr x s (Some t) q) = Ret (norm_hex x s, t)"
proof -
  let ?a = "addr_bytes x s" and ?t = "MarshallTime (Some t)"
  have len: "length ?a = 20" "length ?t = 4" using assms by (simp_all add: addr_ok_def)
  have "slice (?a @ ?t @ [q]) 0 20 = Ret ?a" by (rule slice_prefix) (simp add: len)
  moreover have "slice (?a @ ?t @ [q]) 20 24 = Ret ?t"
    using slice_append [of ?a ?t "[q]"] by (simp add: len)
  moreover have "big_SetBytes ?t = t"
    using assms UnmarshallTimeToInt_Marshall [of t] by (simp add: UnmarshallTimeToInt_def)
  ultimately show ?thesis
    by (simp add: UnmarshallAddressKey_def MarshallAddressKeyStr_enc enc_key_def marshal_consts norm_hex_def)
qed

text \<open>The amount is stored as its absolute value.\<close>

lemma address_value_roundtrip:
  assumes "hash_ok x (aiTxHash i)" "addr_ok x (CoupleAddress i)" "aiValue i = Some v"
  shows "obind (MarshallAddressValue x i) (UnmarshallAddressValue x) =
     Ret \<lparr>Address = [], Sequence = 0, aiTxHash = norm_hex x (aiTxHash i), aiValue = Some \<bar>v\<bar>,
          aiTime = None, CoupleAddress = norm_hex x (CoupleAddress i)\<rparr>"
proof -
  let ?h = "addr_bytes x (aiTxHash i)" and ?a = "addr_bytes x (CoupleAddress i)"
  have len: "length ?h = 32" "length ?a = 20" using assms by (simp_all add: hash_ok_def addr_ok_def)
  have "slice (?h @ ?a @ big_Bytes v) 0 32 = Ret ?h" by (rule slice_prefix) (simp add: len)
  moreover have "slice (?h @ ?a @ big_Bytes v) 32 52 = Ret ?a"
    using slice_append [of ?h ?a "big_Bytes v"] by (simp add: len)
  moreover have "slice (?h @ ?a @ big_Bytes v) 52 (length (?h @ ?a @ big_Bytes v)) = Ret (big_Bytes v)"
    using slice_suffix [of 52 "?h @ ?a" _ "big_Bytes v"] by (simp add: len)
  ultimately show ?thesis
    using assms
    by (simp add: MarshallAddressValue_def UnmarshallAddressValue_def marshal_consts norm_hex_def
        addr_bytes_def [symmetric] del: length_append)
qed

end

lemma batch_value_roundtrip:
  assumes "time_ok u" "0 \<le> c"
  shows "obind (MarshallBatchValue (Some u) (Some c)) UnmarshallBatchValue =
     Ret (emptyBatchStatus\<lparr>bsUpdatedAt := Some u, bsCurrent := Some c\<rparr>)"
proof -
  let ?u = "MarshallTime (Some u)" and ?c = "big_Bytes c"
  have len: "length ?u = 4" using assms by simp
  have "slice (?u @ ?c) 0 4 = Ret ?u" by (rule slice_prefix) (simp add: len)
  moreover have "slice (?u @ ?c) 4 (length (?u @ ?c)) = Ret ?c" by (rule slice_suffix) (simp_all add: len)
  ultimately show ?thesis
    using assms by (simp add: MarshallBatchValue_def UnmarshallBatchValue_def marshal_consts del: length_append)
qed

section \<open>Padded block numbers and batch keys\<close>

lemma dec_val_pad [simp]: "dec_val (replicate k CHR ''0'' @ s) = dec_val s"
proof -
  have "dec_val (replicate k CHR ''0'') = 0"
    by (induction k) (simp_all add: horner_Cons digit_val_def)
  then show ?thesis by (simp add: horner_append)
qed

definition blocknum_ok :: "int \<Rightarrow> bool" where
  "blocknum_ok n \<longleftrightarrow> 0 \<le> n \<and> n < 10 ^ 9"

lemma pad_digits:
  "blocknum_ok n \<Longrightarrow> \<forall>c \<in> set (blockNumberWidPad (big_String (Some n))). is_digit c"
  using dec_digits [of "nat n"]
  by (auto simp: blockNumberWidPad_def blocknum_ok_def big_String_nonneg is_digit_def)

lemma length_dec_blocknum:
  assumes "blocknum_ok n"
  shows "length (dec (nat n)) < 10"
proof -
  have "nat n < 10 ^ Suc 8" using assms by (auto simp: blocknum_ok_def)
  then have "length (dec (nat n)) \<le> Suc 8" by (rule length_dec_le)
  then show ?thesis by simp
qed

lemma length_pad: "blocknum_ok n \<Longrightarrow> length (blockNumberWidPad (big_String (Some n))) = 10"
  using length_dec_blocknum [of n]
  by (simp add: blockNumberWidPad_def big_String_nonneg blocknum_ok_def marshal_consts)

lemma dec_val_blockNumberWidPad: "blocknum_ok n \<Longrightarrow> dec_val (blockNumberWidPad (big_String (Some n))) = nat n"
  using length_dec_blocknum [of n]
  by (simp add: blockNumberWidPad_def big_String_nonneg blocknum_ok_def marshal_consts)

lemma SetString_blockNumberWidPad:
  assumes "blocknum_ok n"
  shows "big_SetString (blockNumberWidPad (big_String (Some n))) = (n, True)"
proof -
  have "blockNumberWidPad (big_String (Some n)) \<noteq> []" using length_pad [OF assms] by auto
  then show ?thesis
    using assms pad_digits [OF assms] dec_val_blockNumberWidPad [OF assms]
    by (simp add: big_SetString_digits blocknum_ok_def)
qed

lemma batch_key_roundtrip:
  assumes "blocknum_ok f" "blocknum_ok t"
  shows "UnmarshallBatchKey (MarshallBatchKey (Some f) (Some t) step (Some c)) =
     Ret (emptyBatchStatus\<lparr>bsFrom := Some f, bsTo := Some t, bsStep := step, bsCreatedAt := Some c\<rparr>)"
proof -
  let ?f = "bytes_of (blockNumberWidPad (big_String (Some f)))"
  let ?t = "bytes_of (blockNumberWidPad (big_String (Some t)))"
  let ?c = "bytes_of (big_String (Some c))"
  let ?k = "?f @ ?t @ [step] @ ?c"
  have len: "length ?f = 10" "length ?t = 10" using assms by (simp_all add: length_pad)
  have "slice ?k 0 10 = Ret ?f" by (rule slice_prefix) (simp only: len)
  moreover have "slice ?k 10 20 = Ret ?t"
    using slice_append [of ?f ?t "[step] @ ?c"] len by (simp del: length_bytes_of)
  moreover have "index_at ?k 20 = Ret step"
    using len by (simp add: index_at_def nth_append del: length_bytes_of)
  moreover have "slice ?k 21 (length ?k) = Ret ?c"
    using slice_suffix [of 21 "?f @ ?t @ [step]" "length ?k" ?c] len by (simp del: length_bytes_of)
  ultimately show ?thesis
    using assms
    by (simp add: UnmarshallBatchKey_def MarshallBatchKey_def marshal_consts SetString_blockNumberWidPad
        del: length_append)
qed

text \<open>From ten digits on the padding returns the empty string: the block number is not in the key.\<close>

lemma blockNumberWidPad_long: "10 \<le> length s \<Longrightarrow> blockNumberWidPad s = []"
  by (simp add: blockNumberWidPad_def marshal_consts)

lemma blockNumberWidPad_big:
  assumes "10 ^ 9 \<le> n"
  shows "blockNumberWidPad (big_String (Some n)) = []"
proof -
  have "10 ^ 9 \<le> nat n" using assms by (simp add: le_nat_iff)
  then have "9 < length (dec (nat n))" by (rule less_length_dec)
  with assms show ?thesis by (intro blockNumberWidPad_long) (simp add: big_String_nonneg)
qed

section \<open>Block keys\<close>

lemma block_key_roundtrip: "UnmarshallBlockKey (MarshallBlockKey (big_String (Some n))) = n"
  by (simp add: UnmarshallBlockKey_def MarshallBlockKey_def)

lemma MarshallBlockKey_inject: "MarshallBlockKey a = MarshallBlockKey b \<longleftrightarrow> a = b"
  by (simp add: MarshallBlockKey_def)

text \<open>Block keys are ordered as decimal strings: by value only among numbers of one length.\<close>

lemma block_key_less_iff:
  assumes "length (dec m) = length (dec n)"
  shows "MarshallBlockKey (dec m) < MarshallBlockKey (dec n) \<longleftrightarrow> m < n"
  using bytes_of_less_iff [OF assms] dec_digits
  by (auto simp: MarshallBlockKey_def)

text \<open>Every number from 1000 to 9989 has a key below the one of 999.\<close>

lemma dec_999: "dec 999 = ''999''"
  by code_simp

lemma dec_div_10: "10 \<le> n \<Longrightarrow> dec n = dec (n div 10) @ [digit_char (n mod 10)]"
  by (simp add: dec.simps [of n])

lemma four_digits_less_999:
  assumes "1000 \<le> n" "n \<le> 9989"
  shows "MarshallBlockKey (dec n) < MarshallBlockKey ''999''"
proof -
  let ?m = "n div 10"
  have m: "100 \<le> ?m" "?m < 999" using assms by auto
  have "length (dec ?m) = 3" "length (dec 999) = 3"
    using length_dec_iff [of ?m 2] length_dec_iff [of ?m 1] length_dec_iff [of 999 2] length_dec_iff [of 999 1] m
    by auto
  then have "bytes_of (dec ?m) < bytes_of (dec 999)"
    using bytes_of_less_iff [of "dec ?m" "dec 999"] dec_digits m by auto
  moreover have "dec n = dec ?m @ [digit_char (n mod 10)]" using assms by (intro dec_div_10) simp
  moreover have "length (bytes_of (dec ?m)) = length (bytes_of (dec 999))"
    by (simp add: \<open>length (dec ?m) = 3\<close> \<open>length (dec 999) = 3\<close>)
  ultimately show ?thesis
    using append_less_same_length [of "bytes_of (dec ?m)" "bytes_of (dec 999)" "bytes_of [digit_char (n mod 10)]" "[]"]
    by (simp add: MarshallBlockKey_def flip: dec_999)
qed

end
