(* ===== verification/Dao.thy ===== *)
theory Dao
  imports External
begin

text \<open>
  The data access layer (\<open>repository/keyvalue/dao\<close>): the interface \<open>KeyValueDAO\<close>, and its two
  implementations over goleveldb, \<open>LevelDbDAO\<close> and \<open>MemDbDAO\<close>, with the iterator loops they share.
  \<^item> goleveldb itself is a parameter: the record \<open>goleveldb\<close> of the operations the code calls on a
    database and on an iterator (extended by \<open>Write\<close> for \<open>leveldb.DB\<close>), over any database type
    \<open>'db\<close> and iterator type \<open>'it\<close>. The locales of \<open>DaoSpec\<close> state its documented behaviour.
  \<^item> Every operation takes the database last; one that writes returns its error and the database.
  \<^item> The loops bounded by a counter are total functions; a loop bounded only by the iterator is a
    partial function (\<open>of_loop\<close> makes a missing result \<open>Diverge\<close>).
\<close>

definition NumMaxTransaction :: int where "NumMaxTransaction = 10000"

section \<open>Key-value pairs and the interface\<close>

record KeyValue =
  kvKey :: bytes
  kvValue :: bytes

definition NewKeyValue :: "bytes \<Rightarrow> bytes \<Rightarrow> KeyValue" where
  "NewKeyValue k v = \<lparr>kvKey = k, kvValue = v\<rparr>"

text \<open>\<open>make\<close> a slice of the same length and \<open>copy\<close> into it.\<close>

definition clone :: "bytes \<Rightarrow> bytes" where
  "clone arr = take (length arr) arr @ drop (length arr) (replicate (length arr) 0)"

definition CopyKeyValue :: "bytes \<Rightarrow> bytes \<Rightarrow> KeyValue" where
  "CopyKeyValue k v = \<lparr>kvKey = clone k, kvValue = clone v\<rparr>"

type_synonym Predicate = "KeyValue \<Rightarrow> bool outcome"

record 'db KeyValueDAO =
  Put :: "KeyValue \<Rightarrow> 'db \<Rightarrow> string option \<times> 'db"
  BatchPut :: "KeyValue list \<Rightarrow> 'db \<Rightarrow> string option \<times> 'db"
  BatchDelete :: "bytes list \<Rightarrow> 'db \<Rightarrow> string option \<times> 'db"
  DeleteByKey :: "bytes \<Rightarrow> 'db \<Rightarrow> string option \<times> 'db"
  FindByKeyPrefix :: "bytes \<Rightarrow> bool \<Rightarrow> int \<Rightarrow> int \<Rightarrow> 'db \<Rightarrow> int \<times> KeyValue list"
  CountByKeyPrefix :: "bytes \<Rightarrow> 'db \<Rightarrow> int outcome"
  FindByRange :: "URange \<Rightarrow> bool \<Rightarrow> int \<Rightarrow> int \<Rightarrow> 'db \<Rightarrow> int \<times> KeyValue list"
  CountByRange :: "URange \<Rightarrow> 'db \<Rightarrow> int outcome"
  FindByKey :: "bytes \<Rightarrow> 'db \<Rightarrow> string + KeyValue"
  GetNFirstRecords :: "int \<Rightarrow> 'db \<Rightarrow> KeyValue list"
  GetNLastRecords :: "int \<Rightarrow> 'db \<Rightarrow> KeyValue list"
  GetNFirstPredicate :: "Predicate \<Rightarrow> 'db \<Rightarrow> KeyValue list outcome"
  GetAllRecords :: "'db \<Rightarrow> KeyValue list outcome"

lemma clone_id [simp]: "clone arr = arr"
  by (simp add: clone_def)

section \<open>The operations of goleveldb that the code calls\<close>

record ('db, 'it) goleveldb =
  dbPut :: "'db \<Rightarrow> bytes \<Rightarrow> bytes \<Rightarrow> string option \<times> 'db"
  dbDelete :: "'db \<Rightarrow> bytes \<Rightarrow> string option \<times> 'db"
  dbGet :: "'db \<Rightarrow> bytes \<Rightarrow> string + bytes"
  dbNewIterator :: "'db \<Rightarrow> URange option \<Rightarrow> 'it"
  itNext :: "'it \<Rightarrow> bool \<times> 'it"
  itPrev :: "'it \<Rightarrow> bool \<times> 'it"
  itLast :: "'it \<Rightarrow> bool \<times> 'it"
  itKey :: "'it \<Rightarrow> bytes"
  itValue :: "'it \<Rightarrow> bytes"

datatype BatchOp = BPut bytes bytes | BDelete bytes

record ('db, 'it) leveldb = "('db, 'it) goleveldb" +
  dbWrite :: "'db \<Rightarrow> BatchOp list \<Rightarrow> string option \<times> 'db"

definition current :: "('db, 'it, 'm) goleveldb_scheme \<Rightarrow> 'it \<Rightarrow> KeyValue" where
  "current api it = CopyKeyValue (itKey api it) (itValue api it)"

section \<open>Iterator loops\<close>

partial_function (option) count_loop ::
  "('db, 'it, 'm) goleveldb_scheme \<Rightarrow> 'it \<Rightarrow> int \<Rightarrow> int option" where
  "count_loop api it result =
     (if fst (itNext api it) then count_loop api (snd (itNext api it)) (result + 1) else Some result)"

definition count_iter :: "('db, 'it, 'm) goleveldb_scheme \<Rightarrow> 'it \<Rightarrow> int outcome" where
  "count_iter api it = of_loop (count_loop api it 0)"

partial_function (option) all_loop ::
  "('db, 'it, 'm) goleveldb_scheme \<Rightarrow> 'it \<Rightarrow> KeyValue list \<Rightarrow> KeyValue list option" where
  "all_loop api it result =
     (if fst (itNext api it)
      then all_loop api (snd (itNext api it)) (result @ [current api (snd (itNext api it))])
      else Some result)"

definition getAllRecords :: "('db, 'it, 'm) goleveldb_scheme \<Rightarrow> 'it \<Rightarrow> KeyValue list outcome" where
  "getAllRecords api it = of_loop (all_loop api it [])"

text \<open>The predicate may itself panic or not return.\<close>

partial_function (option) predicate_loop ::
  "('db, 'it, 'm) goleveldb_scheme \<Rightarrow> Predicate \<Rightarrow> 'it \<Rightarrow> KeyValue list \<Rightarrow> KeyValue list outcome option" where
  "predicate_loop api prep it result =
     (if fst (itNext api it)
      then (case prep (current api (snd (itNext api it))) of
              Ret b \<Rightarrow>
                (if b then predicate_loop api prep (snd (itNext api it))
                             (result @ [current api (snd (itNext api it))])
                 else Some (Ret result))
            | Panic m \<Rightarrow> Some (Panic m)
            | Diverge \<Rightarrow> Some Diverge)
      else Some (Ret result))"

definition getNFirstPredicate ::
  "('db, 'it, 'm) goleveldb_scheme \<Rightarrow> 'it \<Rightarrow> Predicate \<Rightarrow> KeyValue list outcome" where
  "getNFirstPredicate api it prep = obind (of_loop (predicate_loop api prep it [])) (\<lambda>r. r)"

function first_loop ::
  "('db, 'it, 'm) goleveldb_scheme \<Rightarrow> int \<Rightarrow> 'it \<Rightarrow> int \<Rightarrow> KeyValue list \<Rightarrow> KeyValue list" where
  "first_loop api n it cnt result =
     (if cnt < n \<and> fst (itNext api it)
      then first_loop api n (snd (itNext api it)) (cnt + 1) (result @ [current api (snd (itNext api it))])
      else result)"
  by pat_completeness auto
termination
  by (relation "measure (\<lambda>(api, n, it, cnt, result). nat (n - cnt))") auto

definition getNFirstRecords :: "('db, 'it, 'm) goleveldb_scheme \<Rightarrow> 'it \<Rightarrow> int \<Rightarrow> KeyValue list" where
  "getNFirstRecords api it n = first_loop api n it 0 []"

function last_loop ::
  "('db, 'it, 'm) goleveldb_scheme \<Rightarrow> int \<Rightarrow> 'it \<Rightarrow> int \<Rightarrow> KeyValue list \<Rightarrow> KeyValue list" where
  "last_loop api n it cnt result =
     (if cnt < n - 1 \<and> fst (itPrev api it)
      then last_loop api n (snd (itPrev api it)) (cnt + 1) (result @ [current api (snd (itPrev api it))])
      else result)"
  by pat_completeness auto
termination
  by (relation "measure (\<lambda>(api, n, it, cnt, result). nat (n - 1 - cnt))") auto

definition getNLastRecords :: "('db, 'it, 'm) goleveldb_scheme \<Rightarrow> 'it \<Rightarrow> int \<Rightarrow> KeyValue list" where
  "getNLastRecords api it n =
     (let (hasLast, it1) = itLast api it
      in if \<not> hasLast then [] else last_loop api n it1 0 [current api it1])"

text \<open>
  The paging loop: \<open>fn\<close> is \<open>Next\<close> or \<open>Prev\<close>; it stops after \<open>NumMaxTransaction + 1\<close> records even
  when the page is not yet full.
\<close>

definition addToResult ::
  "('db, 'it, 'm) goleveldb_scheme \<Rightarrow> int \<Rightarrow> int \<Rightarrow> 'it \<Rightarrow> int \<Rightarrow> int \<Rightarrow> KeyValue list
   \<Rightarrow> int \<times> KeyValue list" where
  "addToResult api rows start it cnt tot result =
     (if tot \<ge> start \<and> cnt < rows then (cnt + 1, result @ [current api it]) else (cnt, result))"

function find_loop ::
  "('db, 'it, 'm) goleveldb_scheme \<Rightarrow> ('it \<Rightarrow> bool \<times> 'it) \<Rightarrow> int \<Rightarrow> int \<Rightarrow> 'it \<Rightarrow> int \<Rightarrow> int
   \<Rightarrow> KeyValue list \<Rightarrow> int \<times> KeyValue list" where
  "find_loop api fn rows start it cnt tot result =
     (if fst (fn it)
      then (let it1 = snd (fn it);
                (cnt1, result1) = addToResult api rows start it1 cnt tot result;
                total1 = tot + 1
            in if total1 > NumMaxTransaction then (total1, result1)
               else find_loop api fn rows start it1 cnt1 total1 result1)
      else (tot, result))"
  by pat_completeness auto
termination
  by (relation "measure (\<lambda>(api, fn, rows, start, it, cnt, tot, result). nat (NumMaxTransaction - tot))")
     auto

definition findByKeyPrefix ::
  "('db, 'it, 'm) goleveldb_scheme \<Rightarrow> 'it \<Rightarrow> bool \<Rightarrow> int \<Rightarrow> int \<Rightarrow> int \<times> KeyValue list" where
  "findByKeyPrefix api it asc rows start =
     (if asc then find_loop api (itNext api) rows start it 0 0 []
      else let (hasLast, it1) = itLast api it
           in if \<not> hasLast then (0, [])
              else let (cnt1, result1) = addToResult api rows start it1 0 0 []
                   in find_loop api (itPrev api) rows start it1 cnt1 1 result1)"

declare first_loop.simps [simp del] last_loop.simps [simp del] find_loop.simps [simp del]

section \<open>LevelDbDAO\<close>

definition ld_Put :: "('db, 'it) leveldb \<Rightarrow> KeyValue \<Rightarrow> 'db \<Rightarrow> string option \<times> 'db" where
  "ld_Put api record db = dbPut api db (kvKey record) (kvValue record)"

definition ld_BatchPut :: "('db, 'it) leveldb \<Rightarrow> KeyValue list \<Rightarrow> 'db \<Rightarrow> string option \<times> 'db" where
  "ld_BatchPut api records db = dbWrite api db (map (\<lambda>item. BPut (kvKey item) (kvValue item)) records)"

definition ld_BatchDelete :: "('db, 'it) leveldb \<Rightarrow> bytes list \<Rightarrow> 'db \<Rightarrow> string option \<times> 'db" where
  "ld_BatchDelete api keys db = dbWrite api db (map BDelete keys)"

definition ld_DeleteByKey :: "('db, 'it) leveldb \<Rightarrow> bytes \<Rightarrow> 'db \<Rightarrow> string option \<times> 'db" where
  "ld_DeleteByKey api key db = dbDelete api db key"

definition ld_CountByKeyPrefix :: "ext \<Rightarrow> ('db, 'it) leveldb \<Rightarrow> bytes \<Rightarrow> 'db \<Rightarrow> int outcome" where
  "ld_CountByKeyPrefix x api p db = count_iter api (dbNewIterator api db (Some (BytesPrefix x p)))"

definition ld_FindByKeyPrefix ::
  "ext \<Rightarrow> ('db, 'it) leveldb \<Rightarrow> bytes \<Rightarrow> bool \<Rightarrow> int \<Rightarrow> int \<Rightarrow> 'db \<Rightarrow> int \<times> KeyValue list" where
  "ld_FindByKeyPrefix x api p asc rows start db =
     findByKeyPrefix api (dbNewIterator api db (Some (BytesPrefix x p))) asc rows start"

definition ld_FindByRange ::
  "('db, 'it) leveldb \<Rightarrow> URange \<Rightarrow> bool \<Rightarrow> int \<Rightarrow> int \<Rightarrow> 'db \<Rightarrow> int \<times> KeyValue list" where
  "ld_FindByRange api rg asc rows start db =
     findByKeyPrefix api (dbNewIterator api db (Some rg)) asc rows start"

definition ld_CountByRange :: "('db, 'it) leveldb \<Rightarrow> URange \<Rightarrow> 'db \<Rightarrow> int outcome" where
  "ld_CountByRange api rg db = count_iter api (dbNewIterator api db (Some rg))"

definition ld_FindByKey :: "('db, 'it) leveldb \<Rightarrow> bytes \<Rightarrow> 'db \<Rightarrow> string + KeyValue" where
  "ld_FindByKey api key db =
     (case dbGet api db key of Inl e \<Rightarrow> Inl e | Inr v \<Rightarrow> Inr \<lparr>kvKey = key, kvValue = v\<rparr>)"

definition ld_GetNFirstRecords :: "('db, 'it) leveldb \<Rightarrow> int \<Rightarrow> 'db \<Rightarrow> KeyValue list" where
  "ld_GetNFirstRecords api n db = getNFirstRecords api (dbNewIterator api db None) n"

definition ld_GetNLastRecords :: "('db, 'it) leveldb \<Rightarrow> int \<Rightarrow> 'db \<Rightarrow> KeyValue list" where
  "ld_GetNLastRecords api n db = getNLastRecords api (dbNewIterator api db None) n"

definition ld_GetNFirstPredicate :: "('db, 'it) leveldb \<Rightarrow> Predicate \<Rightarrow> 'db \<Rightarrow> KeyValue list outcome" where
  "ld_GetNFirstPredicate api prep db = getNFirstPredicate api (dbNewIterator api db None) prep"

definition ld_GetAllRecords :: "('db, 'it) leveldb \<Rightarrow> 'db \<Rightarrow> KeyValue list outcome" where
  "ld_GetAllRecords api db = getAllRecords api (dbNewIterator api db None)"

definition LevelDbDAO :: "ext \<Rightarrow> ('db, 'it) leveldb \<Rightarrow> 'db KeyValueDAO" where
  "LevelDbDAO x api =
     \<lparr>Put = ld_Put api, BatchPut = ld_BatchPut api, BatchDelete = ld_BatchDelete api,
      DeleteByKey = ld_DeleteByKey api, FindByKeyPrefix = ld_FindByKeyPrefix x api,
      CountByKeyPrefix = ld_CountByKeyPrefix x api, FindByRange = ld_FindByRange api,
      CountByRange = ld_CountByRange api, FindByKey = ld_FindByKey api,
      GetNFirstRecords = ld_GetNFirstRecords api, GetNLastRecords = ld_GetNLastRecords api,
      GetNFirstPredicate = ld_GetNFirstPredicate api, GetAllRecords = ld_GetAllRecords api\<rparr>"

section \<open>MemDbDAO\<close>

definition md_Put :: "('db, 'it) goleveldb \<Rightarrow> KeyValue \<Rightarrow> 'db \<Rightarrow> string option \<times> 'db" where
  "md_Put api record db = dbPut api db (kvKey record) (kvValue record)"

fun md_BatchPut :: "('db, 'it) goleveldb \<Rightarrow> KeyValue list \<Rightarrow> 'db \<Rightarrow> string option \<times> 'db" where
  "md_BatchPut api [] db = (None, db)"
| "md_BatchPut api (item # records) db =
     (case dbPut api db (kvKey item) (kvValue item) of
        (Some err, db1) \<Rightarrow> (Some err, db1)
      | (None, db1) \<Rightarrow> md_BatchPut api records db1)"

definition md_DeleteByKey :: "('db, 'it) goleveldb \<Rightarrow> bytes \<Rightarrow> 'db \<Rightarrow> string option \<times> 'db" where
  "md_DeleteByKey api key db = dbDelete api db key"

text \<open>Deletes one key at a time and stops at the first error, such as a key that is not there.\<close>

fun md_BatchDelete :: "('db, 'it) goleveldb \<Rightarrow> bytes list \<Rightarrow> 'db \<Rightarrow> string option \<times> 'db" where
  "md_BatchDelete api [] db = (None, db)"
| "md_BatchDelete api (key # keys) db =
     (case md_DeleteByKey api key db of
        (Some err, db1) \<Rightarrow> (Some err, db1)
      | (None, db1) \<Rightarrow> md_BatchDelete api keys db1)"

definition md_CountByKeyPrefix :: "ext \<Rightarrow> ('db, 'it) goleveldb \<Rightarrow> bytes \<Rightarrow> 'db \<Rightarrow> int outcome" where
  "md_CountByKeyPrefix x api p db = count_iter api (dbNewIterator api db (Some (BytesPrefix x p)))"

definition md_FindByKeyPrefix ::
  "ext \<Rightarrow> ('db, 'it) goleveldb \<Rightarrow> bytes \<Rightarrow> bool \<Rightarrow> int \<Rightarrow> int \<Rightarrow> 'db \<Rightarrow> int \<times> KeyValue list" where
  "md_FindByKeyPrefix x api p asc rows start db =
     findByKeyPrefix api (dbNewIterator api db (Some (BytesPrefix x p))) asc rows start"

definition md_FindByRange ::
  "('db, 'it) goleveldb \<Rightarrow> URange \<Rightarrow> bool \<Rightarrow> int \<Rightarrow> int \<Rightarrow> 'db \<Rightarrow> int \<times> KeyValue list" where
  "md_FindByRange api rg asc rows start db =
     findByKeyPrefix api (dbNewIterator api db (Some rg)) asc rows start"

definition md_CountByRange :: "('db, 'it) goleveldb \<Rightarrow> URange \<Rightarrow> 'db \<Rightarrow> int outcome" where
  "md_CountByRange api rg db = count_iter api (dbNewIterator api db (Some rg))"

definition md_FindByKey :: "('db, 'it) goleveldb \<Rightarrow> bytes \<Rightarrow> 'db \<Rightarrow> string + KeyValue" where
  "md_FindByKey api key db =
     (case dbGet api db key of Inl e \<Rightarrow> Inl e | Inr v \<Rightarrow> Inr (CopyKeyValue key v))"

definition md_GetNFirstRecords :: "('db, 'it) goleveldb \<Rightarrow> int \<Rightarrow> 'db \<Rightarrow> KeyValue list" where
  "md_GetNFirstRecords api n db = getNFirstRecords api (dbNewIterator api db None) n"

definition md_GetNLastRecords :: "('db, 'it) goleveldb \<Rightarrow> int \<Rightarrow> 'db \<Rightarrow> KeyValue list" where
  "md_GetNLastRecords api n db = getNLastRecords api (dbNewIterator api db None) n"

definition md_GetNFirstPredicate :: "('db, 'it) goleveldb \<Rightarrow> Predicate \<Rightarrow> 'db \<Rightarrow> KeyValue list outcome" where
  "md_GetNFirstPredicate api prep db = getNFirstPredicate api (dbNewIterator api db None) prep"

definition md_GetAllRecords :: "('db, 'it) goleveldb \<Rightarrow> 'db \<Rightarrow> KeyValue list outcome" where
  "md_GetAllRecords api db = getAllRecords api (dbNewIterator api db None)"

definition MemDbDAO :: "ext \<Rightarrow> ('db, 'it) goleveldb \<Rightarrow> 'db KeyValueDAO" where
  "MemDbDAO x api =
     \<lparr>Put = md_Put api, BatchPut = md_BatchPut api, BatchDelete = md_BatchDelete api,
      DeleteByKey = md_DeleteByKey api, FindByKeyPrefix = md_FindByKeyPrefix x api,
      CountByKeyPrefix = md_CountByKeyPrefix x api, FindByRange = md_FindByRange api,
      CountByRange = md_CountByRange api, FindByKey = md_FindByKey api,
      GetNFirstRecords = md_GetNFirstRecords api, GetNLastRecords = md_GetNLastRecords api,
      GetNFirstPredicate = md_GetNFirstPredicate api, GetAllRecords = md_GetAllRecords api\<rparr>"

end
