(* ===== verification/IndexRepo.thy ===== *)
theory IndexRepo
  imports Marshal Dao
begin

text \<open>
  \<open>KVIndexRepo\<close> (\<open>repository/keyvalue/index_repo.go\<close>): storing the index of a block, undoing a block
  that is replaced (reorg), and the queries. The repository holds two \<open>KeyValueDAO\<close>s; the state is
  the two databases behind them, \<open>IndexDB\<close>. Its marshaller is \<open>ByteMarshaller\<close>, as the constructor
  sets it. A Go \<open>error\<close> result is a \<open>string option\<close> (\<open>None\<close> is nil); a result with an error is a sum.
\<close>

record 'db KVIndexRepo =
  addressDAO :: "'db KeyValueDAO"
  blockDAO :: "'db KeyValueDAO"

definition NewKVIndexRepo :: "'db KeyValueDAO \<Rightarrow> 'db KeyValueDAO \<Rightarrow> 'db KVIndexRepo" where
  "NewKVIndexRepo adao bdao = \<lparr>addressDAO = adao, blockDAO = bdao\<rparr>"

record 'db IndexDB =
  addressDB :: 'db
  blockDB :: 'db

text \<open>A write through one of the two DAOs.\<close>

definition on_address :: "('db \<Rightarrow> 'r \<times> 'db) \<Rightarrow> (('db, 'm) IndexDB_scheme, 'r) st" where
  "on_address f = (\<lambda>s. let (r, d) = f (addressDB s) in (Ret r, s\<lparr>addressDB := d\<rparr>))"

definition on_block :: "('db \<Rightarrow> 'r \<times> 'db) \<Rightarrow> (('db, 'm) IndexDB_scheme, 'r) st" where
  "on_block f = (\<lambda>s. let (r, d) = f (blockDB s) in (Ret r, s\<lparr>blockDB := d\<rparr>))"

section \<open>Reorg\<close>

text \<open>
  The loop \<open>for i := uint8(1); i <= address.Sequence; i++\<close>: the counter is a \<open>uint8\<close> and wraps, so
  the loop need not end.
\<close>

partial_function (option) seq_keys ::
  "(8 word \<Rightarrow> bytes) \<Rightarrow> 8 word \<Rightarrow> 8 word \<Rightarrow> bytes list \<Rightarrow> bytes list option" where
  "seq_keys mk seq i keys =
     (if i \<le> seq then seq_keys mk seq (i + 1) (keys @ [mk i]) else Some keys)"

fun reorg_keys :: "ext \<Rightarrow> int option \<Rightarrow> AddressSequence list \<Rightarrow> bytes list \<Rightarrow> bytes list outcome" where
  "reorg_keys x blockTime [] keys = Ret keys"
| "reorg_keys x blockTime (a # as) keys =
     obind (of_loop (seq_keys (MarshallAddressKeyStr x (Address a) blockTime) (Sequence a) 1 keys))
       (\<lambda>keys'. reorg_keys x blockTime as keys')"

definition HandleReorg ::
  "ext \<Rightarrow> 'db KVIndexRepo \<Rightarrow> int option \<Rightarrow> AddressSequence list
   \<Rightarrow> (('db, 'm) IndexDB_scheme, string option) st" where
  "HandleReorg x repo blockTime reorgAddresses =
     bnd (lift (reorg_keys x blockTime reorgAddresses []))
       (\<lambda>keys. on_address (BatchDelete (addressDAO repo) keys))"

section \<open>Storing a block\<close>

definition address_kvs :: "ext \<Rightarrow> AddressIndex list \<Rightarrow> KeyValue list outcome" where
  "address_kvs x idx =
     omap (\<lambda>item. obind (MarshallAddressValue x item)
                    (\<lambda>v. Ret (NewKeyValue (MarshallAddressKey x item) v))) idx"

definition SaveAddressIndex ::
  "ext \<Rightarrow> 'db KVIndexRepo \<Rightarrow> AddressIndex list \<Rightarrow> (('db, 'm) IndexDB_scheme, string option) st" where
  "SaveAddressIndex x repo addressIndex =
     bnd (lift (address_kvs x addressIndex)) (\<lambda>keyValues.
     bnd (on_address (BatchPut (addressDAO repo) keyValues)) (\<lambda>err.
     case err of
       Some e \<Rightarrow> lift (Panic (''Cannot write to address leveldb. Error: '' @ e))
     | None \<Rightarrow> ret None))"

definition SaveBlockIndex ::
  "ext \<Rightarrow> 'db KVIndexRepo \<Rightarrow> BlockIndex \<Rightarrow> (('db, 'm) IndexDB_scheme, string option) st" where
  "SaveBlockIndex x repo blockIndex =
     bnd (lift (MarshallBlockValue x blockIndex)) (\<lambda>v.
     bnd (on_block (Put (blockDAO repo) (NewKeyValue (MarshallBlockKey (biBlockNumber blockIndex)) v))) (\<lambda>err.
     case err of
       Some e \<Rightarrow> lift (Panic (''Cannot write to block leveldb. Error: '' @ e))
     | None \<Rightarrow> ret None))"

text \<open>The first part of \<open>Store\<close>: a block number that is already there is undone first.\<close>

definition undo_old_block ::
  "ext \<Rightarrow> 'db KVIndexRepo \<Rightarrow> BlockIndex \<Rightarrow> (('db, 'm) IndexDB_scheme, string option) st" where
  "undo_old_block x repo blockIndex =
     (\<lambda>s. case FindByKey (blockDAO repo) (bytes_of (biBlockNumber blockIndex)) (blockDB s) of
            Inl err \<Rightarrow> (Ret None, s)
          | Inr oldBlock \<Rightarrow>
              bnd (lift (UnmarshallBlockValue x (kvValue oldBlock))) (\<lambda>old.
              if biAddresses old \<noteq> [] then HandleReorg x repo (biTime old) (biAddresses old)
              else ret None) s)"

definition Store ::
  "ext \<Rightarrow> 'db KVIndexRepo \<Rightarrow> AddressIndex list \<Rightarrow> BlockIndex \<Rightarrow> bool
   \<Rightarrow> (('db, 'm) IndexDB_scheme, string option) st" where
  "Store x repo addressIndex blockIndex isBatch =
     bnd (if \<not> isBatch then undo_old_block x repo blockIndex else ret None) (\<lambda>err.
     if err \<noteq> None then ret err
     else bnd (SaveAddressIndex x repo addressIndex) (\<lambda>err.
          if err \<noteq> None then ret err
          else if \<not> isBatch then SaveBlockIndex x repo blockIndex
          else ret err))"

section \<open>Queries by address\<close>

text \<open>A slice used as a range limit: an empty buffer is the nil slice, which is no limit.\<close>

definition limit_of :: "bytes \<Rightarrow> bytes option" where
  "limit_of b = (if b = [] then None else Some b)"

definition time_range :: "ext \<Rightarrow> string \<Rightarrow> gotime \<Rightarrow> gotime \<Rightarrow> URange" where
  "time_range x address fromTime toTime =
     (let hasFrom = (\<not> tIsZero fromTime);
          hasTo = (\<not> tIsZero toTime);
          allTimeRange = BytesPrefix x (MarshallAddressKeyPrefix x address);
          fromPrefix = MarshallAddressKeyPrefix3 x address fromTime;
          newToTime = tAdd toTime (1 * Second);
          toPrefix = MarshallAddressKeyPrefix3 x address newToTime
      in if \<not> hasFrom then \<lparr>Start = Start allTimeRange, Limit = limit_of toPrefix\<rparr>
         else if \<not> hasTo then \<lparr>Start = fromPrefix, Limit = Limit allTimeRange\<rparr>
         else \<lparr>Start = fromPrefix, Limit = limit_of toPrefix\<rparr>)"

definition GetTotalTransaction ::
  "ext \<Rightarrow> 'db KVIndexRepo \<Rightarrow> string \<Rightarrow> gotime \<Rightarrow> gotime \<Rightarrow> ('db, 'm) IndexDB_scheme \<Rightarrow> int outcome" where
  "GetTotalTransaction x repo address fromTime toTime s =
     (let pre = MarshallAddressKeyPrefix x address
      in if \<not> tIsZero fromTime \<or> \<not> tIsZero toTime
         then CountByRange (addressDAO repo) (time_range x address fromTime toTime) (addressDB s)
         else if length pre = 0 then Ret 0
         else CountByKeyPrefix (addressDAO repo) pre (addressDB s))"

definition keyValueToAddressIndex :: "ext \<Rightarrow> KeyValue \<Rightarrow> AddressIndex outcome" where
  "keyValueToAddressIndex x kv =
     obind (UnmarshallAddressValue x (kvValue kv)) (\<lambda>addressIndex.
     obind (UnmarshallAddressKey x (kvKey kv)) (\<lambda>(address, time).
     Ret (addressIndex\<lparr>Address := address, aiTime := Some time\<rparr>)))"

definition GetTransactionByAddress ::
  "ext \<Rightarrow> 'db KVIndexRepo \<Rightarrow> string \<Rightarrow> int \<Rightarrow> int \<Rightarrow> gotime \<Rightarrow> gotime
   \<Rightarrow> ('db, 'm) IndexDB_scheme \<Rightarrow> (int \<times> AddressIndex list) outcome" where
  "GetTransactionByAddress x repo address rows start fromTime toTime s =
     (let pre = MarshallAddressKeyPrefix x address
      in if \<not> tIsZero fromTime \<or> \<not> tIsZero toTime
         then let (tot, keyValues) =
                    FindByRange (addressDAO repo) (time_range x address fromTime toTime) True rows start (addressDB s)
              in obind (omap (keyValueToAddressIndex x) keyValues) (\<lambda>l. Ret (tot, l))
         else if length pre = 0 then Ret (0, [])
         else let (tot, keyValues) = FindByKeyPrefix (addressDAO repo) pre False rows start (addressDB s)
              in obind (omap (keyValueToAddressIndex x) keyValues) (\<lambda>l. Ret (tot, l)))"

section \<open>Queries by block\<close>

definition keyValueToBlockIndex :: "ext \<Rightarrow> KeyValue \<Rightarrow> BlockIndex outcome" where
  "keyValueToBlockIndex x kv =
     (let blockNumber = UnmarshallBlockKey (kvKey kv)
      in obind (UnmarshallBlockValue x (kvValue kv)) (\<lambda>blockIndex.
         Ret (blockIndex\<lparr>biBlockNumber := big_String (Some blockNumber)\<rparr>)))"

definition GetLastBlock ::
  "ext \<Rightarrow> 'db KVIndexRepo \<Rightarrow> ('db, 'm) IndexDB_scheme \<Rightarrow> (string + BlockIndex) outcome" where
  "GetLastBlock x repo s =
     (case GetNLastRecords (blockDAO repo) 1 (blockDB s) of
        [] \<Rightarrow> Ret (Inl ''no last record'')
      | kv # _ \<Rightarrow> obind (keyValueToBlockIndex x kv) (\<lambda>b. Ret (Inr b)))"

definition GetFirstBlock ::
  "ext \<Rightarrow> 'db KVIndexRepo \<Rightarrow> ('db, 'm) IndexDB_scheme \<Rightarrow> (string + BlockIndex) outcome" where
  "GetFirstBlock x repo s =
     (case GetNFirstRecords (blockDAO repo) 1 (blockDB s) of
        [] \<Rightarrow> Ret (Inl ''no first record'')
      | kv # _ \<Rightarrow> obind (keyValueToBlockIndex x kv) (\<lambda>b. Ret (Inr b)))"

text \<open>The predicate of \<open>DeleteOldBlocks\<close>: created before the given time.\<close>

definition created_before :: "ext \<Rightarrow> int \<Rightarrow> Predicate" where
  "created_before x untilTime kv =
     obind (keyValueToBlockIndex x kv) (\<lambda>blockIndex.
     obind (deref (biCreatedAt blockIndex)) (\<lambda>c. Ret (c < untilTime)))"

definition DeleteOldBlocks ::
  "ext \<Rightarrow> 'db KVIndexRepo \<Rightarrow> int \<Rightarrow> (('db, 'm) IndexDB_scheme, int \<times> string option) st" where
  "DeleteOldBlocks x repo untilTime =
     (\<lambda>s. bnd (lift (GetNFirstPredicate (blockDAO repo) (created_before x untilTime) (blockDB s)))
            (\<lambda>kvsToDel. bnd (on_block (BatchDelete (blockDAO repo) (map kvKey kvsToDel)))
               (\<lambda>err. ret (int (length kvsToDel), err))) s)"

definition GetBlocks ::
  "ext \<Rightarrow> 'db KVIndexRepo \<Rightarrow> string \<Rightarrow> int \<Rightarrow> int \<Rightarrow> ('db, 'm) IndexDB_scheme
   \<Rightarrow> (int \<times> BlockIndex list) outcome" where
  "GetBlocks x repo blockNumber rows start s =
     (if length blockNumber > 0
      then (case FindByKey (blockDAO repo) (MarshallBlockKey blockNumber) (blockDB s) of
              Inl err \<Rightarrow> Ret (0, [])
            | Inr kv \<Rightarrow> obind (keyValueToBlockIndex x kv) (\<lambda>b. Ret (1, [b])))
      else let (tot, keyValues) = FindByKeyPrefix (blockDAO repo) (bytes_of []) False rows start (blockDB s)
           in obind (omap (keyValueToBlockIndex x) keyValues) (\<lambda>l. Ret (tot, l)))"

end
