(* ===== verification/DaoSpec.thy ===== *)
theory DaoSpec
  imports Dao
begin

text \<open>
  What the data access layer promises. The abstract state of a database is a map from keys to
  values, \<open>store\<close>, listed by \<open>kvs\<close> in key order.
  \<^item> \<open>goleveldb_laws\<close>, \<open>leveldb_laws\<close> and \<open>memdb_laws\<close>: the documented behaviour of the third-party
    databases: what a write that reports no error stores, and what an iterator yields.
  \<^item> \<open>kv_dao\<close>: the contract of the interface \<open>KeyValueDAO\<close>, on which the repositories rest: every
    operation on the abstract map. Both implementations satisfy it (\<open>sublocale\<close>), so the loops of
    \<open>Dao\<close> return and compute the reference functions \<open>find_spec\<close>, \<open>last_spec\<close> and \<open>take_pred\<close>.
  A failing write is not specified beyond its error: the database may hold part of it.
\<close>

section \<open>The abstract database\<close>

definition kvs :: "(bytes \<rightharpoonup> bytes) \<Rightarrow> KeyValue list" where
  "kvs m = map (\<lambda>k. \<lparr>kvKey = k, kvValue = the (m k)\<rparr>) (sorted_list_of_set (dom m))"

definition range_kvs :: "URange option \<Rightarrow> (bytes \<rightharpoonup> bytes) \<Rightarrow> KeyValue list" where
  "range_kvs rg m =
     filter (\<lambda>kv. case rg of None \<Rightarrow> True | Some r \<Rightarrow> in_urange r (kvKey kv)) (kvs m)"

definition put_all :: "KeyValue list \<Rightarrow> (bytes \<rightharpoonup> bytes) \<Rightarrow> (bytes \<rightharpoonup> bytes)" where
  "put_all l m = fold (\<lambda>kv m. m(kvKey kv \<mapsto> kvValue kv)) l m"

definition delete_all :: "bytes list \<Rightarrow> (bytes \<rightharpoonup> bytes) \<Rightarrow> (bytes \<rightharpoonup> bytes)" where
  "delete_all ks m = m |` (- set ks)"

fun apply_op :: "BatchOp \<Rightarrow> (bytes \<rightharpoonup> bytes) \<Rightarrow> (bytes \<rightharpoonup> bytes)" where
  "apply_op (BPut k v) m = m(k \<mapsto> v)"
| "apply_op (BDelete k) m = m(k := None)"

text \<open>The pages and counts that the loops compute.\<close>

definition find_spec :: "bool \<Rightarrow> int \<Rightarrow> int \<Rightarrow> KeyValue list \<Rightarrow> int \<times> KeyValue list" where
  "find_spec asc rows start l =
     (let xs = take (Suc (nat NumMaxTransaction)) (if asc then l else rev l)
      in (int (length xs), take (nat rows) (drop (nat start) xs)))"

definition last_spec :: "int \<Rightarrow> KeyValue list \<Rightarrow> KeyValue list" where
  "last_spec n l = take (nat (max n 1)) (rev l)"

fun take_pred :: "Predicate \<Rightarrow> KeyValue list \<Rightarrow> KeyValue list outcome" where
  "take_pred p [] = Ret []"
| "take_pred p (kv # l) =
     obind (p kv) (\<lambda>b. if b then obind (take_pred p l) (\<lambda>r. Ret (kv # r)) else Ret [])"

lemma take_pred_Ret:
  "(\<And>kv. kv \<in> set l \<Longrightarrow> p kv = Ret (q kv)) \<Longrightarrow> take_pred p l = Ret (takeWhile q l)"
  by (induction l) auto

lemma put_all_Nil [simp]: "put_all [] m = m"
  by (simp add: put_all_def)

lemma put_all_Cons [simp]: "put_all (kv # l) m = put_all l (m(kvKey kv \<mapsto> kvValue kv))"
  by (simp add: put_all_def)

lemma put_all_append: "put_all (a @ b) m = put_all b (put_all a m)"
  by (simp add: put_all_def)

lemma fold_BPut: "fold apply_op (map (\<lambda>i. BPut (kvKey i) (kvValue i)) l) m = put_all l m"
  by (induction l arbitrary: m) simp_all

lemma delete_all_Nil [simp]: "delete_all [] m = m"
  by (simp add: delete_all_def restrict_map_def)

lemma delete_all_Cons: "delete_all (k # ks) m = delete_all ks (m(k := None))"
  by (auto simp: delete_all_def restrict_map_def fun_eq_iff)

lemma fold_BDelete: "fold apply_op (map BDelete ks) m = delete_all ks m"
  by (induction ks arbitrary: m) (simp_all add: delete_all_Cons)

lemma put_all_other: "k \<notin> kvKey ` set l \<Longrightarrow> put_all l m k = m k"
  by (induction l arbitrary: m) auto

lemma put_all_dom: "kv \<in> set l \<Longrightarrow> put_all l m (kvKey kv) \<noteq> None"
proof (induction l arbitrary: m kv)
  case (Cons kv' l)
  show ?case
  proof (cases "kvKey kv \<in> kvKey ` set l")
    case True
    then obtain kv2 where "kv2 \<in> set l" "kvKey kv2 = kvKey kv" by auto
    then show ?thesis using Cons.IH [of kv2] by simp
  next
    case False
    then show ?thesis using Cons.prems by (auto simp: put_all_other)
  qed
qed simp

lemma put_all_lookup:
  "distinct (map kvKey l) \<Longrightarrow> kv \<in> set l \<Longrightarrow> put_all l m (kvKey kv) = Some (kvValue kv)"
  by (induction l arbitrary: m) (auto simp: put_all_other)

lemma delete_put_all:
  assumes "\<forall>kv \<in> set l. kvKey kv \<in> set ks" "\<forall>k \<in> set ks. m k = None"
  shows "delete_all ks (put_all l m) = m"
proof
  fix k
  show "delete_all ks (put_all l m) k = m k"
    using assms put_all_other [of k l m] by (auto simp: delete_all_def restrict_map_def)
qed

lemma finite_dom_put_all: "finite (dom m) \<Longrightarrow> finite (dom (put_all l m))"
  by (induction l arbitrary: m) simp_all

lemma finite_dom_delete_all: "finite (dom m) \<Longrightarrow> finite (dom (delete_all ks m))"
  by (simp add: delete_all_def)

lemma kvKey_kvs: "map kvKey (kvs m) = sorted_list_of_set (dom m)"
  by (simp add: kvs_def comp_def)

lemma set_kvs: "finite (dom m) \<Longrightarrow> kv \<in> set (kvs m) \<longleftrightarrow> m (kvKey kv) = Some (kvValue kv)"
  by (cases kv) (auto simp: kvs_def dom_def image_iff)

lemma distinct_kvs: "distinct (kvs m)"
  using kvKey_kvs [of m] by (metis distinct_map distinct_sorted_list_of_set)

section \<open>Iterators\<close>

text \<open>
  \<open>yields fn cur it l\<close>: calling \<open>fn\<close> (\<open>Next\<close> or \<open>Prev\<close>) from \<open>it\<close> until it reports the end visits
  exactly the records \<open>l\<close>, in this order.
\<close>

inductive yields :: "('it \<Rightarrow> bool \<times> 'it) \<Rightarrow> ('it \<Rightarrow> KeyValue) \<Rightarrow> 'it \<Rightarrow> KeyValue list \<Rightarrow> bool"
  for fn :: "'it \<Rightarrow> bool \<times> 'it" and cur :: "'it \<Rightarrow> KeyValue" where
  yields_end: "\<not> fst (fn it) \<Longrightarrow> yields fn cur it []"
| yields_step: "fst (fn it) \<Longrightarrow> yields fn cur (snd (fn it)) l \<Longrightarrow>
     yields fn cur it (cur (snd (fn it)) # l)"

inductive_cases yields_NilE: "yields fn cur it []"
inductive_cases yields_ConsE: "yields fn cur it (kv # l)"
inductive_simps yields_Nil_iff: "yields fn cur it []"
inductive_simps yields_Cons_iff: "yields fn cur it (kv # l)"

lemma count_loop_yields:
  "yields (itNext api) (current api) it l \<Longrightarrow> count_loop api it n = Some (n + int (length l))"
  by (induction arbitrary: n rule: yields.induct) (simp_all add: count_loop.simps)

lemma all_loop_yields:
  "yields (itNext api) (current api) it l \<Longrightarrow> all_loop api it r = Some (r @ l)"
  by (induction arbitrary: r rule: yields.induct) (simp_all add: all_loop.simps)

lemma predicate_loop_yields:
  "yields (itNext api) (current api) it l \<Longrightarrow>
   predicate_loop api p it r = Some (obind (take_pred p l) (\<lambda>s. Ret (r @ s)))"
proof (induction arbitrary: r rule: yields.induct)
  case (yields_end it)
  then show ?case by (simp add: predicate_loop.simps)
next
  case (yields_step it l)
  show ?case
  proof (cases "p (current api (snd (itNext api it)))")
    case (Ret b)
    then show ?thesis
      using yields_step by (simp add: predicate_loop.simps [of api p it] obind_assoc)
  qed (use yields_step in \<open>simp_all add: predicate_loop.simps [of api p it]\<close>)
qed

lemma first_loop_yields:
  "yields (itNext api) (current api) it l \<Longrightarrow>
   first_loop api n it c r = r @ take (nat (n - c)) l"
proof (induction arbitrary: c r rule: yields.induct)
  case (yields_end it)
  then show ?case by (simp add: first_loop.simps)
next
  case (yields_step it l)
  show ?case
  proof (cases "c < n")
    case True
    then have "nat (n - c) = Suc (nat (n - (c + 1)))" by simp
    with True yields_step show ?thesis by (simp add: first_loop.simps [of api n it])
  next
    case False
    then show ?thesis by (simp add: first_loop.simps [of api n it])
  qed
qed

lemma last_loop_yields:
  "yields (itPrev api) (current api) it l \<Longrightarrow>
   last_loop api n it c r = r @ take (nat (n - 1 - c)) l"
proof (induction arbitrary: c r rule: yields.induct)
  case (yields_end it)
  then show ?case by (simp add: last_loop.simps)
next
  case (yields_step it l)
  show ?case
  proof (cases "c < n - 1")
    case True
    then have "nat (n - 1 - c) = Suc (nat (n - 1 - (c + 1)))" by simp
    with True yields_step show ?thesis by (simp add: last_loop.simps [of api n it])
  next
    case False
    then show ?thesis by (simp add: last_loop.simps [of api n it])
  qed
qed

text \<open>One record of a page: the page from record \<open>t\<close> on, before and after it is looked at.\<close>

lemma addToResult_page:
  assumes "addToResult api rows start it c t r = (c1, r1)"
  shows "r1 @ take (nat (rows - c1)) (drop (nat (start - (t + 1))) xs)
      = r @ take (nat (rows - c)) (drop (nat (start - t)) (current api it # xs))"
proof (cases "start \<le> t")
  case True
  then show ?thesis
    using assms
    by (cases "c < rows") (auto simp: addToResult_def Suc_nat_eq_nat_zadd1 take_Cons' nat_diff_distrib'
        intro!: arg_cong2 [where f = take])
next
  case False
  then have "nat (start - t) = Suc (nat (start - (t + 1)))" by simp
  with False show ?thesis using assms by (auto simp: addToResult_def)
qed

text \<open>The invariant of the paging loop, with \<open>c\<close> records taken and \<open>t\<close> records seen so far.\<close>

lemma find_loop_yields:
  assumes "yields fn (current api) it l" "t \<le> NumMaxTransaction"
  shows "find_loop api fn rows start it c t r =
    (t + int (length (take (nat (NumMaxTransaction + 1 - t)) l)),
     r @ take (nat (rows - c)) (drop (nat (start - t)) (take (nat (NumMaxTransaction + 1 - t)) l)))"
  using assms
proof (induction arbitrary: c t r rule: yields.induct)
  case (yields_end it)
  then show ?case by (simp add: find_loop.simps)
next
  case (yields_step it l)
  let ?cur = "current api (snd (fn it))" and ?m = "nat (NumMaxTransaction - t)"
  obtain c1 r1 where add: "addToResult api rows start (snd (fn it)) c t r = (c1, r1)"
    by fastforce
  note page = addToResult_page [OF add]
  have m: "nat (NumMaxTransaction + 1 - t) = Suc ?m" using yields_step.prems by simp
  show ?case
  proof (cases "t + 1 > NumMaxTransaction")
    case True
    then have "?m = 0" by simp
    then show ?thesis
      using True add yields_step.hyps page [of "[]"] m
      by (simp add: find_loop.simps [of api fn rows start it])
  next
    case False
    then have "find_loop api fn rows start it c t r =
        find_loop api fn rows start (snd (fn it)) c1 (t + 1) r1"
      using add yields_step.hyps by (simp add: find_loop.simps [of api fn rows start it])
    also have "\<dots> = (t + 1 + int (length (take ?m l)),
        r1 @ take (nat (rows - c1)) (drop (nat (start - (t + 1))) (take ?m l)))"
      using yields_step.IH [of "t + 1" c1 r1] False by simp
    finally show ?thesis using page [of "take ?m l"] m by simp
  qed
qed

section \<open>Documented behaviour of goleveldb\<close>

locale goleveldb_laws =
  fixes api :: "('db, 'it, 'm) goleveldb_scheme"
    and store :: "'db \<Rightarrow> bytes \<rightharpoonup> bytes"
  assumes finite_store: "finite (dom (store db))"
    and dbPut_store: "dbPut api db k v = (None, db') \<Longrightarrow> store db' = (store db)(k \<mapsto> v)"
    and dbDelete_store: "dbDelete api db k = (None, db') \<Longrightarrow> store db' = (store db)(k := None)"
    and dbGet_Some: "store db k = Some v \<Longrightarrow> dbGet api db k = Inr v"
    and dbGet_None: "store db k = None \<Longrightarrow> \<exists>e. dbGet api db k = Inl e"
    and iter_Next: "yields (itNext api) (\<lambda>it. NewKeyValue (itKey api it) (itValue api it))
          (dbNewIterator api db rg) (range_kvs rg (store db))"
    and iter_Last_empty: "range_kvs rg (store db) = [] \<Longrightarrow> \<not> fst (itLast api (dbNewIterator api db rg))"
    and iter_Last: "range_kvs rg (store db) = l @ [kv] \<Longrightarrow>
          \<exists>it. itLast api (dbNewIterator api db rg) = (True, it) \<and>
               NewKeyValue (itKey api it) (itValue api it) = kv \<and>
               yields (itPrev api) (\<lambda>it. NewKeyValue (itKey api it) (itValue api it)) it (rev l)"
begin

lemma current_eq: "(\<lambda>it. NewKeyValue (itKey api it) (itValue api it)) = current api"
  by (simp add: fun_eq_iff current_def CopyKeyValue_def NewKeyValue_def)

lemmas yields_Next = iter_Next [unfolded current_eq]

lemma yields_Last:
  assumes "range_kvs rg (store db) = l @ [kv]"
  obtains it where "itLast api (dbNewIterator api db rg) = (True, it)" "current api it = kv"
    "yields (itPrev api) (current api) it (rev l)"
  using iter_Last [OF assms] fun_cong [OF current_eq] by (auto simp: current_eq)

lemma count_iter_eq:
  "count_iter api (dbNewIterator api db rg) = Ret (int (length (range_kvs rg (store db))))"
  using count_loop_yields [OF yields_Next] by (simp add: count_iter_def)

lemma getAllRecords_eq: "getAllRecords api (dbNewIterator api db rg) = Ret (range_kvs rg (store db))"
  using all_loop_yields [OF yields_Next] by (simp add: getAllRecords_def)

lemma getNFirstPredicate_eq:
  "getNFirstPredicate api (dbNewIterator api db rg) p = take_pred p (range_kvs rg (store db))"
  using predicate_loop_yields [OF yields_Next] by (simp add: getNFirstPredicate_def)

lemma getNFirstRecords_eq:
  "getNFirstRecords api (dbNewIterator api db rg) n = take (nat n) (range_kvs rg (store db))"
  using first_loop_yields [OF yields_Next] by (simp add: getNFirstRecords_def)

lemma getNLastRecords_eq:
  "getNLastRecords api (dbNewIterator api db rg) n = last_spec n (range_kvs rg (store db))"
proof (cases "range_kvs rg (store db)" rule: rev_cases)
  case Nil
  then show ?thesis
    using iter_Last_empty [OF Nil]
    by (cases "itLast api (dbNewIterator api db rg)") (simp add: getNLastRecords_def last_spec_def)
next
  case (snoc l kv)
  obtain it where it: "itLast api (dbNewIterator api db rg) = (True, it)" "current api it = kv"
    "yields (itPrev api) (current api) it (rev l)"
    by (rule yields_Last [OF snoc])
  have "nat (max n 1) = Suc (nat (n - 1))" by simp
  then show ?thesis
    using it last_loop_yields [OF it(3), of n 0 "[kv]"] snoc
    by (simp add: getNLastRecords_def last_spec_def)
qed

lemma findByKeyPrefix_eq:
  "findByKeyPrefix api (dbNewIterator api db rg) asc rows start
   = find_spec asc rows start (range_kvs rg (store db))"
proof (cases asc)
  case True
  then show ?thesis
    using find_loop_yields [OF yields_Next [where db = db and rg = rg], of 0 rows start 0 "[]"]
    by (simp add: findByKeyPrefix_def find_spec_def NumMaxTransaction_def Let_def)
next
  case False
  show ?thesis
  proof (cases "range_kvs rg (store db)" rule: rev_cases)
    case Nil
    then show ?thesis
      using False iter_Last_empty [OF Nil]
      by (cases "itLast api (dbNewIterator api db rg)") (simp add: findByKeyPrefix_def find_spec_def)
  next
    case (snoc l kv)
    obtain it where it: "itLast api (dbNewIterator api db rg) = (True, it)" "current api it = kv"
      "yields (itPrev api) (current api) it (rev l)"
      by (rule yields_Last [OF snoc])
    obtain c1 r1 where add: "addToResult api rows start it 0 0 [] = (c1, r1)"
      by fastforce
    show ?thesis
      using False it snoc add find_loop_yields [OF it(3), of 1 rows start c1 r1]
        addToResult_page [OF add, of "take (nat NumMaxTransaction) (rev l)"]
      by (simp add: findByKeyPrefix_def find_spec_def NumMaxTransaction_def Let_def)
  qed
qed

end

text \<open>\<open>leveldb.DB\<close>: a batch is applied in order.\<close>

locale leveldb_laws = external x + goleveldb_laws api store
  for x :: ext and api :: "('db, 'it) leveldb" and store :: "'db \<Rightarrow> bytes \<rightharpoonup> bytes" +
  assumes dbWrite_store: "dbWrite api db ops = (None, db') \<Longrightarrow> store db' = fold apply_op ops (store db)"

text \<open>\<open>memdb.DB\<close>: deleting a key that is not there is an error and changes nothing.\<close>

locale memdb_laws = external x + goleveldb_laws api store
  for x :: ext and api :: "('db, 'it) goleveldb" and store :: "'db \<Rightarrow> bytes \<rightharpoonup> bytes" +
  assumes dbDelete_missing: "store db k = None \<Longrightarrow> \<exists>e. dbDelete api db k = (Some e, db)"

section \<open>The contract of KeyValueDAO\<close>

locale kv_dao =
  fixes dao :: "'db KeyValueDAO" and store :: "'db \<Rightarrow> bytes \<rightharpoonup> bytes"
  assumes dao_finite: "finite (dom (store db))"
    and Put_store: "Put dao kv db = (None, db') \<Longrightarrow> store db' = (store db)(kvKey kv \<mapsto> kvValue kv)"
    and BatchPut_store: "BatchPut dao l db = (None, db') \<Longrightarrow> store db' = put_all l (store db)"
    and BatchDelete_store: "BatchDelete dao ks db = (None, db') \<Longrightarrow> store db' = delete_all ks (store db)"
    and DeleteByKey_store: "DeleteByKey dao k db = (None, db') \<Longrightarrow> store db' = (store db)(k := None)"
    and FindByKeyPrefix_eq: "FindByKeyPrefix dao p asc rows start db =
          find_spec asc rows start (filter (\<lambda>kv. prefix p (kvKey kv)) (kvs (store db)))"
    and CountByKeyPrefix_eq: "CountByKeyPrefix dao p db =
          Ret (int (length (filter (\<lambda>kv. prefix p (kvKey kv)) (kvs (store db)))))"
    and FindByRange_eq: "FindByRange dao rg asc rows start db =
          find_spec asc rows start (range_kvs (Some rg) (store db))"
    and CountByRange_eq: "CountByRange dao rg db = Ret (int (length (range_kvs (Some rg) (store db))))"
    and FindByKey_Some: "store db k = Some v \<Longrightarrow> FindByKey dao k db = Inr \<lparr>kvKey = k, kvValue = v\<rparr>"
    and FindByKey_None: "store db k = None \<Longrightarrow> \<exists>e. FindByKey dao k db = Inl e"
    and GetNFirstRecords_eq: "GetNFirstRecords dao n db = take (nat n) (kvs (store db))"
    and GetNLastRecords_eq: "GetNLastRecords dao n db = last_spec n (kvs (store db))"
    and GetNFirstPredicate_eq: "GetNFirstPredicate dao pre db = take_pred pre (kvs (store db))"
    and GetAllRecords_eq: "GetAllRecords dao db = Ret (kvs (store db))"

lemma range_kvs_None [simp]: "range_kvs None m = kvs m"
  by (simp add: range_kvs_def)

context external
begin

lemma range_kvs_prefix:
  "range_kvs (Some (BytesPrefix x p)) m = filter (\<lambda>kv. prefix p (kvKey kv)) (kvs m)"
  by (simp add: range_kvs_def BytesPrefix_range)

end

sublocale leveldb_laws \<subseteq> ld: kv_dao "LevelDbDAO x api" store
proof unfold_locales
  show "FindByKeyPrefix (LevelDbDAO x api) p asc rows start db =
      find_spec asc rows start (filter (\<lambda>kv. prefix p (kvKey kv)) (kvs (store db)))"
    for p asc rows start db
    by (simp add: LevelDbDAO_def ld_FindByKeyPrefix_def findByKeyPrefix_eq range_kvs_prefix)
  show "CountByKeyPrefix (LevelDbDAO x api) p db =
      Ret (int (length (filter (\<lambda>kv. prefix p (kvKey kv)) (kvs (store db)))))" for p db
    by (simp add: LevelDbDAO_def ld_CountByKeyPrefix_def count_iter_eq range_kvs_prefix)
qed (auto simp: LevelDbDAO_def ld_Put_def ld_BatchPut_def ld_BatchDelete_def ld_DeleteByKey_def
      ld_FindByRange_def ld_CountByRange_def ld_FindByKey_def ld_GetNFirstRecords_def
      ld_GetNLastRecords_def ld_GetNFirstPredicate_def ld_GetAllRecords_def
      findByKeyPrefix_eq count_iter_eq getNFirstRecords_eq getNLastRecords_eq
      getNFirstPredicate_eq getAllRecords_eq finite_store dbPut_store dbDelete_store dbGet_Some
      fold_BPut fold_BDelete dest!: dbWrite_store dbGet_None split: sum.splits)

context memdb_laws
begin

lemma md_BatchPut_store:
  "md_BatchPut api l db = (None, db') \<Longrightarrow> store db' = put_all l (store db)"
  by (induction l arbitrary: db) (auto split: prod.splits option.splits dest!: dbPut_store)

lemma md_BatchDelete_store:
  "md_BatchDelete api ks db = (None, db') \<Longrightarrow> store db' = delete_all ks (store db)"
  by (induction ks arbitrary: db)
     (auto simp: md_DeleteByKey_def delete_all_Cons split: prod.splits option.splits dest!: dbDelete_store)

lemma md_BatchDelete_missing:
  assumes "store db k = None"
  shows "\<exists>e. md_BatchDelete api (k # ks) db = (Some e, db)"
  using dbDelete_missing [OF assms] by (auto simp: md_DeleteByKey_def)

end

sublocale memdb_laws \<subseteq> md: kv_dao "MemDbDAO x api" store
proof unfold_locales
  show "FindByKeyPrefix (MemDbDAO x api) p asc rows start db =
      find_spec asc rows start (filter (\<lambda>kv. prefix p (kvKey kv)) (kvs (store db)))"
    for p asc rows start db
    by (simp add: MemDbDAO_def md_FindByKeyPrefix_def findByKeyPrefix_eq range_kvs_prefix)
  show "CountByKeyPrefix (MemDbDAO x api) p db =
      Ret (int (length (filter (\<lambda>kv. prefix p (kvKey kv)) (kvs (store db)))))" for p db
    by (simp add: MemDbDAO_def md_CountByKeyPrefix_def count_iter_eq range_kvs_prefix)
qed (auto simp: MemDbDAO_def md_Put_def md_DeleteByKey_def
      md_FindByRange_def md_CountByRange_def md_FindByKey_def md_GetNFirstRecords_def
      md_GetNLastRecords_def md_GetNFirstPredicate_def md_GetAllRecords_def CopyKeyValue_def
      findByKeyPrefix_eq count_iter_eq getNFirstRecords_eq getNLastRecords_eq
      getNFirstPredicate_eq getAllRecords_eq finite_store dbPut_store dbDelete_store dbGet_Some
      md_BatchPut_store md_BatchDelete_store dest!: dbGet_None split: sum.splits)

text \<open>Any two data access objects with the same content answer every query alike.\<close>

lemma kv_dao_agree:
  assumes "kv_dao L store" "kv_dao M mstore" "store db = mstore mdb"
  shows "FindByKeyPrefix L p asc rows start db = FindByKeyPrefix M p asc rows start mdb"
    and "FindByRange L rg asc rows start db = FindByRange M rg asc rows start mdb"
    and "CountByKeyPrefix L p db = CountByKeyPrefix M p mdb" and "CountByRange L rg db = CountByRange M rg mdb"
    and "FindByKey L k db = Inr kv \<longleftrightarrow> FindByKey M k mdb = Inr kv"
    and "GetNFirstRecords L n db = GetNFirstRecords M n mdb" and "GetNLastRecords L n db = GetNLastRecords M n mdb"
    and "GetNFirstPredicate L pre db = GetNFirstPredicate M pre mdb" and "GetAllRecords L db = GetAllRecords M mdb"
proof -
  note eqs = kv_dao.FindByKeyPrefix_eq kv_dao.FindByRange_eq kv_dao.CountByKeyPrefix_eq
    kv_dao.CountByRange_eq kv_dao.GetNFirstRecords_eq kv_dao.GetNLastRecords_eq
    kv_dao.GetNFirstPredicate_eq kv_dao.GetAllRecords_eq
  show "FindByKeyPrefix L p asc rows start db = FindByKeyPrefix M p asc rows start mdb"
    "FindByRange L rg asc rows start db = FindByRange M rg asc rows start mdb"
    "CountByKeyPrefix L p db = CountByKeyPrefix M p mdb" "CountByRange L rg db = CountByRange M rg mdb"
    "GetNFirstRecords L n db = GetNFirstRecords M n mdb" "GetNLastRecords L n db = GetNLastRecords M n mdb"
    "GetNFirstPredicate L pre db = GetNFirstPredicate M pre mdb" "GetAllRecords L db = GetAllRecords M mdb"
    using eqs [OF assms(1)] eqs [OF assms(2)] assms(3) by simp_all
  show "FindByKey L k db = Inr kv \<longleftrightarrow> FindByKey M k mdb = Inr kv"
  proof (cases "store db k")
    case None
    then show ?thesis
      using kv_dao.FindByKey_None [OF assms(1), of db k] kv_dao.FindByKey_None [OF assms(2), of mdb k] assms(3)
      by auto
  next
    case (Some v)
    then show ?thesis
      using kv_dao.FindByKey_Some [OF assms(1)] kv_dao.FindByKey_Some [OF assms(2)] assms(3) by simp
  qed
qed

context leveldb_laws
begin

lemma level_dao: "kv_dao (LevelDbDAO x api) store"
  by (rule ld.kv_dao_axioms)

end

context memdb_laws
begin

lemma mem_dao: "kv_dao (MemDbDAO x api) store"
  by (rule md.kv_dao_axioms)

end

text \<open>A database with two keys.\<close>

lemma kvs_two:
  assumes "k < l"
  shows "kvs [k \<mapsto> v, l \<mapsto> w] = [\<lparr>kvKey = k, kvValue = v\<rparr>, \<lparr>kvKey = l, kvValue = w\<rparr>]"
  using assms by (auto simp: kvs_def not_le)

end
