(* ===== verification/RefStore.thy ===== *)
theory RefStore
  imports DaoSpec "HOL-Library.RBT"
begin

text \<open>
  One implementation of the third-party parameters that meets their documented behaviour, so that
  every statement about them has an instance to be evaluated on: the hexadecimal codec, the range
  of a prefix, and an ordered store (a red-black tree keyed by byte strings, with a two-list cursor
  as iterator) with the interfaces of \<open>leveldb.DB\<close> and of \<open>memdb.DB\<close>. The locales of \<open>External\<close> and
  \<open>DaoSpec\<close> are interpreted on it. Nothing in the model depends on this instance.
\<close>

section \<open>Hexadecimal codec\<close>

definition hexdig :: "nat \<Rightarrow> char" where
  "hexdig h = char_of (if h < 10 then 48 + h else 87 + h)"

definition nibble :: "char \<Rightarrow> nat option" where
  "nibble c =
     (let n = of_char c in
      if 48 \<le> n \<and> n \<le> 57 then Some (n - 48)
      else if 97 \<le> n \<and> n \<le> 102 then Some (n - 87)
      else if 65 \<le> n \<and> n \<le> 70 then Some (n - 55) else None)"

fun hex_bytes :: "bytes \<Rightarrow> string" where
  "hex_bytes [] = []"
| "hex_bytes (b # bs) = hexdig (unat b div 16) # hexdig (unat b mod 16) # hex_bytes bs"

fun unhex :: "string \<Rightarrow> bytes \<times> string option" where
  "unhex [] = ([], None)"
| "unhex [c] = ([], Some ''hex string of odd length'')"
| "unhex (c # d # s) =
     (case (nibble c, nibble d) of
        (Some h, Some l) \<Rightarrow> (let (b, e) = unhex s in (of_nat (16 * h + l) # b, e))
      | _ \<Rightarrow> ([], Some ''invalid hex string''))"

definition refEncode :: "bytes \<Rightarrow> string" where
  "refEncode b = CHR ''0'' # CHR ''x'' # hex_bytes b"

definition refDecode :: "string \<Rightarrow> bytes \<times> string option" where
  "refDecode s =
     (case s of
        [] \<Rightarrow> ([], Some ''empty hex string'')
      | c # d # r \<Rightarrow>
          (if c = CHR ''0'' \<and> (d = CHR ''x'' \<or> d = CHR ''X'') then unhex r
           else ([], Some ''hex string without 0x prefix''))
      | _ \<Rightarrow> ([], Some ''hex string without 0x prefix''))"

lemma nibble_hexdig [simp]: "h < 16 \<Longrightarrow> nibble (hexdig h) = Some h"
  by (simp add: nibble_def hexdig_def Let_def)

lemma unhex_hex_bytes [simp]: "unhex (hex_bytes b) = (b, None)"
proof (induction b)
  case (Cons c b)
  have "unat c < 256" using unsigned_less [of c] by simp
  then have "unat c div 16 < 16" "unat c mod 16 < 16" by (simp_all add: div_less_iff_less_mult)
  moreover have "16 * (unat c div 16) + unat c mod 16 = unat c" by simp
  ultimately show ?case using Cons by (simp del: of_nat_add of_nat_mult)
qed simp

section \<open>The range of a prefix\<close>

fun prefix_limit :: "bytes \<Rightarrow> bytes option" where
  "prefix_limit [] = None"
| "prefix_limit (c # p) =
     (case prefix_limit p of
        Some l \<Rightarrow> Some (c # l)
      | None \<Rightarrow> (if c = 255 then None else Some [c + 1]))"

definition refPrefix :: "bytes \<Rightarrow> URange" where
  "refPrefix p = \<lparr>Start = p, Limit = prefix_limit p\<rparr>"

lemma less_inc_byte: "c \<noteq> 255 \<Longrightarrow> d < c + 1 \<longleftrightarrow> d \<le> (c :: byte)"
proof -
  assume "c \<noteq> 255"
  then have "unat c \<noteq> 255" by (auto simp: word_unat_eq_iff)
  moreover have "unat c < 256" using unsigned_less [of c] by simp
  ultimately have "unat (c + 1) = unat c + 1" by (simp add: unat_word_ariths)
  then show ?thesis by (auto simp: word_less_nat_alt word_le_nat_alt)
qed

lemma le_max_byte: "c = (255 :: byte) \<Longrightarrow> \<not> c < d"
proof -
  have "unat d < 256" using unsigned_less [of d] by simp
  then show "c = 255 \<Longrightarrow> \<not> c < d" by (simp add: word_less_nat_alt)
qed

lemma refPrefix_range:
  "p \<le> k \<and> (case prefix_limit p of None \<Rightarrow> True | Some l \<Rightarrow> k < l) \<longleftrightarrow> prefix p k"
proof (induction p arbitrary: k)
  case Nil
  then show ?case by simp
next
  case (Cons c p)
  show ?case
  proof (cases k)
    case Nil
    then show ?thesis by simp
  next
    case (Cons d k')
    then show ?thesis
      using Cons.IH [of k'] less_inc_byte [of c d] le_max_byte [of c d]
      by (auto split: option.splits if_splits)
  qed
qed

definition refExt :: ext where
  "refExt = \<lparr>hexDecode = refDecode, hexEncode = refEncode, BytesPrefix = refPrefix\<rparr>"

interpretation ref_ext: external refExt
proof
  show "hexDecode refExt (hexEncode refExt b) = (b, None)" for b
    by (simp add: refExt_def refDecode_def refEncode_def)
  show "in_urange (BytesPrefix refExt p) k \<longleftrightarrow> prefix p k" for p k
    using refPrefix_range [of p k] by (simp add: refExt_def refPrefix_def in_urange_def)
qed

section \<open>The ordered store\<close>

type_synonym refdb = "(bytes, bytes) rbt"
type_synonym refit = "KeyValue list \<times> KeyValue list"

definition ref_kvs :: "refdb \<Rightarrow> KeyValue list" where
  "ref_kvs db = map (\<lambda>(k, v). \<lparr>kvKey = k, kvValue = v\<rparr>) (RBT.entries db)"

definition refIterator :: "refdb \<Rightarrow> URange option \<Rightarrow> refit" where
  "refIterator db rg =
     ([], filter (\<lambda>kv. case rg of None \<Rightarrow> True | Some r \<Rightarrow> in_urange r (kvKey kv)) (ref_kvs db))"

fun refNext :: "refit \<Rightarrow> bool \<times> refit" where
  "refNext (seen, []) = (False, (seen, []))"
| "refNext (seen, kv # rest) = (True, (kv # seen, rest))"

fun refPrev :: "refit \<Rightarrow> bool \<times> refit" where
  "refPrev (kv # kv' # seen, rest) = (True, (kv' # seen, kv # rest))"
| "refPrev (seen, rest) = (False, (seen, rest))"

definition refLast :: "refit \<Rightarrow> bool \<times> refit" where
  "refLast it = (rev (snd it) @ fst it \<noteq> [], (rev (snd it) @ fst it, []))"

fun ref_apply :: "BatchOp \<Rightarrow> refdb \<Rightarrow> refdb" where
  "ref_apply (BPut k v) db = RBT.insert k v db"
| "ref_apply (BDelete k) db = RBT.delete k db"

definition refGet :: "refdb \<Rightarrow> bytes \<Rightarrow> string + bytes" where
  "refGet db k = (case RBT.lookup db k of None \<Rightarrow> Inl ''leveldb: not found'' | Some v \<Rightarrow> Inr v)"

definition refLevel :: "(refdb, refit) leveldb" where
  "refLevel =
     \<lparr>dbPut = (\<lambda>db k v. (None, RBT.insert k v db)), dbDelete = (\<lambda>db k. (None, RBT.delete k db)),
      dbGet = refGet, dbNewIterator = refIterator,
      itNext = refNext, itPrev = refPrev, itLast = refLast,
      itKey = (\<lambda>it. kvKey (hd (fst it))), itValue = (\<lambda>it. kvValue (hd (fst it))),
      dbWrite = (\<lambda>db ops. (None, fold ref_apply ops db))\<rparr>"

definition refMem :: "(refdb, refit) goleveldb" where
  "refMem =
     \<lparr>dbPut = (\<lambda>db k v. (None, RBT.insert k v db)),
      dbDelete = (\<lambda>db k. if RBT.lookup db k = None then (Some ''leveldb: not found'', db)
                        else (None, RBT.delete k db)),
      dbGet = refGet, dbNewIterator = refIterator,
      itNext = refNext, itPrev = refPrev, itLast = refLast,
      itKey = (\<lambda>it. kvKey (hd (fst it))), itValue = (\<lambda>it. kvValue (hd (fst it)))\<rparr>"

lemma set_entries: "fst ` set (RBT.entries db) = dom (RBT.lookup db)"
  by (metis RBT.map_of_entries dom_map_of_conv_image_fst)

lemma ref_kvs: "ref_kvs db = kvs (RBT.lookup db)"
proof -
  have keys: "sorted_list_of_set (dom (RBT.lookup db)) = map fst (RBT.entries db)"
    by (rule sorted_distinct_set_unique)
      (simp_all add: RBT.sorted_entries RBT.distinct_entries set_entries)
  have "v = the (RBT.lookup db k)" if "(k, v) \<in> set (RBT.entries db)" for k v
    using that RBT.lookup_in_tree [of db k v] by simp
  then show ?thesis
    by (auto simp: ref_kvs_def kvs_def keys split_beta)
qed

lemma refIterator_kvs: "refIterator db rg = ([], range_kvs rg (RBT.lookup db))"
  by (simp add: refIterator_def range_kvs_def ref_kvs)

lemma refNext_yields: "yields refNext (\<lambda>it. hd (fst it)) (seen, rest) rest"
proof (induction rest arbitrary: seen)
  case Nil
  then show ?case by (simp add: yields_end)
next
  case (Cons kv rest)
  then show ?case
    using yields_step [of refNext "(seen, kv # rest)" "\<lambda>it. hd (fst it)" rest] by simp
qed

lemma refPrev_yields: "yields refPrev (\<lambda>it. hd (fst it)) (kv # seen, rest) seen"
proof (induction seen arbitrary: kv rest)
  case Nil
  then show ?case by (simp add: yields_end)
next
  case (Cons kv' seen)
  then show ?case
    using yields_step [of refPrev "(kv # kv' # seen, rest)" "\<lambda>it. hd (fst it)" seen] by simp
qed

lemma ref_apply_lookup: "RBT.lookup (ref_apply op db) = apply_op op (RBT.lookup db)"
  by (cases op) (auto simp: fun_eq_iff)

lemma ref_write_lookup: "RBT.lookup (fold ref_apply ops db) = fold apply_op ops (RBT.lookup db)"
  by (induction ops arbitrary: db) (simp_all add: ref_apply_lookup)

lemma ref_current: "NewKeyValue (kvKey kv) (kvValue kv) = kv"
  by (simp add: NewKeyValue_def)

lemma refLast_yields:
  assumes "range_kvs rg (RBT.lookup db) = l @ [kv]"
  shows "\<exists>it. refLast (refIterator db rg) = (True, it) \<and> hd (fst it) = kv \<and>
          yields refPrev (\<lambda>it. hd (fst it)) it (rev l)"
  using assms by (simp add: refLast_def refIterator_kvs refPrev_yields)

lemmas ref_laws = RBT.finite_dom_lookup refGet_def ref_current refNext_yields refIterator_kvs

interpretation ref_level: leveldb_laws refExt refLevel RBT.lookup
proof
  show "\<exists>it. itLast refLevel (dbNewIterator refLevel db rg) = (True, it) \<and>
      NewKeyValue (itKey refLevel it) (itValue refLevel it) = kv \<and>
      yields (itPrev refLevel) (\<lambda>it. NewKeyValue (itKey refLevel it) (itValue refLevel it)) it (rev l)"
    if "range_kvs rg (RBT.lookup db) = l @ [kv]" for rg db l kv
    using refLast_yields [OF that] by (simp add: refLevel_def ref_current)
qed (auto simp: refLevel_def ref_laws refLast_def ref_write_lookup fun_eq_iff)

interpretation ref_mem: memdb_laws refExt refMem RBT.lookup
proof
  show "\<exists>it. itLast refMem (dbNewIterator refMem db rg) = (True, it) \<and>
      NewKeyValue (itKey refMem it) (itValue refMem it) = kv \<and>
      yields (itPrev refMem) (\<lambda>it. NewKeyValue (itKey refMem it) (itValue refMem it)) it (rev l)"
    if "range_kvs rg (RBT.lookup db) = l @ [kv]" for rg db l kv
    using refLast_yields [OF that] by (simp add: refMem_def ref_current)
qed (auto simp: refMem_def ref_laws refLast_def fun_eq_iff split: if_splits)

end
