(* ===== verification/IndexRepoSpec.thy ===== *)
theory IndexRepoSpec
  imports IndexRepo MarshalFacts RefStore
begin

text \<open>
  What \<open>KVIndexRepo\<close> does, on the abstract maps of its two databases, for any two DAOs that meet the
  contract \<open>kv_dao\<close> (locale \<open>index_repo\<close>; interpreted for both implementations over goleveldb).
  \<^item> Writes: \<open>Store\<close> as an update of the two maps, with the records of a replaced block removed first.
  \<^item> Invariants: every key of the address database is the encoding of an (address, time, sequence)
    triple with a value of full length, and every record of the block database is the encoding of a
    block index under its number. \<open>Store\<close> keeps both.
  \<^item> Queries: the pages and totals as filters of the address database by address and time.
\<close>

section \<open>The keys a reorg deletes\<close>

definition seq_range :: "8 word \<Rightarrow> 8 word list" where
  "seq_range q = map of_nat [1 ..< Suc (unat q)]"

definition block_keys :: "ext \<Rightarrow> int option \<Rightarrow> AddressSequence list \<Rightarrow> bytes list" where
  "block_keys x t as =
     concat (map (\<lambda>a. map (MarshallAddressKeyStr x (Address a) t) (seq_range (Sequence a))) as)"

lemma seq_keys_from:
  assumes "seq \<noteq> 255" "n + d = Suc (unat seq)" "n < 256"
  shows "seq_keys mk seq (of_nat n) ks = Some (ks @ map (\<lambda>m. mk (of_nat m)) [n ..< Suc (unat seq)])"
  using assms
proof (induction d arbitrary: n ks)
  case 0
  have "unat (of_nat n :: 8 word) = n" using "0.prems"(3) by (simp add: unat_of_nat)
  with "0.prems"(2) have "\<not> (of_nat n :: 8 word) \<le> seq" by (simp add: word_le_nat_alt)
  with "0.prems"(2) show ?case by (simp add: seq_keys.simps)
next
  case (Suc d)
  have "unat seq < 256" using unsigned_less [of seq] by simp
  moreover have "unat seq \<noteq> 255" using Suc.prems(1) by (auto simp: word_unat_eq_iff)
  ultimately have n: "n < 256" "Suc n < 256" using Suc.prems(2) by auto
  then have "unat (of_nat n :: 8 word) = n" by (simp add: unat_of_nat)
  then have le: "(of_nat n :: 8 word) \<le> seq" using Suc.prems(2) by (simp add: word_le_nat_alt)
  have "seq_keys mk seq (of_nat n) ks = seq_keys mk seq (of_nat (Suc n)) (ks @ [mk (of_nat n)])"
    using le by (simp add: seq_keys.simps [of mk seq "of_nat n"] add.commute)
  also have "\<dots> = Some (ks @ [mk (of_nat n)] @ map (\<lambda>m. mk (of_nat m)) [Suc n ..< Suc (unat seq)])"
    using Suc.IH [of "Suc n"] Suc.prems n by simp
  finally show ?case
    using Suc.prems(2) by (simp add: upt_conv_Cons del: upt_Suc)
qed

lemma seq_keys_ends: "seq \<noteq> 255 \<Longrightarrow> seq_keys mk seq 1 ks = Some (ks @ map mk (seq_range seq))"
  using seq_keys_from [of seq 1 "unat seq" mk ks] by (simp add: seq_range_def comp_def del: upt_Suc)

text \<open>With the largest sequence the counter wraps below it and the loop does not return.\<close>

lemma seq_keys_Some: "seq_keys mk seq i ks = Some r \<Longrightarrow> seq \<noteq> 255"
proof (rule seq_keys.raw_induct [where P = "\<lambda>mk seq i ks r. seq \<noteq> 255"])
  fix f mk and seq :: "8 word" and i ks r
  assume IH: "\<And>mk seq i ks r. f mk seq i ks = Some r \<Longrightarrow> seq \<noteq> (255 :: 8 word)"
    and eq: "(if i \<le> seq then f mk seq (i + 1) (ks @ [mk i]) else Some ks) = Some r"
  show "seq \<noteq> 255"
  proof
    assume seq: "seq = 255"
    then have "i \<le> seq" using le_max_byte [of 255 i] by (simp add: not_less)
    with eq have "f mk seq (i + 1) (ks @ [mk i]) = Some r" by simp
    then have "seq \<noteq> 255" by (rule IH)
    with seq show False by simp
  qed
qed

lemma seq_keys_255 [simp]: "seq_keys mk 255 i ks = None"
  using seq_keys_Some by (metis not_Some_eq)

lemma reorg_keys_ends:
  "\<forall>a \<in> set as. Sequence a \<noteq> 255 \<Longrightarrow> reorg_keys x t as ks = Ret (ks @ block_keys x t as)"
  by (induction as arbitrary: ks) (simp_all add: seq_keys_ends block_keys_def)

lemma reorg_keys_diverges:
  "\<exists>a \<in> set as. Sequence a = 255 \<Longrightarrow> reorg_keys x t as ks = Diverge"
proof (induction as arbitrary: ks)
  case (Cons a as)
  then show ?case
    by (cases "Sequence a = 255") (auto simp: seq_keys_255 seq_keys_ends)
qed simp

lemma in_seq_range: "q \<in> set (seq_range m) \<longleftrightarrow> 1 \<le> unat q \<and> unat q \<le> unat m"
proof
  assume "q \<in> set (seq_range m)"
  then obtain n where n: "q = of_nat n" "1 \<le> n" "n \<le> unat m" by (auto simp: seq_range_def)
  moreover have "unat m < 256" using unsigned_less [of m] by simp
  ultimately show "1 \<le> unat q \<and> unat q \<le> unat m" by (simp add: unat_of_nat)
next
  assume "1 \<le> unat q \<and> unat q \<le> unat m"
  then show "q \<in> set (seq_range m)"
    by (auto simp: seq_range_def image_iff simp del: upt_Suc intro!: bexI [of _ "unat q"])
qed

section \<open>Entries and invariants\<close>

text \<open>A well-formed index entry, and the pair it is stored as.\<close>

definition ai_ok :: "ext \<Rightarrow> AddressIndex \<Rightarrow> bool" where
  "ai_ok x i \<longleftrightarrow> addr_ok x (Address i) \<and> addr_ok x (CoupleAddress i) \<and> hash_ok x (aiTxHash i) \<and>
     aiValue i \<noteq> None \<and> (\<exists>t. aiTime i = Some t \<and> time_ok t)"

definition entry_of :: "ext \<Rightarrow> AddressIndex \<Rightarrow> KeyValue" where
  "entry_of x i =
     \<lparr>kvKey = MarshallAddressKey x i,
      kvValue = addr_bytes x (aiTxHash i) @ addr_bytes x (CoupleAddress i) @ big_Bytes (the (aiValue i))\<rparr>"

definition ai_key :: "ext \<Rightarrow> AddressIndex \<Rightarrow> AddrKey" where
  "ai_key x i = AddrKey (addr_bytes x (Address i)) (the (aiTime i)) (Sequence i)"

lemma ai_key_ok: "ai_ok x i \<Longrightarrow> key_ok (ai_key x i)"
  by (auto simp: ai_ok_def ai_key_def addr_ok_def)

lemma kvKey_entry: "ai_ok x i \<Longrightarrow> kvKey (entry_of x i) = enc_key (ai_key x i)"
  by (auto simp: ai_ok_def entry_of_def ai_key_def MarshallAddressKey_def MarshallAddressKeyStr_enc)

lemma address_kvs_ok: "\<forall>i \<in> set idx. aiValue i \<noteq> None \<Longrightarrow> address_kvs x idx = Ret (map (entry_of x) idx)"
  unfolding address_kvs_def
  by (rule omap_Ret) (auto simp: MarshallAddressValue_def NewKeyValue_def entry_of_def addr_bytes_def)

text \<open>What a query gives back for a stored pair: the sequence is not returned.\<close>

definition to_index :: "ext \<Rightarrow> KeyValue \<Rightarrow> AddressIndex" where
  "to_index x kv =
     \<lparr>Address = hexEncode x (akAddr (dec_key (kvKey kv))), Sequence = 0,
      aiTxHash = hexEncode x (take 32 (kvValue kv)),
      aiValue = Some (big_SetBytes (drop 52 (kvValue kv))),
      aiTime = Some (akTime (dec_key (kvKey kv))),
      CoupleAddress = hexEncode x (take 20 (drop 32 (kvValue kv)))\<rparr>"

definition norm_index :: "ext \<Rightarrow> AddressIndex \<Rightarrow> AddressIndex" where
  "norm_index x i =
     \<lparr>Address = norm_hex x (Address i), Sequence = 0, aiTxHash = norm_hex x (aiTxHash i),
      aiValue = map_option abs (aiValue i), aiTime = aiTime i,
      CoupleAddress = norm_hex x (CoupleAddress i)\<rparr>"

lemma to_index_entry: "ai_ok x i \<Longrightarrow> to_index x (entry_of x i) = norm_index x i"
  using big_SetBytes_Bytes [of "the (aiValue i)"]
  by (simp add: to_index_def kvKey_entry ai_key_ok)
     (auto simp: ai_ok_def addr_ok_def hash_ok_def ai_key_def entry_of_def norm_index_def norm_hex_def)

definition address_map_ok :: "(bytes \<rightharpoonup> bytes) \<Rightarrow> bool" where
  "address_map_ok m \<longleftrightarrow>
     (\<forall>k v. m k = Some v \<longrightarrow> (\<exists>K. key_ok K \<and> k = enc_key K) \<and> 52 \<le> length v)"

lemma address_map_ok_empty: "address_map_ok Map.empty"
  by (simp add: address_map_ok_def)

lemma address_map_ok_put: 
  assumes "address_map_ok m" "\<forall>i \<in> set idx. ai_ok x i"
  shows "address_map_ok (put_all (map (entry_of x) idx) m)"
  using assms
proof (induction idx arbitrary: m)
  case (Cons i idx)
  then have i: "ai_ok x i" by simp
  then have "52 \<le> length (kvValue (entry_of x i))"
    by (simp add: entry_of_def ai_ok_def addr_ok_def hash_ok_def)
  then have "address_map_ok (m(kvKey (entry_of x i) \<mapsto> kvValue (entry_of x i)))"
    using Cons.prems(1) ai_key_ok [OF i] kvKey_entry [OF i] by (auto simp: address_map_ok_def)
  with Cons show ?case by simp
qed simp

lemma address_map_ok_delete: "address_map_ok m \<Longrightarrow> address_map_ok (delete_all ks m)"
  by (auto simp: address_map_ok_def delete_all_def restrict_map_def split: if_splits)

lemma keyValueToAddressIndex_ok:
  assumes "key_ok K" "kvKey kv = enc_key K" "52 \<le> length (kvValue kv)"
  shows "keyValueToAddressIndex x kv = Ret (to_index x kv)"
proof -
  have K: "length (akAddr K) = 20" "time_ok (akTime K)" using assms(1) by (cases K; simp)+
  then have t: "length (MarshallTime (Some (akTime K))) = 4" by simp
  have "slice (enc_key K) 0 20 = Ret (akAddr K)"
    unfolding enc_key_def by (rule slice_prefix) (simp add: K)
  moreover have "slice (enc_key K) 20 24 = Ret (MarshallTime (Some (akTime K)))"
    using slice_append [of "akAddr K" "MarshallTime (Some (akTime K))" "[akSeq K]"] K t
    by (simp add: enc_key_def)
  ultimately have "UnmarshallAddressKey x (kvKey kv) = Ret (hexEncode x (akAddr K), akTime K)"
    using UnmarshallTimeToInt_Marshall [OF K(2)]
    by (simp add: UnmarshallAddressKey_def marshal_consts assms(2) UnmarshallTimeToInt_def)
  moreover have "UnmarshallAddressValue x (kvValue kv) =
      Ret \<lparr>Address = [], Sequence = 0, aiTxHash = hexEncode x (take 32 (kvValue kv)),
           aiValue = Some (big_SetBytes (drop 52 (kvValue kv))), aiTime = None,
           CoupleAddress = hexEncode x (take 20 (drop 32 (kvValue kv)))\<rparr>"
    using assms(3) by (simp add: UnmarshallAddressValue_def slice_def marshal_consts)
  ultimately show ?thesis
    using assms(1,2) by (simp add: keyValueToAddressIndex_def to_index_def)
qed

lemma keyValueToAddressIndex_entry:
  assumes "ai_ok x i"
  shows "keyValueToAddressIndex x (entry_of x i) = Ret (norm_index x i)"
proof -
  have "52 \<le> length (kvValue (entry_of x i))"
    using assms by (simp add: entry_of_def ai_ok_def addr_ok_def hash_ok_def)
  then show ?thesis
    using keyValueToAddressIndex_ok [OF ai_key_ok [OF assms] kvKey_entry [OF assms]] assms
    by (simp add: to_index_entry)
qed

text \<open>The block database: every value encodes a block index stored under its number.\<close>

definition bi_ok :: "ext \<Rightarrow> BlockIndex \<Rightarrow> bool" where
  "bi_ok x b \<longleftrightarrow>
     (\<exists>n. biBlockNumber b = dec n) \<and>
     (\<exists>c t. biCreatedAt b = Some c \<and> biTime b = Some t \<and> time_ok c \<and> time_ok t) \<and>
     (\<forall>a \<in> set (biAddresses b). addr_ok x (Address a))"

definition block_value :: "ext \<Rightarrow> BlockIndex \<Rightarrow> bytes" where
  "block_value x b = MarshallTime (biCreatedAt b) @ MarshallTime (biTime b) @
     concat (map (enc_addr x) (biAddresses b))"

definition norm_block :: "ext \<Rightarrow> BlockIndex \<Rightarrow> BlockIndex" where
  "norm_block x b = b\<lparr>biAddresses := map (\<lambda>a. a\<lparr>Address := norm_hex x (Address a)\<rparr>) (biAddresses b)\<rparr>"

definition block_map_ok :: "ext \<Rightarrow> (bytes \<rightharpoonup> bytes) \<Rightarrow> bool" where
  "block_map_ok x m \<longleftrightarrow>
     (\<forall>k v. m k = Some v \<longrightarrow>
        (\<exists>b. bi_ok x b \<and> k = MarshallBlockKey (biBlockNumber b) \<and> v = block_value x b))"

lemma MarshallBlockValue_ok: "bi_ok x b \<Longrightarrow> MarshallBlockValue x b = Ret (block_value x b)"
  by (auto simp: bi_ok_def block_value_def MarshallBlockValue_layout)

lemma block_map_ok_put:
  "block_map_ok x m \<Longrightarrow> bi_ok x b \<Longrightarrow>
   block_map_ok x (m(MarshallBlockKey (biBlockNumber b) \<mapsto> block_value x b))"
  by (auto simp: block_map_ok_def)

lemma block_map_ok_delete: "block_map_ok x m \<Longrightarrow> block_map_ok x (delete_all ks m)"
  by (auto simp: block_map_ok_def delete_all_def restrict_map_def split: if_splits)

context external
begin

lemma Unmarshall_block_value:
  "bi_ok x b \<Longrightarrow> UnmarshallBlockValue x (block_value x b) = Ret ((norm_block x b)\<lparr>biBlockNumber := []\<rparr>)"
  using block_value_roundtrip [of b] MarshallBlockValue_ok [of x b]
  by (auto simp: bi_ok_def norm_block_def)

lemma keyValueToBlockIndex_ok:
  assumes "bi_ok x b"
  shows "keyValueToBlockIndex x \<lparr>kvKey = MarshallBlockKey (biBlockNumber b), kvValue = block_value x b\<rparr>
       = Ret (norm_block x b)"
proof -
  obtain n where "biBlockNumber b = dec n" using assms by (auto simp: bi_ok_def)
  then show ?thesis
    using Unmarshall_block_value [OF assms] big_String_nonneg [of "int n"]
    by (simp add: keyValueToBlockIndex_def UnmarshallBlockKey_def MarshallBlockKey_def norm_block_def)
qed

lemma MarshallAddressKeyStr_norm [simp]:
  "MarshallAddressKeyStr x (norm_hex x s) = MarshallAddressKeyStr x s"
  by (simp add: fun_eq_iff MarshallAddressKeyStr_def MarshallAddressKeyPrefix2_def
      addr_bytes_def [symmetric])

lemma block_keys_norm [simp]:
  "block_keys x t (map (\<lambda>a. a\<lparr>Address := norm_hex x (Address a)\<rparr>) as) = block_keys x t as"
  by (simp add: block_keys_def comp_def)

end

section \<open>Ranges of the address database\<close>

definition entries :: "ext \<Rightarrow> (bytes \<rightharpoonup> bytes) \<Rightarrow> string \<Rightarrow> (int \<Rightarrow> bool) \<Rightarrow> KeyValue list" where
  "entries x m a P =
     filter (\<lambda>kv. akAddr (dec_key (kvKey kv)) = addr_bytes x a \<and> P (akTime (dec_key (kvKey kv)))) (kvs m)"

text \<open>The interval of Unix times that a query asks for; a zero bound is no bound.\<close>

definition in_times :: "gotime \<Rightarrow> gotime \<Rightarrow> int \<Rightarrow> bool" where
  "in_times fromTime toTime u \<longleftrightarrow>
     (\<not> tIsZero fromTime \<longrightarrow> tUnix fromTime \<le> u) \<and> (\<not> tIsZero toTime \<longrightarrow> u \<le> tUnix toTime)"

definition times_ok :: "gotime \<Rightarrow> gotime \<Rightarrow> bool" where
  "times_ok fromTime toTime \<longleftrightarrow>
     (tIsZero fromTime \<or> time_ok (tUnix fromTime)) \<and> (tIsZero toTime \<or> time_ok (tUnix toTime + 1))"

lemma kvs_keys:
  assumes "address_map_ok m" "finite (dom m)" "kv \<in> set (kvs m)"
  obtains K where "key_ok K" "kvKey kv = enc_key K" "52 \<le> length (kvValue kv)"
  using assms set_kvs [OF assms(2), of kv] by (auto simp: address_map_ok_def)

lemma MarshallAddressKeyPrefix3_ok:
  "time_ok (tUnix tm) \<Longrightarrow> MarshallAddressKeyPrefix3 x a tm = addr_bytes x a @ MarshallTime (Some (tUnix tm))"
  by (simp add: MarshallAddressKeyPrefix3_def MarshallTime2_ok addr_bytes_def)

context external
begin

lemma BytesPrefix_bounds:
  "Start (BytesPrefix x p) \<le> p @ w"
  "Limit (BytesPrefix x p) = Some l \<Longrightarrow> p @ w < l"
  using BytesPrefix_range [of p "p @ w"] by (auto simp: in_urange_def)

lemma in_time_range:
  assumes K: "key_ok K" and a: "addr_ok x a" and tm: "times_ok f t" and nz: "\<not> tIsZero f \<or> \<not> tIsZero t"
  shows "in_urange (time_range x a f t) (enc_key K) \<longleftrightarrow>
     akAddr K = addr_bytes x a \<and> in_times f t (akTime K)"
proof -
  let ?a = "addr_bytes x a" and ?bp = "BytesPrefix x (addr_bytes x a)"
  let ?f = "?a @ MarshallTime (Some (tUnix f))" and ?t = "?a @ MarshallTime (Some (tUnix t + 1))"
  have len: "length ?a = 20" using a by (simp add: addr_ok_def)
  have pre: "in_urange ?bp (enc_key K) \<longleftrightarrow> akAddr K = ?a"
    using BytesPrefix_range prefix_enc_key [OF K len] by simp
  have mp: "MarshallAddressKeyPrefix x a = ?a" by (simp add: MarshallAddressKeyPrefix_def addr_bytes_def)
  have lim: "limit_of ?t = Some ?t" using len by (auto simp: limit_of_def)
  have f3: "MarshallAddressKeyPrefix3 x a f = ?f" if "time_ok (tUnix f)"
    using that by (rule MarshallAddressKeyPrefix3_ok)
  have t3: "MarshallAddressKeyPrefix3 x a (tAdd t Second) = ?t" if "time_ok (tUnix t + 1)"
    using that MarshallAddressKeyPrefix3_ok [of "tAdd t Second"] by simp
  consider "tIsZero f" "\<not> tIsZero t" | "\<not> tIsZero f" "tIsZero t" | "\<not> tIsZero f" "\<not> tIsZero t"
    using nz by blast
  then show ?thesis
  proof cases
    case 1
    then have ok: "time_ok (tUnix t + 1)" using tm by (simp add: times_ok_def)
    have "in_urange \<lparr>Start = Start ?bp, Limit = Some ?t\<rparr> (enc_key K) \<longleftrightarrow>
        in_urange ?bp (enc_key K) \<and> enc_key K < ?t"
    proof (cases "Limit ?bp")
      case None
      then show ?thesis by (simp add: in_urange_def)
    next
      case (Some l)
      have "?t < l" using BytesPrefix_bounds(2) [OF Some] by simp
      then have "enc_key K < l" if "enc_key K < ?t" using that by (rule order.strict_trans [rotated])
      then show ?thesis using Some by (auto simp: in_urange_def)
    qed
    then show ?thesis
      using 1 ok pre enc_key_less_bound [OF K len ok] lim
      by (auto simp: time_range_def Let_def mp t3 in_times_def)
  next
    case 2
    then have ok: "time_ok (tUnix f)" using tm by (simp add: times_ok_def)
    have "in_urange \<lparr>Start = ?f, Limit = Limit ?bp\<rparr> (enc_key K) \<longleftrightarrow>
        in_urange ?bp (enc_key K) \<and> ?f \<le> enc_key K"
      using BytesPrefix_bounds(1) [of ?a "MarshallTime (Some (tUnix f))"]
      by (auto simp: in_urange_def)
    then show ?thesis
      using 2 ok pre bound_le_enc_key [OF K len ok]
      by (auto simp: time_range_def Let_def mp f3 in_times_def)
  next
    case 3
    then have "time_ok (tUnix f)" "time_ok (tUnix t + 1)" using tm by (simp_all add: times_ok_def)
    then show ?thesis
      using 3 in_range_from_to [OF K len] lim
      by (simp add: time_range_def Let_def mp f3 t3 in_times_def)
  qed
qed

lemma range_kvs_time:
  assumes "address_map_ok m" "finite (dom m)" "addr_ok x a" "times_ok f t" "\<not> tIsZero f \<or> \<not> tIsZero t"
  shows "range_kvs (Some (time_range x a f t)) m = entries x m a (in_times f t)"
  unfolding range_kvs_def entries_def
proof (rule filter_cong [OF refl])
  fix kv assume "kv \<in> set (kvs m)"
  then obtain K where "key_ok K" "kvKey kv = enc_key K" by (rule kvs_keys [OF assms(1,2)])
  then show "(case Some (time_range x a f t) of None \<Rightarrow> True | Some r \<Rightarrow> in_urange r (kvKey kv)) \<longleftrightarrow>
      akAddr (dec_key (kvKey kv)) = addr_bytes x a \<and> in_times f t (akTime (dec_key (kvKey kv)))"
    using in_time_range assms(3-5) by simp
qed

lemma prefix_kvs:
  assumes "address_map_ok m" "finite (dom m)" "addr_ok x a"
  shows "filter (\<lambda>kv. prefix (addr_bytes x a) (kvKey kv)) (kvs m) = entries x m a (\<lambda>_. True)"
  unfolding entries_def
proof (rule filter_cong [OF refl])
  fix kv assume "kv \<in> set (kvs m)"
  then obtain K where "key_ok K" "kvKey kv = enc_key K" by (rule kvs_keys [OF assms(1,2)])
  then show "prefix (addr_bytes x a) (kvKey kv) \<longleftrightarrow> akAddr (dec_key (kvKey kv)) = addr_bytes x a \<and> True"
    using prefix_enc_key assms(3) by (simp add: addr_ok_def)
qed

lemma omap_index:
  assumes "address_map_ok m" "finite (dom m)" "set l \<subseteq> set (kvs m)"
  shows "omap (keyValueToAddressIndex x) l = Ret (map (to_index x) l)"
proof (rule omap_Ret)
  fix kv assume "kv \<in> set l"
  then have "kv \<in> set (kvs m)" using assms(3) by auto
  then obtain K where "key_ok K" "kvKey kv = enc_key K" "52 \<le> length (kvValue kv)"
    by (rule kvs_keys [OF assms(1,2)])
  then show "keyValueToAddressIndex x kv = Ret (to_index x kv)" by (rule keyValueToAddressIndex_ok)
qed

end

text \<open>The entries of an address come in the order of their times, then sequences.\<close>

lemma sorted_kvs: "sorted_wrt (\<lambda>a b. kvKey a < kvKey b) (kvs m)"
proof -
  have "sorted_wrt (<) (map kvKey (kvs m))"
    by (simp add: kvKey_kvs strict_sorted_list_of_set)
  then show ?thesis by (simp add: sorted_wrt_map)
qed

lemma entries_sorted:
  assumes "address_map_ok m" "finite (dom m)"
  shows "sorted_wrt (\<lambda>v w. akTime (dec_key (kvKey v)) \<le> akTime (dec_key (kvKey w))) (entries x m a P)"
proof -
  have step: "akTime (dec_key (kvKey v)) \<le> akTime (dec_key (kvKey w))"
    if v: "v \<in> set (entries x m a P)" and w: "w \<in> set (entries x m a P)" and less: "kvKey v < kvKey w" for v w
  proof -
    obtain K where K: "key_ok K" "kvKey v = enc_key K"
      using v by (auto simp: entries_def intro: kvs_keys [OF assms])
    obtain L where L: "key_ok L" "kvKey w = enc_key L"
      using w by (auto simp: entries_def intro: kvs_keys [OF assms])
    have "K < L" using less K L by (simp add: enc_key_less_iff)
    moreover have "akAddr K = akAddr L" using v w K L by (simp add: entries_def)
    ultimately show ?thesis using K L by (auto simp: less_AddrKey_def)
  qed
  have "sorted_wrt (\<lambda>v w. kvKey v < kvKey w) (entries x m a P)"
    unfolding entries_def by (rule sorted_wrt_filter) (rule sorted_kvs)
  then show ?thesis by (rule sorted_wrt_mono_rel [rotated]) (rule step)
qed

lemma set_find_spec: "set (snd (find_spec asc rows start l)) \<subseteq> set l"
  by (auto simp: find_spec_def Let_def dest!: in_set_takeD in_set_dropD split: if_splits)

lemma fst_find_spec: "fst (find_spec asc rows start l) = min (int (length l)) 10001"
  by (simp add: find_spec_def Let_def NumMaxTransaction_def min.commute)

lemma find_spec_whole:
  assumes "fst (find_spec asc 10001 0 l) \<le> 10000"
  shows "set (snd (find_spec asc 10001 0 l)) = set l"
proof -
  have "length l \<le> 10000" using assms by (simp add: fst_find_spec)
  then have "take 10001 (if asc then l else rev l) = (if asc then l else rev l)"
    by (intro take_all) simp
  then show ?thesis by (simp add: find_spec_def NumMaxTransaction_def Let_def)
qed

lemma set_entries_kvs: "set (entries x m a P) \<subseteq> set (kvs m)"
  by (auto simp: entries_def)

section \<open>The repository\<close>

text \<open>The keys of the block stored under a number.\<close>

definition old_keys :: "ext \<Rightarrow> (bytes \<rightharpoonup> bytes) \<Rightarrow> string \<Rightarrow> bytes list" where
  "old_keys x m n =
     (case m (MarshallBlockKey n) of
        None \<Rightarrow> []
      | Some v \<Rightarrow> (case UnmarshallBlockValue x v of Ret b \<Rightarrow> block_keys x (biTime b) (biAddresses b) | _ \<Rightarrow> []))"

definition seqs_ok :: "BlockIndex \<Rightarrow> bool" where
  "seqs_ok b \<longleftrightarrow> (\<forall>a \<in> set (biAddresses b). Sequence a \<noteq> 255)"

definition old_seqs_ok :: "ext \<Rightarrow> (bytes \<rightharpoonup> bytes) \<Rightarrow> string \<Rightarrow> bool" where
  "old_seqs_ok x m n \<longleftrightarrow>
     (\<forall>v b. m (MarshallBlockKey n) = Some v \<longrightarrow> UnmarshallBlockValue x v = Ret b \<longrightarrow> seqs_ok b)"

text \<open>The time a block record was created at, read from its value.\<close>

definition created_of :: "KeyValue \<Rightarrow> int" where
  "created_of kv = big_SetBytes (take 4 (kvValue kv))"

locale index_repo = external x + adr: kv_dao "addressDAO repo" store + blk: kv_dao "blockDAO repo" store
  for x :: ext and repo :: "'db KVIndexRepo" and store :: "'db \<Rightarrow> bytes \<rightharpoonup> bytes"
begin

lemma SaveAddressIndex_Ret:
  assumes "SaveAddressIndex x repo idx s = (Ret e, s')" "\<forall>i \<in> set idx. aiValue i \<noteq> None"
  obtains d where "e = None" "s' = s\<lparr>addressDB := d\<rparr>"
    "store d = put_all (map (entry_of x) idx) (store (addressDB s))"
  using assms adr.BatchPut_store
  by (auto simp: SaveAddressIndex_def address_kvs_ok bnd_apply on_address_def split: prod.splits option.splits)

lemma SaveBlockIndex_Ret:
  assumes "SaveBlockIndex x repo b s = (Ret e, s')" "bi_ok x b"
  obtains d where "e = None" "s' = s\<lparr>blockDB := d\<rparr>"
    "store d = (store (blockDB s))(MarshallBlockKey (biBlockNumber b) \<mapsto> block_value x b)"
  using assms blk.Put_store
  by (auto simp: SaveBlockIndex_def MarshallBlockValue_ok bnd_apply on_block_def NewKeyValue_def
      split: prod.splits option.splits)

lemma HandleReorg_Ret:
  assumes "HandleReorg x repo t as s = (Ret None, s')" "\<forall>a \<in> set as. Sequence a \<noteq> 255"
  obtains d where "s' = s\<lparr>addressDB := d\<rparr>"
    "store d = delete_all (block_keys x t as) (store (addressDB s))"
  using assms adr.BatchDelete_store
  by (auto simp: HandleReorg_def reorg_keys_ends bnd_apply on_address_def split: prod.splits)

lemma HandleReorg_diverges:
  "\<exists>a \<in> set as. Sequence a = 255 \<Longrightarrow> HandleReorg x repo t as s = (Diverge, s)"
  by (simp add: HandleReorg_def reorg_keys_diverges bnd_apply)

lemma undo_old_block_Ret:
  assumes "undo_old_block x repo b s = (Ret None, s')" "old_seqs_ok x (store (blockDB s)) (biBlockNumber b)"
  obtains d where "s' = s\<lparr>addressDB := d\<rparr>"
    "store d = delete_all (old_keys x (store (blockDB s)) (biBlockNumber b)) (store (addressDB s))"
proof (cases "store (blockDB s) (MarshallBlockKey (biBlockNumber b))")
  case None
  then show ?thesis
    using assms(1) blk.FindByKey_None [OF None] that [of "addressDB s"]
    by (auto simp: undo_old_block_def old_keys_def MarshallBlockKey_def)
next
  case (Some v)
  note find = blk.FindByKey_Some [OF Some]
  show ?thesis
  proof (cases "UnmarshallBlockValue x v")
    case (Ret old)
    then have seqs: "\<forall>a \<in> set (biAddresses old). Sequence a \<noteq> 255"
      using assms(2) Some by (simp add: old_seqs_ok_def seqs_ok_def)
    have keys: "old_keys x (store (blockDB s)) (biBlockNumber b) = block_keys x (biTime old) (biAddresses old)"
      using Some Ret by (simp add: old_keys_def)
    show ?thesis
    proof (cases "biAddresses old = []")
      case True
      then show ?thesis
        using assms(1) find Ret keys that [of "addressDB s"]
        by (simp add: undo_old_block_def MarshallBlockKey_def bnd_apply block_keys_def)
    next
      case False
      then have "HandleReorg x repo (biTime old) (biAddresses old) s = (Ret None, s')"
        using assms(1) find Ret by (simp add: undo_old_block_def MarshallBlockKey_def bnd_apply)
      then show ?thesis using seqs by (rule HandleReorg_Ret) (use keys that in simp)
    qed
  qed (use assms(1) find in \<open>simp_all add: undo_old_block_def MarshallBlockKey_def bnd_apply\<close>)
qed

lemma Store_batch:
  assumes "Store x repo idx b True s = (Ret None, s')" "\<forall>i \<in> set idx. aiValue i \<noteq> None"
  obtains d where "s' = s\<lparr>addressDB := d\<rparr>"
    "store d = put_all (map (entry_of x) idx) (store (addressDB s))"
proof -
  have "SaveAddressIndex x repo idx s = (Ret None, s')"
    using assms(1) by (auto simp: Store_def bnd_eq_Ret split: if_splits)
  then show ?thesis by (rule SaveAddressIndex_Ret [OF _ assms(2)]) (rule that)
qed

lemma Store_realtime:
  assumes "Store x repo idx b False s = (Ret None, s')" "\<forall>i \<in> set idx. aiValue i \<noteq> None" "bi_ok x b"
    and "old_seqs_ok x (store (blockDB s)) (biBlockNumber b)"
  obtains d d' where "s' = s\<lparr>addressDB := d, blockDB := d'\<rparr>"
    "store d = put_all (map (entry_of x) idx)
       (delete_all (old_keys x (store (blockDB s)) (biBlockNumber b)) (store (addressDB s)))"
    "store d' = (store (blockDB s))(MarshallBlockKey (biBlockNumber b) \<mapsto> block_value x b)"
proof -
  obtain s1 s2 e where undo: "undo_old_block x repo b s = (Ret None, s1)"
    and save: "SaveAddressIndex x repo idx s1 = (Ret None, s2)"
    and blk: "SaveBlockIndex x repo b s2 = (Ret e, s')"
    using assms(1) by (auto simp: Store_def bnd_eq_Ret SaveAddressIndex_def split: if_splits option.splits)
  obtain d1 where "s1 = s\<lparr>addressDB := d1\<rparr>"
    "store d1 = delete_all (old_keys x (store (blockDB s)) (biBlockNumber b)) (store (addressDB s))"
    by (rule undo_old_block_Ret [OF undo assms(4)])
  moreover obtain d2 where "s2 = s1\<lparr>addressDB := d2\<rparr>"
    "store d2 = put_all (map (entry_of x) idx) (store (addressDB s1))"
    by (rule SaveAddressIndex_Ret [OF save assms(2)])
  moreover obtain d3 where "s' = s2\<lparr>blockDB := d3\<rparr>"
    "store d3 = (store (blockDB s2))(MarshallBlockKey (biBlockNumber b) \<mapsto> block_value x b)"
    by (rule SaveBlockIndex_Ret [OF blk assms(3)])
  ultimately show ?thesis using that [of d3 d2] by simp
qed

lemma Store_keeps_maps:
  assumes "Store x repo idx b isBatch s = (Ret None, s')" "\<forall>i \<in> set idx. ai_ok x i" "bi_ok x b"
    and "isBatch \<or> old_seqs_ok x (store (blockDB s)) (biBlockNumber b)"
    and "address_map_ok (store (addressDB s))" "block_map_ok x (store (blockDB s))"
  shows "address_map_ok (store (addressDB s')) \<and> block_map_ok x (store (blockDB s'))"
proof -
  have vals: "\<forall>i \<in> set idx. aiValue i \<noteq> None" using assms(2) by (auto simp: ai_ok_def)
  show ?thesis
  proof (cases isBatch)
    case True
    then have "Store x repo idx b True s = (Ret None, s')" using assms(1) by simp
    then show ?thesis
      by (rule Store_batch [OF _ vals]) (use assms(2,5,6) in \<open>simp add: address_map_ok_put\<close>)
  next
    case False
    then have "Store x repo idx b False s = (Ret None, s')"
      and "old_seqs_ok x (store (blockDB s)) (biBlockNumber b)" using assms(1,4) by simp_all
    then show ?thesis
      by (rule Store_realtime [OF _ vals assms(3)])
         (use assms in \<open>simp add: address_map_ok_put address_map_ok_delete block_map_ok_put\<close>)
  qed
qed

lemma GetTransactionByAddress_time:
  assumes "address_map_ok (store (addressDB s))" "addr_ok x a" "times_ok f t" "\<not> tIsZero f \<or> \<not> tIsZero t"
  shows "GetTransactionByAddress x repo a rows start f t s =
    (let p = find_spec True rows start (entries x (store (addressDB s)) a (in_times f t))
     in Ret (fst p, map (to_index x) (snd p)))"
proof -
  let ?p = "find_spec True rows start (entries x (store (addressDB s)) a (in_times f t))"
  have "omap (keyValueToAddressIndex x) (snd ?p) = Ret (map (to_index x) (snd ?p))"
    by (rule omap_index [OF assms(1) adr.dao_finite]) (use set_find_spec set_entries_kvs in blast)
  then show ?thesis
    using assms
    by (auto simp: GetTransactionByAddress_def adr.FindByRange_eq range_kvs_time adr.dao_finite
        split_beta Let_def)
qed

lemma GetTransactionByAddress_all:
  assumes "address_map_ok (store (addressDB s))" "addr_ok x a" "tIsZero f" "tIsZero t"
  shows "GetTransactionByAddress x repo a rows start f t s =
    (let p = find_spec False rows start (entries x (store (addressDB s)) a (\<lambda>_. True))
     in Ret (fst p, map (to_index x) (snd p)))"
proof -
  let ?p = "find_spec False rows start (entries x (store (addressDB s)) a (\<lambda>_. True))"
  have "omap (keyValueToAddressIndex x) (snd ?p) = Ret (map (to_index x) (snd ?p))"
    by (rule omap_index [OF assms(1) adr.dao_finite]) (use set_find_spec set_entries_kvs in blast)
  moreover have "addr_bytes x a \<noteq> []" using assms(2) by (auto simp: addr_ok_def)
  ultimately show ?thesis
    using assms
    by (simp add: GetTransactionByAddress_def MarshallAddressKeyPrefix_def addr_bytes_def [symmetric]
        adr.FindByKeyPrefix_eq prefix_kvs adr.dao_finite split_beta Let_def)
qed

lemma GetTotalTransaction_eq:
  assumes "address_map_ok (store (addressDB s))" "addr_ok x a" "times_ok f t"
  shows "GetTotalTransaction x repo a f t s =
    Ret (int (length (entries x (store (addressDB s)) a (in_times f t))))"
proof (cases "tIsZero f \<and> tIsZero t")
  case True
  then have "in_times f t = (\<lambda>_. True)" by (simp add: in_times_def fun_eq_iff)
  moreover have "length (addr_bytes x a) \<noteq> 0" using assms(2) by (simp add: addr_ok_def)
  ultimately show ?thesis
    using True assms
    by (simp add: GetTotalTransaction_def MarshallAddressKeyPrefix_def addr_bytes_def [symmetric]
        adr.CountByKeyPrefix_eq prefix_kvs adr.dao_finite)
next
  case False
  then show ?thesis
    using assms by (auto simp: GetTotalTransaction_def adr.CountByRange_eq range_kvs_time adr.dao_finite)
qed

lemma block_kv:
  assumes "block_map_ok x (store (blockDB s))" "kv \<in> set (kvs (store (blockDB s)))"
  obtains b where "bi_ok x b" "kv = \<lparr>kvKey = MarshallBlockKey (biBlockNumber b), kvValue = block_value x b\<rparr>"
    "keyValueToBlockIndex x kv = Ret (norm_block x b)"
  using assms set_kvs [OF blk.dao_finite, of kv "blockDB s"] keyValueToBlockIndex_ok
  by (cases kv) (fastforce simp: block_map_ok_def)

lemma created_before_ok:
  assumes "block_map_ok x (store (blockDB s))" "kv \<in> set (kvs (store (blockDB s)))"
  shows "created_before x u kv = Ret (created_of kv < u)"
proof -
  obtain b where b: "bi_ok x b" "kv = \<lparr>kvKey = MarshallBlockKey (biBlockNumber b), kvValue = block_value x b\<rparr>"
    "keyValueToBlockIndex x kv = Ret (norm_block x b)"
    by (rule block_kv [OF assms])
  obtain c where c: "biCreatedAt b = Some c" "time_ok c" using b(1) by (auto simp: bi_ok_def)
  have "created_of kv = c"
    using UnmarshallTimeToInt_Marshall [OF c(2)] c
    by (simp add: b(2) created_of_def block_value_def UnmarshallTimeToInt_def)
  then show ?thesis using b(3) c(1) by (simp add: created_before_def norm_block_def)
qed

lemma DeleteOldBlocks_Ret:
  assumes "block_map_ok x (store (blockDB s))" "DeleteOldBlocks x repo u s = (Ret (n, None), s')"
  obtains d where "s' = s\<lparr>blockDB := d\<rparr>"
    "n = int (length (takeWhile (\<lambda>kv. created_of kv < u) (kvs (store (blockDB s)))))"
    "store d = delete_all
      (map kvKey (takeWhile (\<lambda>kv. created_of kv < u) (kvs (store (blockDB s))))) (store (blockDB s))"
proof -
  have "take_pred (created_before x u) (kvs (store (blockDB s))) =
      Ret (takeWhile (\<lambda>kv. created_of kv < u) (kvs (store (blockDB s))))"
    by (rule take_pred_Ret) (rule created_before_ok [OF assms(1)])
  then show ?thesis
    using assms(2) blk.BatchDelete_store that
    by (auto simp: DeleteOldBlocks_def blk.GetNFirstPredicate_eq bnd_apply on_block_def split: prod.splits)
qed

lemma GetLastBlock_snoc:
  assumes "kvs (store (blockDB s)) = l @ [kv]"
  shows "GetLastBlock x repo s = obind (keyValueToBlockIndex x kv) (\<lambda>b. Ret (Inr b))"
  by (simp add: GetLastBlock_def blk.GetNLastRecords_eq last_spec_def assms)

lemma GetLastBlock_empty:
  "store (blockDB s) = Map.empty \<Longrightarrow> GetLastBlock x repo s = Ret (Inl ''no last record'')"
  by (simp add: GetLastBlock_def blk.GetNLastRecords_eq last_spec_def kvs_def)

end

sublocale leveldb_laws \<subseteq> ldr: index_repo x "NewKVIndexRepo (LevelDbDAO x api) (LevelDbDAO x api)" store
  by (simp add: index_repo_def external_axioms NewKVIndexRepo_def ld.kv_dao_axioms)

sublocale memdb_laws \<subseteq> mdr: index_repo x "NewKVIndexRepo (MemDbDAO x api) (MemDbDAO x api)" store
  by (simp add: index_repo_def external_axioms NewKVIndexRepo_def md.kv_dao_axioms)

text \<open>A data access object whose writes report no error, and the outcome of \<open>Store\<close> on two such.\<close>

definition dao_writes :: "'db KeyValueDAO \<Rightarrow> bool" where
  "dao_writes dao \<longleftrightarrow>
     (\<forall>l d. fst (BatchPut dao l d) = None) \<and> (\<forall>ks d. fst (BatchDelete dao ks d) = None) \<and>
     (\<forall>kv d. fst (Put dao kv d) = None) \<and> (\<forall>k d. fst (DeleteByKey dao k d) = None)"

context index_repo
begin

lemma SaveAddressIndex_returns:
  assumes "dao_writes (addressDAO repo)" "\<forall>i \<in> set idx. aiValue i \<noteq> None"
  shows "\<exists>d. SaveAddressIndex x repo idx s = (Ret None, s\<lparr>addressDB := d\<rparr>)"
  using assms
  by (auto simp: SaveAddressIndex_def address_kvs_ok bnd_apply on_address_def dao_writes_def
      split: prod.splits option.splits) (metis fst_conv option.distinct(1))

lemma SaveBlockIndex_returns:
  assumes "dao_writes (blockDAO repo)" "bi_ok x b"
  shows "\<exists>d. SaveBlockIndex x repo b s = (Ret None, s\<lparr>blockDB := d\<rparr>)"
  using assms
  by (auto simp: SaveBlockIndex_def MarshallBlockValue_ok bnd_apply on_block_def dao_writes_def
      split: prod.splits option.splits) (metis fst_conv option.distinct(1))

lemma undo_old_block_returns:
  assumes "dao_writes (addressDAO repo)" "block_map_ok x (store (blockDB s))"
    and "old_seqs_ok x (store (blockDB s)) (biBlockNumber b)"
  shows "\<exists>d. undo_old_block x repo b s = (Ret None, s\<lparr>addressDB := d\<rparr>)"
proof (cases "store (blockDB s) (MarshallBlockKey (biBlockNumber b))")
  case None
  then show ?thesis
    using blk.FindByKey_None [OF None] exI [of _ "addressDB s"]
    by (auto simp: undo_old_block_def MarshallBlockKey_def)
next
  case (Some v)
  then obtain old where old: "bi_ok x old" "v = block_value x old"
    using assms(2) by (auto simp: block_map_ok_def)
  let ?old = "(norm_block x old)\<lparr>biBlockNumber := []\<rparr>"
  have un: "UnmarshallBlockValue x v = Ret ?old" using Unmarshall_block_value [OF old(1)] old(2) by simp
  then have "\<forall>a \<in> set (biAddresses ?old). Sequence a \<noteq> 255"
    using assms(3) Some by (simp add: old_seqs_ok_def seqs_ok_def)
  then have keys: "reorg_keys x t (biAddresses ?old) [] = Ret (block_keys x t (biAddresses ?old))" for t
    by (simp add: reorg_keys_ends)
  obtain d where "\<exists>e. BatchDelete (addressDAO repo) (block_keys x (biTime ?old) (biAddresses ?old)) (addressDB s) = (None, d)"
    using assms(1) by (metis dao_writes_def prod.collapse)
  then show ?thesis
    using blk.FindByKey_Some [OF Some] un keys exI [of _ "addressDB s"]
    by (auto simp: undo_old_block_def MarshallBlockKey_def bnd_apply HandleReorg_def on_address_def)
qed

lemma Store_returns:
  assumes "dao_writes (addressDAO repo)" "dao_writes (blockDAO repo)"
    and "\<forall>i \<in> set idx. aiValue i \<noteq> None" "bi_ok x b" "block_map_ok x (store (blockDB s))"
    and "old_seqs_ok x (store (blockDB s)) (biBlockNumber b)"
  shows "\<exists>s'. Store x repo idx b isBatch s = (Ret None, s')"
proof -
  obtain d where "undo_old_block x repo b s = (Ret None, s\<lparr>addressDB := d\<rparr>)"
    using undo_old_block_returns [OF assms(1,5,6)] by blast
  moreover obtain d1 where "SaveAddressIndex x repo idx (s\<lparr>addressDB := d\<rparr>) = (Ret None, s\<lparr>addressDB := d1\<rparr>)"
    using SaveAddressIndex_returns [OF assms(1,3), of "s\<lparr>addressDB := d\<rparr>"] by auto
  moreover obtain d2 where "SaveAddressIndex x repo idx s = (Ret None, s\<lparr>addressDB := d2\<rparr>)"
    using SaveAddressIndex_returns [OF assms(1,3)] by blast
  moreover obtain d3 where "SaveBlockIndex x repo b (s\<lparr>addressDB := d1\<rparr>) = (Ret None, s\<lparr>addressDB := d1, blockDB := d3\<rparr>)"
    using SaveBlockIndex_returns [OF assms(2,4)] by blast
  ultimately show ?thesis by (auto simp: Store_def bnd_apply)
qed

text \<open>Whatever the outcome, the block record is written only after all the address entries.\<close>

lemma on_address_blockDB: "on_address f s = (r, s') \<Longrightarrow> blockDB s' = blockDB s"
  by (auto simp: on_address_def split: prod.splits)

lemma SaveAddressIndex_blockDB:
  "SaveAddressIndex x repo idx s = (r, s') \<Longrightarrow> blockDB s' = blockDB s"
  by (auto simp: SaveAddressIndex_def bnd_apply split: prod.splits outcome.splits option.splits
      dest: on_address_blockDB)

lemma undo_old_block_blockDB:
  "undo_old_block x repo b s = (r, s') \<Longrightarrow> blockDB s' = blockDB s"
  by (auto simp: undo_old_block_def HandleReorg_def bnd_apply
      split: prod.splits outcome.splits sum.splits if_splits dest: on_address_blockDB)

lemma Store_block_last:
  assumes "Store x repo idx b isBatch s = (r, s')" "blockDB s' \<noteq> blockDB s"
    and "\<forall>i \<in> set idx. aiValue i \<noteq> None"
  obtains s1 where "\<not> isBatch" "undo_old_block x repo b s = (Ret None, s1)"
    "store (addressDB s') = put_all (map (entry_of x) idx) (store (addressDB s1))"
proof -
  obtain r1 s1 where undo: "undo_old_block x repo b s = (r1, s1)" by fastforce
  obtain r2 s2 where save: "SaveAddressIndex x repo idx s1 = (r2, s2)" by fastforce
  have "\<not> isBatch"
  proof
    assume isBatch
    obtain r3 s3 where "SaveAddressIndex x repo idx s = (r3, s3)" by fastforce
    then show False
      using assms(1,2) \<open>isBatch\<close> SaveAddressIndex_blockDB
      by (auto simp: Store_def bnd_apply split: if_splits outcome.splits)
  qed
  moreover from this have "r1 = Ret None \<and> r2 = Ret None \<and> SaveBlockIndex x repo b s2 = (r, s')"
    using assms(1,2) undo save undo_old_block_blockDB [OF undo] SaveAddressIndex_blockDB [OF save]
    by (auto simp: Store_def bnd_apply split: if_splits outcome.splits option.splits)
  moreover from this obtain d where "s2 = s1\<lparr>addressDB := d\<rparr>"
    "store d = put_all (map (entry_of x) idx) (store (addressDB s1))"
    using save by (auto elim!: SaveAddressIndex_Ret [OF _ assms(3)])
  moreover have "addressDB s' = addressDB s2" if "SaveBlockIndex x repo b s2 = (r, s')"
    using that by (auto simp: SaveBlockIndex_def bnd_apply on_block_def
        split: prod.splits outcome.splits option.splits)
  ultimately show ?thesis using undo that by auto
qed

end

context leveldb_laws
begin

lemma level_repo: "index_repo x (NewKVIndexRepo (LevelDbDAO x api) (LevelDbDAO x api)) store"
  by (rule ldr.index_repo_axioms)

end

text \<open>The two repositories on the reference store.\<close>

abbreviation refRepo :: "refdb KVIndexRepo" where
  "refRepo \<equiv> NewKVIndexRepo (LevelDbDAO refExt refLevel) (LevelDbDAO refExt refLevel)"

abbreviation refMemRepo :: "refdb KVIndexRepo" where
  "refMemRepo \<equiv> NewKVIndexRepo (MemDbDAO refExt refMem) (MemDbDAO refExt refMem)"

interpretation ref_repo: index_repo refExt refRepo RBT.lookup
  by (rule ref_level.ldr.index_repo_axioms)

interpretation ref_mem_repo: index_repo refExt refMemRepo RBT.lookup
  by (rule ref_mem.mdr.index_repo_axioms)

end
