(* ===== verification/Samples.thy ===== *)
theory Samples
  imports IndexRepoSpec
begin

text \<open>
  Concrete data on the reference store of \<open>RefStore\<close>, on which the properties are instantiated:
  three addresses, a transfer seen from both ends, the block that contains it and the state after
  storing it.
\<close>

definition sAddr :: "byte \<Rightarrow> string" where
  "sAddr b = hexEncode refExt (replicate 20 b)"

definition sHash :: "byte \<Rightarrow> string" where
  "sHash b = hexEncode refExt (replicate 32 b)"

definition sIndex :: "byte \<Rightarrow> 8 word \<Rightarrow> byte \<Rightarrow> int \<Rightarrow> int \<Rightarrow> AddressIndex" where
  "sIndex a q c v t =
     \<lparr>Address = sAddr a, Sequence = q, aiTxHash = sHash 9, aiValue = Some v, aiTime = Some t,
      CoupleAddress = sAddr c\<rparr>"

definition sIdx :: "AddressIndex list" where
  "sIdx = [sIndex 1 1 2 (- 70) 1500000000, sIndex 2 1 1 70 1500000000]"

definition sBlock :: "string \<Rightarrow> BlockIndex" where
  "sBlock n =
     \<lparr>biBlockNumber = n, biAddresses = [\<lparr>Address = sAddr 1, Sequence = 1\<rparr>, \<lparr>Address = sAddr 2, Sequence = 1\<rparr>],
      biTime = Some 1500000000, biCreatedAt = Some 1550000000\<rparr>"

definition sEmpty :: "refdb IndexDB" where
  "sEmpty = \<lparr>addressDB = RBT.empty, blockDB = RBT.empty\<rparr>"

lemma addr_bytes_sAddr [simp]: "addr_bytes refExt (sAddr b) = replicate 20 b"
  by (simp add: sAddr_def)

lemma addr_bytes_sHash [simp]: "addr_bytes refExt (sHash b) = replicate 32 b"
  by (simp add: sHash_def)

lemma sAddr_ok [simp]: "addr_ok refExt (sAddr b)"
  by (simp add: addr_ok_def)

lemma sHash_ok [simp]: "hash_ok refExt (sHash b)"
  by (simp add: hash_ok_def)

lemma norm_sAddr [simp]: "norm_hex refExt (sAddr b) = sAddr b"
  by (simp add: norm_hex_def) (simp add: sAddr_def)

lemma norm_sHash [simp]: "norm_hex refExt (sHash b) = sHash b"
  by (simp add: norm_hex_def) (simp add: sHash_def)

lemma sIndex_ok [simp]: "time_ok t \<Longrightarrow> ai_ok refExt (sIndex a q c v t)"
  by (simp add: ai_ok_def sIndex_def)

lemma time_ok_sample [simp]: "time_ok 1500000000" "time_ok 1550000000"
  by (simp_all add: time_ok_def)

lemma sIdx_ok [simp]: "\<forall>i \<in> set sIdx. ai_ok refExt i"
  by (simp add: sIdx_def)

lemma sIdx_values [simp]: "\<forall>i \<in> set sIdx. aiValue i \<noteq> None"
  by (simp add: sIdx_def sIndex_def)

lemma dec_one_digit: "n < 10 \<Longrightarrow> dec n = [digit_char n]"
  by (simp add: dec.simps [of n])

lemma dec_last_digit: "10 \<le> n \<Longrightarrow> dec n = dec (n div 10) @ [digit_char (n mod 10)]"
  by (simp add: dec.simps [of n])

lemma sBlock_ok [simp]: "n = dec m \<Longrightarrow> bi_ok refExt (sBlock n)"
  by (auto simp: bi_ok_def sBlock_def)

lemma sEmpty_maps [simp]:
  "address_map_ok (RBT.lookup (addressDB sEmpty))" "block_map_ok refExt (RBT.lookup (blockDB sEmpty))"
  "old_seqs_ok refExt (RBT.lookup (blockDB sEmpty)) n"
  by (simp_all add: sEmpty_def address_map_ok_def block_map_ok_def old_seqs_ok_def)

lemma ref_level_laws: "leveldb_laws refExt refLevel RBT.lookup"
  by (rule ref_level.leveldb_laws_axioms)

lemma ref_mem_laws: "memdb_laws refExt refMem RBT.lookup"
  by (rule ref_mem.memdb_laws_axioms)

end
