(* ===== verification/BatchRepo.thy ===== *)
theory BatchRepo
  imports Marshal Dao
begin

text \<open>
  \<open>KVBatchRepo\<close> (\<open>repository/keyvalue/batch_repo.go\<close>): the progress of the batches, one record per
  batch. The operations take the DAO of the batch database; the state is that database.
\<close>

record 'db KVBatchRepo =
  batchDAO :: "'db KeyValueDAO"

definition NewKVBatchRepo :: "'db KeyValueDAO \<Rightarrow> 'db KVBatchRepo" where
  "NewKVBatchRepo dao = \<lparr>batchDAO = dao\<rparr>"

definition on_batch :: "('db \<Rightarrow> 'r \<times> 'db) \<Rightarrow> ('db, 'r) st" where
  "on_batch f = (\<lambda>d. let (r, d') = f d in (Ret r, d'))"

definition keyValueToBatchStatus :: "KeyValue \<Rightarrow> BatchStatus outcome" where
  "keyValueToBatchStatus kv =
     obind (UnmarshallBatchKey (kvKey kv)) (\<lambda>batch1.
     obind (UnmarshallBatchValue (kvValue kv)) (\<lambda>batch2.
     Ret \<lparr>bsFrom = bsFrom batch1, bsTo = bsTo batch1, bsCreatedAt = bsCreatedAt batch1,
          bsStep = bsStep batch1, bsCurrent = bsCurrent batch2, bsUpdatedAt = bsUpdatedAt batch2\<rparr>))"

definition GetAllBatchStatuses :: "'db KVBatchRepo \<Rightarrow> 'db \<Rightarrow> BatchStatus list outcome" where
  "GetAllBatchStatuses repo d =
     obind (GetAllRecords (batchDAO repo) d) (\<lambda>keyValues. omap keyValueToBatchStatus keyValues)"

definition UpdateBatch :: "'db KVBatchRepo \<Rightarrow> BatchStatus \<Rightarrow> ('db, string option) st" where
  "UpdateBatch repo batch =
     (if bsFrom batch = None \<or> bsTo batch = None \<or> bsStep batch = 0 \<or> bsCreatedAt batch = None
      then ret (Some (''Batch is not valid, value:'' @ BatchStatus_String batch))
      else let key = MarshallBatchKey (bsFrom batch) (bsTo batch) (bsStep batch) (bsCreatedAt batch)
           in bnd (lift (MarshallBatchValue (bsUpdatedAt batch) (bsCurrent batch))) (\<lambda>v.
              on_batch (Put (batchDAO repo) (NewKeyValue key v))))"

definition getBatchStatus :: "bytes \<Rightarrow> bytes \<Rightarrow> BatchStatus outcome" where
  "getBatchStatus key v =
     obind (UnmarshallBatchKey key) (\<lambda>batch.
     obind (UnmarshallBatchValue v) (\<lambda>batchValue.
     Ret (batch\<lparr>bsCurrent := bsCurrent batchValue, bsUpdatedAt := bsUpdatedAt batchValue\<rparr>)))"

text \<open>The private \<open>replaceBatch\<close>; it ignores the error of the deletion.\<close>

definition replaceBatch :: "'db KVBatchRepo \<Rightarrow> BatchStatus \<Rightarrow> int option \<Rightarrow> ('db, string option) st" where
  "replaceBatch repo batch newTo =
     bnd (on_batch (DeleteByKey (batchDAO repo)
            (MarshallBatchKey (bsFrom batch) (bsTo batch) (bsStep batch) (bsCreatedAt batch))))
       (\<lambda>_. UpdateBatch repo (batch\<lparr>bsTo := newTo\<rparr>))"

definition ReplaceBatch :: "'db KVBatchRepo \<Rightarrow> int option \<Rightarrow> int option \<Rightarrow> ('db, string option) st" where
  "ReplaceBatch repo from newTo =
     (\<lambda>d. let (tot, keyValues) = FindByKeyPrefix (batchDAO repo) (MarshallBatchKeyFrom from) True 0 0 d
          in case keyValues of
               [] \<Rightarrow> (Ret None, d)
             | keyValue # _ \<Rightarrow>
                 bnd (lift (getBatchStatus (kvKey keyValue) (kvValue keyValue)))
                   (\<lambda>batch. replaceBatch repo batch newTo) d)"

end
