(* ===== verification/StorageProps.thy ===== *)
theory StorageProps
  imports Samples BatchRepo
begin

text \<open>
  The properties of the stored formats and of the data access layer: order and round trips of the
  keys and values of the three databases, the paging of a query, and where the two implementations
  of \<open>KeyValueDAO\<close> agree and differ.
\<close>

section \<open>Formats\<close>

text \<open>
  C19. Keys of the address database sort by address, then by time, then by sequence: the byte order
  of two marshalled keys is the lexicographic order of the triples, inside the four-byte window of
  times. The range queries by time rest on this.
\<close>

theorem address_key_order:
  assumes "addr_ok x a" "addr_ok x b" "time_ok t" "time_ok u"
  shows "MarshallAddressKeyStr x a (Some t) p < MarshallAddressKeyStr x b (Some u) q \<longleftrightarrow>
    addr_bytes x a < addr_bytes x b \<or>
    addr_bytes x a = addr_bytes x b \<and> (t < u \<or> t = u \<and> p < q)"
  using assms
  by (simp add: MarshallAddressKeyStr_enc enc_key_less_iff addr_ok_def less_AddrKey_def)

theorem address_key_order_witness:
  "MarshallAddressKeyStr refExt (sAddr 7) (Some 1500000000) 200
   < MarshallAddressKeyStr refExt (sAddr 7) (Some 1550000000) 1"
  using address_key_order [of refExt "sAddr 7" "sAddr 7" 1500000000 1550000000 200 1] by simp

text \<open>
  C20. Writing index entries and reading them back gives every entry with its hash and its two
  addresses in printed form, its time, and the absolute value of its amount. The sign of the amount
  and the sequence do not come back.
\<close>

theorem address_entries_roundtrip:
  assumes "external x" "\<forall>i \<in> set idx. ai_ok x i"
  shows "obind (address_kvs x idx) (omap (keyValueToAddressIndex x)) =
    Ret (map (\<lambda>i. \<lparr>Address = norm_hex x (Address i), Sequence = 0,
                   aiTxHash = norm_hex x (aiTxHash i), aiValue = Some \<bar>the (aiValue i)\<bar>,
                   aiTime = aiTime i, CoupleAddress = norm_hex x (CoupleAddress i)\<rparr>) idx)"
proof -
  have "address_kvs x idx = Ret (map (entry_of x) idx)"
    by (rule address_kvs_ok) (use assms(2) in \<open>auto simp: ai_ok_def\<close>)
  moreover have "keyValueToAddressIndex x (entry_of x i) = Ret (norm_index x i)" if "i \<in> set idx" for i
    using assms(2) that by (simp add: keyValueToAddressIndex_entry)
  moreover have "aiValue i = Some v \<Longrightarrow> the (aiValue i) = v" for i v by simp
  ultimately show ?thesis
    using assms(2)
    by (auto simp: omap_map omap_Ret [where g = "norm_index x"] norm_index_def ai_ok_def)
qed

theorem address_entries_roundtrip_witness:
  "obind (address_kvs refExt sIdx) (omap (keyValueToAddressIndex refExt)) =
   Ret [\<lparr>Address = sAddr 1, Sequence = 0, aiTxHash = sHash 9, aiValue = Some 70,
         aiTime = Some 1500000000, CoupleAddress = sAddr 2\<rparr>,
        \<lparr>Address = sAddr 2, Sequence = 0, aiTxHash = sHash 9, aiValue = Some 70,
         aiTime = Some 1500000000, CoupleAddress = sAddr 1\<rparr>]"
  using address_entries_roundtrip [OF ref_ext.external_axioms, of sIdx]
  by (simp add: sIdx_def sIndex_def)

text \<open>
  Writing a block index and reading its value back gives the same times, and every address with
  its sequence, in order. The block number is in the key only.
\<close>

lemma block_roundtrip:
  assumes "external x" "biCreatedAt b = Some c" "biTime b = Some t" "time_ok c" "time_ok t"
    and "\<forall>a \<in> set (biAddresses b). addr_ok x (Address a)"
  shows "obind (MarshallBlockValue x b) (UnmarshallBlockValue x) =
    Ret (b\<lparr>biBlockNumber := [],
           biAddresses := map (\<lambda>a. a\<lparr>Address := norm_hex x (Address a)\<rparr>) (biAddresses b)\<rparr>)"
  using assms by (rule external.block_value_roundtrip)

text \<open>
  C21. A batch record written under its key is read back unchanged, while its block numbers have at
  most nine digits.
\<close>

theorem batch_roundtrip:
  assumes "blocknum_ok f" "blocknum_ok t" "time_ok u" "0 \<le> c"
  shows "obind (MarshallBatchValue (Some u) (Some c)) (\<lambda>v.
      keyValueToBatchStatus (NewKeyValue (MarshallBatchKey (Some f) (Some t) step (Some created)) v)) =
    Ret \<lparr>bsFrom = Some f, bsTo = Some t, bsCreatedAt = Some created, bsStep = step,
         bsCurrent = Some c, bsUpdatedAt = Some u\<rparr>"
  using batch_key_roundtrip [OF assms(1,2), of step created] batch_value_roundtrip [OF assms(3,4)]
  by (auto simp: obind_eq_Ret keyValueToBatchStatus_def NewKeyValue_def emptyBatchStatus_def)

theorem batch_roundtrip_witness:
  "obind (MarshallBatchValue (Some 1500000000) (Some 12)) (\<lambda>v.
     keyValueToBatchStatus (NewKeyValue (MarshallBatchKey (Some 5) (Some 999999999) 2 (Some 1550000000)) v)) =
   Ret \<lparr>bsFrom = Some 5, bsTo = Some 999999999, bsCreatedAt = Some 1550000000, bsStep = 2,
        bsCurrent = Some 12, bsUpdatedAt = Some 1500000000\<rparr>"
  using batch_roundtrip [of 5 999999999 1500000000 12 2 1550000000]
  by (simp add: blocknum_ok_def)

text \<open>
  From block number 1000000000 on the padding drops the number: any two batches with the same
  start, step and creation time and ends in that range share one key, so that one overwrites the
  other.
\<close>

lemma batch_key_collision:
  assumes "10 ^ 9 \<le> t" "10 ^ 9 \<le> u"
  shows "MarshallBatchKey from (Some t) step created = MarshallBatchKey from (Some u) step created"
  using assms by (simp add: MarshallBatchKey_def blockNumberWidPad_big)

text \<open>
  A time given in milliseconds is stored as the same four bytes as the time in seconds, for any
  time from 2001-09-09 to the end of the ten-digit seconds.
\<close>

lemma marshall_time_millis:
  assumes "10 ^ 9 \<le> t" "t < 10 ^ 10" "0 \<le> r" "r < 1000"
  shows "MarshallTime (Some (t * 1000 + r)) = MarshallTime (Some t)"
  using assms by (rule MarshallTime_millis)

section \<open>The data access layer\<close>

text \<open>
  C22. \<open>FindByKeyPrefix\<close> of the LevelDB implementation returns the records whose key has the prefix, in
  key order or in reverse, from number \<open>start\<close> on and at most \<open>rows\<close> of them, cut at the first
  10001 records; the total is the number of such records, at most 10001.
\<close>

theorem find_by_prefix:
  assumes "leveldb_laws x api store"
  shows "FindByKeyPrefix (LevelDbDAO x api) p asc rows start db =
    (let xs = take 10001 ((if asc then id else rev) (filter (\<lambda>kv. prefix p (kvKey kv)) (kvs (store db))))
     in (int (length xs), take (nat rows) (drop (nat start) xs)))"
  using kv_dao.FindByKeyPrefix_eq [OF leveldb_laws.level_dao [OF assms]]
  by (simp add: find_spec_def NumMaxTransaction_def)

theorem find_by_prefix_witness:
  "FindByKeyPrefix (LevelDbDAO refExt refLevel) [1] False 1 0 (RBT.insert [1, 2] [5] (RBT.insert [1] [4] RBT.empty))
   = (2, [\<lparr>kvKey = [1, 2], kvValue = [5]\<rparr>])"
  using find_by_prefix [OF ref_level_laws, of "[1]" False 1 0 "RBT.insert [1, 2] [5] (RBT.insert [1] [4] RBT.empty)"]
  by (simp add: kvs_two)

text \<open>
  Pages tile: the page of \<open>m + n\<close> records from \<open>start\<close> on is the page of \<open>m\<close> records followed by
  the page of \<open>n\<close> records from \<open>start + m\<close> on, and every page reports the same total.
\<close>

lemma pages_tile:
  assumes "leveldb_laws x api store" "0 \<le> m" "0 \<le> n" "0 \<le> start"
  shows "FindByKeyPrefix (LevelDbDAO x api) p asc (m + n) start db =
    (fst (FindByKeyPrefix (LevelDbDAO x api) p asc m start db),
     snd (FindByKeyPrefix (LevelDbDAO x api) p asc m start db) @
     snd (FindByKeyPrefix (LevelDbDAO x api) p asc n (start + m) db))"
  using kv_dao.FindByKeyPrefix_eq [OF leveldb_laws.level_dao [OF assms(1)]] assms(2-4)
  by (simp add: find_spec_def Let_def take_add nat_add_distrib add.commute)

text \<open>
  C23. The two implementations answer every query alike on databases with the same content: pages,
  counts, single keys that are there, first and last records, predicates and full listings.
\<close>

theorem daos_agree:
  assumes "leveldb_laws x api store" "memdb_laws x mapi mstore" "store db = mstore mdb"
  defines "L \<equiv> LevelDbDAO x api" and "M \<equiv> MemDbDAO x mapi"
  shows "FindByKeyPrefix L p asc rows start db = FindByKeyPrefix M p asc rows start mdb \<and>
    FindByRange L rg asc rows start db = FindByRange M rg asc rows start mdb \<and>
    CountByKeyPrefix L p db = CountByKeyPrefix M p mdb \<and> CountByRange L rg db = CountByRange M rg mdb \<and>
    (\<forall>kv. FindByKey L k db = Inr kv \<longleftrightarrow> FindByKey M k mdb = Inr kv) \<and>
    GetNFirstRecords L n db = GetNFirstRecords M n mdb \<and> GetNLastRecords L n db = GetNLastRecords M n mdb \<and>
    GetNFirstPredicate L pre db = GetNFirstPredicate M pre mdb \<and> GetAllRecords L db = GetAllRecords M mdb"
  unfolding L_def M_def
  using kv_dao_agree [OF leveldb_laws.level_dao [OF assms(1)] memdb_laws.mem_dao [OF assms(2)] assms(3)]
  by blast

theorem daos_agree_witness:
  "FindByKeyPrefix (LevelDbDAO refExt refLevel) [1] True 3 0 (RBT.insert [1] [4] RBT.empty) =
   FindByKeyPrefix (MemDbDAO refExt refMem) [1] True 3 0 (RBT.insert [1] [4] RBT.empty)"
  using daos_agree [OF ref_level_laws ref_mem_laws, of "RBT.insert [1] [4] RBT.empty" "RBT.insert [1] [4] RBT.empty"]
  by blast

text \<open>
  They differ when a batch of keys to delete starts with a key that is not there: the LevelDB
  implementation deletes the others, the in-memory one stops with an error and deletes nothing.
\<close>

lemma batch_delete_differs:
  assumes "leveldb_laws x api store" "memdb_laws x mapi mstore"
    and "BatchDelete (LevelDbDAO x api) (k # ks) db = (None, db')" "mstore mdb k = None"
  shows "store db' = store db |` (- set (k # ks)) \<and>
    (\<exists>e. BatchDelete (MemDbDAO x mapi) (k # ks) mdb = (Some e, mdb))"
  using kv_dao.BatchDelete_store [OF leveldb_laws.level_dao [OF assms(1)] assms(3)]
    memdb_laws.md_BatchDelete_missing [OF assms(2,4), of ks]
  by (auto simp: delete_all_def MemDbDAO_def)

end
