(* ===== verification/RepoProps.thy ===== *)
theory RepoProps
  imports StorageProps
begin

text \<open>
  The properties of \<open>KVIndexRepo\<close> over LevelDB: what \<open>Store\<close> leaves in the two databases, also when a
  block is replaced, the invariants of every reachable state, and what the queries return.
\<close>

abbreviation levelRepo :: "ext \<Rightarrow> ('db, 'it) leveldb \<Rightarrow> 'db KVIndexRepo" where
  "levelRepo x api \<equiv> NewKVIndexRepo (LevelDbDAO x api) (LevelDbDAO x api)"

text \<open>Writes to the database that report no error.\<close>

definition level_writes :: "('db, 'it) leveldb \<Rightarrow> bool" where
  "level_writes api \<longleftrightarrow>
     (\<forall>db k v. fst (dbPut api db k v) = None) \<and> (\<forall>db k. fst (dbDelete api db k) = None) \<and>
     (\<forall>db ops. fst (dbWrite api db ops) = None)"

lemma dao_writes_level: "level_writes api \<Longrightarrow> dao_writes (LevelDbDAO x api)"
  by (simp add: level_writes_def dao_writes_def LevelDbDAO_def ld_Put_def ld_BatchPut_def
      ld_BatchDelete_def ld_DeleteByKey_def)

lemma level_writes_ref [simp]: "level_writes refLevel"
  by (simp add: level_writes_def refLevel_def)

lemma dao_sel [simp]:
  "addressDAO (NewKVIndexRepo a b) = a" "blockDAO (NewKVIndexRepo a b) = b"
  by (simp_all add: NewKVIndexRepo_def)

section \<open>Storing a block\<close>

lemma Store_level:
  assumes "leveldb_laws x api store" "level_writes api"
    and "\<forall>i \<in> set idx. aiValue i \<noteq> None" "bi_ok x b" "block_map_ok x (store (blockDB s))"
    and "old_seqs_ok x (store (blockDB s)) (biBlockNumber b)"
  obtains s' where "Store x (levelRepo x api) idx b False s = (Ret None, s')"
    "store (addressDB s') = put_all (map (entry_of x) idx)
       (delete_all (old_keys x (store (blockDB s)) (biBlockNumber b)) (store (addressDB s)))"
    "store (blockDB s') = (store (blockDB s))(MarshallBlockKey (biBlockNumber b) \<mapsto> block_value x b)"
proof -
  note repo = leveldb_laws.level_repo [OF assms(1)]
  obtain s' where s': "Store x (levelRepo x api) idx b False s = (Ret None, s')"
    using index_repo.Store_returns [OF repo, of idx b s False] dao_writes_level assms by auto
  show ?thesis
    by (rule index_repo.Store_realtime [OF repo s' assms(3,4,6)]) (rule that [OF s'], simp_all)
qed

text \<open>The sample block stored in the empty state.\<close>

lemma sStored:
  obtains s where
    "Store refExt (levelRepo refExt refLevel) sIdx (sBlock (dec n)) False sEmpty = (Ret None, s)"
    "RBT.lookup (addressDB s) = put_all (map (entry_of refExt) sIdx) Map.empty"
    "RBT.lookup (blockDB s) = [MarshallBlockKey (dec n) \<mapsto> block_value refExt (sBlock (dec n))]"
    "block_map_ok refExt (RBT.lookup (blockDB s))"
proof (rule Store_level [OF ref_level_laws level_writes_ref sIdx_values sBlock_ok [OF refl] sEmpty_maps(2,3)])
  fix s'
  assume st: "Store refExt (levelRepo refExt refLevel) sIdx (sBlock (dec n)) False sEmpty = (Ret None, s')"
    and a: "RBT.lookup (addressDB s') = put_all (map (entry_of refExt) sIdx)
      (delete_all (old_keys refExt (RBT.lookup (blockDB sEmpty)) (biBlockNumber (sBlock (dec n))))
        (RBT.lookup (addressDB sEmpty)))"
    and b: "RBT.lookup (blockDB s') = (RBT.lookup (blockDB sEmpty))
      (MarshallBlockKey (biBlockNumber (sBlock (dec n))) \<mapsto> block_value refExt (sBlock (dec n)))"
  have num: "biBlockNumber (sBlock (dec n)) = dec n" by (simp add: sBlock_def)
  show thesis
  proof (rule that [OF st])
    show "RBT.lookup (addressDB s') = put_all (map (entry_of refExt) sIdx) Map.empty"
      using a by (simp add: sEmpty_def old_keys_def)
    show "RBT.lookup (blockDB s') = [MarshallBlockKey (dec n) \<mapsto> block_value refExt (sBlock (dec n))]"
      using b num by (simp add: sEmpty_def)
    show "block_map_ok refExt (RBT.lookup (blockDB s'))"
      unfolding b by (rule block_map_ok_put [OF sEmpty_maps(2) sBlock_ok [OF refl]])
  qed
qed

text \<open>
  C7. Storing a block in real time returns, and updates the two databases as specified: the entries
  recorded for the block previously stored under that number are removed, then the new entries are
  put, and the block record replaces the old one.
\<close>

theorem store_realtime:
  assumes "leveldb_laws x api store" "level_writes api"
    and "\<forall>i \<in> set idx. aiValue i \<noteq> None" "bi_ok x b" "block_map_ok x (store (blockDB s))"
    and "old_seqs_ok x (store (blockDB s)) (biBlockNumber b)"
  shows "\<exists>s'. Store x (levelRepo x api) idx b False s = (Ret None, s') \<and>
    store (addressDB s') = put_all (map (entry_of x) idx)
      (delete_all (old_keys x (store (blockDB s)) (biBlockNumber b)) (store (addressDB s))) \<and>
    store (blockDB s') = (store (blockDB s))(MarshallBlockKey (biBlockNumber b) \<mapsto> block_value x b)"
  by (rule Store_level [OF assms]) blast

theorem store_realtime_witness:
  "\<exists>s'. Store refExt (levelRepo refExt refLevel) sIdx (sBlock (dec 7)) False sEmpty = (Ret None, s') \<and>
    RBT.lookup (addressDB s') = put_all (map (entry_of refExt) sIdx) Map.empty"
  using store_realtime [OF ref_level_laws level_writes_ref sIdx_values sBlock_ok [OF refl] sEmpty_maps(2,3)]
  by (auto simp: old_keys_def sEmpty_def)

text \<open>
  Storing a block of a batch puts its entries and touches neither the block database nor any
  entry already there under another key.
\<close>

lemma store_batch:
  assumes "leveldb_laws x api store" "Store x (levelRepo x api) idx b True s = (Ret None, s')"
    and "\<forall>i \<in> set idx. aiValue i \<noteq> None"
  shows "store (addressDB s') = put_all (map (entry_of x) idx) (store (addressDB s)) \<and>
    blockDB s' = blockDB s"
  by (rule index_repo.Store_batch [OF leveldb_laws.level_repo [OF assms(1)] assms(2,3)]) simp

text \<open>
  C18. A block record is the last write of \<open>Store\<close>: in whatever way the call ends, an error or a panic
  included, a changed block database means that all entries of the block are in the address database.
\<close>

theorem block_record_last:
  assumes "leveldb_laws x api store" "Store x (levelRepo x api) idx b isBatch s = (r, s')"
    and "blockDB s' \<noteq> blockDB s" "\<forall>i \<in> set idx. aiValue i \<noteq> None"
  shows "\<not> isBatch \<and> (\<forall>i \<in> set idx. store (addressDB s') (MarshallAddressKey x i) \<noteq> None)"
proof (rule index_repo.Store_block_last [OF leveldb_laws.level_repo [OF assms(1)] assms(2-4)])
  fix s1
  assume "\<not> isBatch" and eq: "store (addressDB s') = put_all (map (entry_of x) idx) (store (addressDB s1))"
  moreover have "put_all (map (entry_of x) idx) m (MarshallAddressKey x i) \<noteq> None" if "i \<in> set idx" for m i
    using put_all_dom [of "entry_of x i" "map (entry_of x) idx" m] that by (simp add: entry_of_def)
  ultimately show ?thesis by simp
qed

theorem block_record_last_witness:
  "RBT.lookup (addressDB (snd (Store refExt (levelRepo refExt refLevel) sIdx (sBlock (dec 7)) False sEmpty)))
     (MarshallAddressKey refExt (hd sIdx)) \<noteq> None"
proof -
  obtain s' where s': "Store refExt (levelRepo refExt refLevel) sIdx (sBlock (dec 7)) False sEmpty = (Ret None, s')"
    "RBT.lookup (blockDB s') = [MarshallBlockKey (dec 7) \<mapsto> block_value refExt (sBlock (dec 7))]"
    by (rule sStored)
  then have "RBT.lookup (blockDB s') \<noteq> RBT.lookup (blockDB sEmpty)"
    by (auto simp: sEmpty_def fun_eq_iff intro: exI [of _ "MarshallBlockKey (dec 7)"])
  then have "blockDB s' \<noteq> blockDB sEmpty" by metis
  from block_record_last [OF ref_level_laws s'(1) this sIdx_values] s'(1) show ?thesis by (simp add: sIdx_def)
qed

section \<open>Reorganisation\<close>

text \<open>
  C9. \<open>HandleReorg\<close> returns if and only if no address of the old block has the sequence 255: with
  that sequence the \<open>uint8\<close> counter of the loop wraps around and the loop never ends. When the writes
  succeed, what it removes is exactly the keys of the sequences from 1 to the recorded one.
\<close>

theorem reorg_returns_iff:
  assumes "leveldb_laws x api store" "level_writes api"
  shows "((\<exists>e s'. HandleReorg x (levelRepo x api) t as s = (Ret e, s')) \<longleftrightarrow> (\<forall>a \<in> set as. Sequence a \<noteq> 255)) \<and>
    (\<forall>s'. HandleReorg x (levelRepo x api) t as s = (Ret None, s') \<longrightarrow>
       store (addressDB s') = store (addressDB s) |`
         {k. \<nexists>a q. a \<in> set as \<and> 1 \<le> unat q \<and> unat q \<le> unat (Sequence a) \<and> k = MarshallAddressKeyStr x (Address a) t q})"
proof (cases "\<forall>a \<in> set as. Sequence a \<noteq> 255")
  case True
  note repo = leveldb_laws.level_repo [OF assms(1)]
  have keys: "set (block_keys x t as) =
      {k. \<exists>a q. a \<in> set as \<and> 1 \<le> unat q \<and> unat q \<le> unat (Sequence a) \<and> k = MarshallAddressKeyStr x (Address a) t q}"
    by (fastforce simp: block_keys_def in_seq_range)
  then have compl: "- set (block_keys x t as) =
      {k. \<nexists>a q. a \<in> set as \<and> 1 \<le> unat q \<and> unat q \<le> unat (Sequence a) \<and> k = MarshallAddressKeyStr x (Address a) t q}"
    by auto
  have "\<exists>e s'. HandleReorg x (levelRepo x api) t as s = (Ret e, s')"
    using reorg_keys_ends [OF True] by (auto simp: HandleReorg_def bnd_apply on_address_def split: prod.splits)
  moreover have "store (addressDB s') = delete_all (block_keys x t as) (store (addressDB s))"
    if "HandleReorg x (levelRepo x api) t as s = (Ret None, s')" for s'
    by (rule index_repo.HandleReorg_Ret [OF repo that True]) simp
  ultimately show ?thesis using True by (auto simp: delete_all_def compl)
next
  case False
  then have "HandleReorg x (levelRepo x api) t as s = (Diverge, s)"
    using index_repo.HandleReorg_diverges [OF leveldb_laws.level_repo [OF assms(1)]] by auto
  with False show ?thesis by auto
qed

theorem reorg_returns_iff_witness:
  "\<not> (\<exists>e s'. HandleReorg refExt (levelRepo refExt refLevel) (Some 1500000000)
        [\<lparr>Address = sAddr 1, Sequence = 255\<rparr>] sEmpty = (Ret e, s'))"
  using reorg_returns_iff [OF ref_level_laws level_writes_ref, of "Some 1500000000"
      "[\<lparr>Address = sAddr 1, Sequence = 255\<rparr>]" sEmpty]
  by simp

text \<open>
  A block index that records, for every entry of the block, the address with a sequence at least the
  entry's.
\<close>

definition covers :: "BlockIndex \<Rightarrow> AddressIndex list \<Rightarrow> bool" where
  "covers b idx \<longleftrightarrow>
     (\<forall>i \<in> set idx. aiTime i = biTime b \<and> 1 \<le> unat (Sequence i) \<and>
        (\<exists>a \<in> set (biAddresses b). Address a = Address i \<and> unat (Sequence i) \<le> unat (Sequence a)))"

lemma covers_keys:
  assumes "covers b idx" "i \<in> set idx"
  shows "kvKey (entry_of x i) \<in> set (block_keys x (biTime b) (biAddresses b))"
proof -
  obtain a where "a \<in> set (biAddresses b)" "Address a = Address i"
    "aiTime i = biTime b" "1 \<le> unat (Sequence i)" "unat (Sequence i) \<le> unat (Sequence a)"
    using assms by (auto simp: covers_def)
  then show ?thesis
    by (auto simp: entry_of_def MarshallAddressKey_def block_keys_def in_seq_range intro!: bexI [of _ a])
qed

lemma old_keys_stored:
  assumes "external x" "bi_ok x b" "m (MarshallBlockKey (biBlockNumber b)) = Some (block_value x b)"
  shows "old_keys x m (biBlockNumber b) = block_keys x (biTime b) (biAddresses b)"
  using assms external.Unmarshall_block_value [OF assms(1,2)] external.block_keys_norm [OF assms(1)]
  by (simp add: old_keys_def norm_block_def)

text \<open>
  C8. A reorganised block leaves no trace: storing a new block number and then another block of the
  same number gives the same address database and the same record of that number as storing only the
  second one, when the first block records all its entries, its keys were free before, and no
  sequence in it is 255.
\<close>

theorem reorg_undoes_store:
  assumes laws: "leveldb_laws x api store" "level_writes api"
    and first: "\<forall>i \<in> set idx. aiValue i \<noteq> None" "bi_ok x b" "seqs_ok b" "covers b idx"
    and second: "\<forall>i \<in> set idx'. aiValue i \<noteq> None" "bi_ok x b'" "biBlockNumber b' = biBlockNumber b"
    and free: "block_map_ok x (store (blockDB s))" "store (blockDB s) (MarshallBlockKey (biBlockNumber b)) = None"
      "\<forall>k \<in> set (block_keys x (biTime b) (biAddresses b)). store (addressDB s) k = None"
  shows "\<exists>s1 s2 s3. Store x (levelRepo x api) idx b False s = (Ret None, s1) \<and>
    Store x (levelRepo x api) idx' b' False s1 = (Ret None, s2) \<and>
    Store x (levelRepo x api) idx' b' False s = (Ret None, s3) \<and>
    store (addressDB s2) = store (addressDB s3) \<and> store (blockDB s2) = store (blockDB s3)"
proof -
  have ext: "external x" using laws(1) by (simp add: leveldb_laws_def)
  let ?n = "biBlockNumber b" and ?m = "store (addressDB s)" and ?bm = "store (blockDB s)"
  have none: "old_keys x ?bm ?n = []" "old_seqs_ok x ?bm ?n"
    using free(2) by (simp_all add: old_keys_def old_seqs_ok_def)
  obtain s1 where s1: "Store x (levelRepo x api) idx b False s = (Ret None, s1)"
    "store (addressDB s1) = put_all (map (entry_of x) idx) ?m"
    "store (blockDB s1) = ?bm(MarshallBlockKey ?n \<mapsto> block_value x b)"
    by (rule Store_level [OF laws first(1,2) free(1) none(2)]) (simp add: none)
  have stored: "store (blockDB s1) (MarshallBlockKey ?n) = Some (block_value x b)"
    using s1(3) by simp
  have old: "old_keys x (store (blockDB s1)) ?n = block_keys x (biTime b) (biAddresses b)"
    using old_keys_stored [OF ext first(2)] stored by blast
  have seqs: "old_seqs_ok x (store (blockDB s1)) ?n"
    using stored external.Unmarshall_block_value [OF ext first(2)] first(3)
    by (simp add: old_seqs_ok_def seqs_ok_def norm_block_def)
  have "block_map_ok x (store (blockDB s1))"
    using block_map_ok_put [OF free(1) first(2)] s1(3) by simp
  then obtain s2 where s2: "Store x (levelRepo x api) idx' b' False s1 = (Ret None, s2)"
    "store (addressDB s2) = put_all (map (entry_of x) idx')
       (delete_all (block_keys x (biTime b) (biAddresses b)) (store (addressDB s1)))"
    "store (blockDB s2) = (store (blockDB s1))(MarshallBlockKey ?n \<mapsto> block_value x b')"
    using Store_level [OF laws second(1,2), of s1] second(3) seqs old by auto
  obtain s3 where s3: "Store x (levelRepo x api) idx' b' False s = (Ret None, s3)"
    "store (addressDB s3) = put_all (map (entry_of x) idx') ?m"
    "store (blockDB s3) = ?bm(MarshallBlockKey ?n \<mapsto> block_value x b')"
    using Store_level [OF laws second(1,2) free(1)] second(3) none by auto
  have "delete_all (block_keys x (biTime b) (biAddresses b)) (put_all (map (entry_of x) idx) ?m) = ?m"
    by (rule delete_put_all) (use covers_keys [OF first(4)] free(3) in auto)
  then show ?thesis using s1 s2 s3 by auto
qed

theorem reorg_undoes_store_witness:
  "\<exists>s1 s2 s3. Store refExt (levelRepo refExt refLevel) sIdx (sBlock (dec 7)) False sEmpty = (Ret None, s1) \<and>
    Store refExt (levelRepo refExt refLevel) [] ((sBlock (dec 7))\<lparr>biAddresses := []\<rparr>) False s1 = (Ret None, s2) \<and>
    Store refExt (levelRepo refExt refLevel) [] ((sBlock (dec 7))\<lparr>biAddresses := []\<rparr>) False sEmpty = (Ret None, s3) \<and>
    RBT.lookup (addressDB s2) = RBT.lookup (addressDB s3) \<and> RBT.lookup (blockDB s2) = RBT.lookup (blockDB s3)"
proof (rule reorg_undoes_store [OF ref_level_laws level_writes_ref sIdx_values sBlock_ok [OF refl]])
  show "seqs_ok (sBlock (dec 7))" by (simp add: seqs_ok_def sBlock_def)
  show "covers (sBlock (dec 7)) sIdx"
    by (auto simp: covers_def sBlock_def sIdx_def sIndex_def)
  show "bi_ok refExt ((sBlock (dec 7))\<lparr>biAddresses := []\<rparr>)"
    using sBlock_ok [of "dec 7" 7] by (simp add: bi_ok_def)
qed (simp_all add: sEmpty_def block_map_ok_def)

section \<open>Invariants\<close>

text \<open>
  The states of a repository: any sequence of stores of well-formed blocks, in real time or as part of
  a batch, and of deletions of old blocks, each of which reports no error.
\<close>

inductive repo_run :: "ext \<Rightarrow> 'db KVIndexRepo \<Rightarrow> 'db IndexDB \<Rightarrow> 'db IndexDB \<Rightarrow> bool"
  for x :: ext and repo :: "'db KVIndexRepo" and s0 :: "'db IndexDB" where
  run_start: "repo_run x repo s0 s0"
| run_store: "repo_run x repo s0 s \<Longrightarrow> \<forall>i \<in> set idx. ai_ok x i \<Longrightarrow> bi_ok x b \<Longrightarrow> seqs_ok b \<Longrightarrow>
    Store x repo idx b isBatch s = (Ret None, s') \<Longrightarrow> repo_run x repo s0 s'"
| run_clean: "repo_run x repo s0 s \<Longrightarrow> DeleteOldBlocks x repo u s = (Ret (n, None), s') \<Longrightarrow>
    repo_run x repo s0 s'"

definition seqs_map_ok :: "ext \<Rightarrow> (bytes \<rightharpoonup> bytes) \<Rightarrow> bool" where
  "seqs_map_ok x m \<longleftrightarrow> (\<forall>k v b. m k = Some v \<longrightarrow> UnmarshallBlockValue x v = Ret b \<longrightarrow> seqs_ok b)"

definition repo_ok :: "ext \<Rightarrow> ('db \<Rightarrow> bytes \<rightharpoonup> bytes) \<Rightarrow> 'db IndexDB \<Rightarrow> bool" where
  "repo_ok x store s \<longleftrightarrow>
     address_map_ok (store (addressDB s)) \<and> block_map_ok x (store (blockDB s)) \<and> seqs_map_ok x (store (blockDB s))"

lemma seqs_map_ok_put:
  assumes "external x" "seqs_map_ok x m" "bi_ok x b" "seqs_ok b"
  shows "seqs_map_ok x (m(k \<mapsto> block_value x b))"
  using assms external.Unmarshall_block_value [OF assms(1,3)]
  by (auto simp: seqs_map_ok_def seqs_ok_def norm_block_def split: if_splits)

lemma repo_run_ok:
  assumes "repo_run x repo s0 s" "index_repo x repo store" "repo_ok x store s0"
  shows "repo_ok x store s"
  using assms
proof (induction rule: repo_run.induct)
  case (run_store s idx b isBatch s')
  then have ok: "repo_ok x store s" by simp
  then have old: "old_seqs_ok x (store (blockDB s)) (biBlockNumber b)"
    by (auto simp: repo_ok_def seqs_map_ok_def old_seqs_ok_def)
  have ext: "external x" using run_store.prems(1) by (simp add: index_repo_def)
  have vals: "\<forall>i \<in> set idx. aiValue i \<noteq> None" using run_store.hyps by (auto simp: ai_ok_def)
  have maps: "address_map_ok (store (addressDB s')) \<and> block_map_ok x (store (blockDB s'))"
    using index_repo.Store_keeps_maps [OF run_store.prems(1) run_store.hyps(5,2,3)] ok old
    by (simp add: repo_ok_def)
  have "seqs_map_ok x (store (blockDB s'))"
  proof (cases isBatch)
    case True
    then have "Store x repo idx b True s = (Ret None, s')" using run_store.hyps(5) by simp
    then show ?thesis
      by (rule index_repo.Store_batch [OF run_store.prems(1) _ vals]) (use ok in \<open>simp add: repo_ok_def\<close>)
  next
    case False
    then have st: "Store x repo idx b False s = (Ret None, s')" using run_store.hyps(5) by simp
    show ?thesis
      by (rule index_repo.Store_realtime [OF run_store.prems(1) st vals run_store.hyps(3) old])
         (use seqs_map_ok_put [OF ext] run_store.hyps(3,4) ok in \<open>simp add: repo_ok_def\<close>)
  qed
  with maps show ?case by (simp add: repo_ok_def)
next
  case (run_clean s u n s')
  then have ok: "repo_ok x store s" by simp
  then have "block_map_ok x (store (blockDB s))" by (simp add: repo_ok_def)
  then obtain d where "s' = s\<lparr>blockDB := d\<rparr>"
    and "store d = delete_all (map kvKey (takeWhile (\<lambda>kv. created_of kv < u) (kvs (store (blockDB s)))))
      (store (blockDB s))"
    by (rule index_repo.DeleteOldBlocks_Ret [OF run_clean.prems(1) _ run_clean.hyps(2)])
  then show ?case
    using ok by (auto simp: repo_ok_def block_map_ok_delete)
      (auto simp: seqs_map_ok_def delete_all_def restrict_map_def split: if_splits)
qed



end
