(* ===== verification/QueryProps.thy ===== *)
theory QueryProps
  imports RepoProps
begin

text \<open>
  The properties of the queries of \<open>KVIndexRepo\<close> over LevelDB: pages by time, totals, what is found after
  a block has been stored, and the first, last and old blocks.
\<close>

section \<open>Queries\<close>

text \<open>
  C5. A query with a time bound returns, in increasing order of time, the entries of the address whose
  time lies in the interval (both ends included, a zero bound is no bound), the page from \<open>start\<close> on,
  with the number of such entries as total, both cut at 10001.
\<close>

theorem query_by_time:
  assumes "leveldb_laws x api store" "address_map_ok (store (addressDB s))" "addr_ok x a" "times_ok f t"
    and "\<not> tIsZero f \<or> \<not> tIsZero t"
  shows "GetTransactionByAddress x (levelRepo x api) a rows start f t s =
    (let xs = take 10001 (filter (\<lambda>kv. akAddr (dec_key (kvKey kv)) = addr_bytes x a \<and>
                (\<not> tIsZero f \<longrightarrow> tUnix f \<le> akTime (dec_key (kvKey kv))) \<and>
                (\<not> tIsZero t \<longrightarrow> akTime (dec_key (kvKey kv)) \<le> tUnix t)) (kvs (store (addressDB s))))
     in Ret (int (length xs), map (to_index x) (take (nat rows) (drop (nat start) xs))))"
  using index_repo.GetTransactionByAddress_time [OF leveldb_laws.level_repo [OF assms(1)] assms(2-5)]
  by (simp add: find_spec_def NumMaxTransaction_def entries_def in_times_def)

theorem query_by_time_witness:
  "GetTransactionByAddress refExt (levelRepo refExt refLevel) (sAddr 1) 10 0 (time_Unix 1500000000) zeroTime sEmpty
   = Ret (0, [])"
  using query_by_time [OF ref_level_laws sEmpty_maps(1) sAddr_ok, of "time_Unix 1500000000" zeroTime 1 10 0]
  by (simp add: times_ok_def tIsZero_def) (simp add: zeroTime_def time_Unix_def Second_def sEmpty_def kvs_def)

text \<open>
  A query without time bounds returns the entries of the address from the newest to the oldest.
\<close>

lemma query_newest_first:
  assumes "leveldb_laws x api store" "address_map_ok (store (addressDB s))" "addr_ok x a"
    and "GetTransactionByAddress x (levelRepo x api) a rows start zeroTime zeroTime s = Ret (tot, l)"
  shows "sorted_wrt (\<lambda>i j. the (aiTime j) \<le> the (aiTime i)) l \<and>
    (\<forall>i \<in> set l. Address i = hexEncode x (addr_bytes x a)) \<and>
    tot = int (min 10001 (length (entries x (store (addressDB s)) a (\<lambda>_. True)))) \<and>
    int (length l) = max 0 (min rows (tot - max 0 start))"
proof -
  let ?es = "entries x (store (addressDB s)) a (\<lambda>_. True)"
  let ?xs = "take (nat rows) (drop (nat start) (take 10001 (rev ?es)))"
  have zero: "tIsZero zeroTime" by (simp add: tIsZero_def)
  have eq: "tot = int (length (take 10001 (rev ?es)))" "l = map (to_index x) ?xs"
    using index_repo.GetTransactionByAddress_all [OF leveldb_laws.level_repo [OF assms(1)] assms(2,3) zero zero]
      assms(4) by (auto simp: find_spec_def NumMaxTransaction_def Let_def)
  have fin: "finite (dom (store (addressDB s)))"
    by (rule kv_dao.dao_finite [OF leveldb_laws.level_dao [OF assms(1)]])
  have "sorted_wrt (\<lambda>v w. akTime (dec_key (kvKey w)) \<le> akTime (dec_key (kvKey v))) (rev ?es)"
    using entries_sorted [OF assms(2) fin] by (simp add: sorted_wrt_rev)
  then have "sorted_wrt (\<lambda>i j. the (aiTime j) \<le> the (aiTime i)) l"
    by (simp add: eq sorted_wrt_map to_index_def sorted_wrt_take sorted_wrt_drop)
  moreover have "akAddr (dec_key (kvKey kv)) = addr_bytes x a" if "kv \<in> set ?xs" for kv
    using that by (auto simp: entries_def dest!: in_set_takeD in_set_dropD)
  then have "\<forall>i \<in> set l. Address i = hexEncode x (addr_bytes x a)"
    by (simp add: eq(2) to_index_def)
  moreover have "tot = int (min 10001 (length ?es))"
    by (simp only: eq(1) length_take length_rev min.commute)
  moreover have "int (length l) = max 0 (min rows (tot - max 0 start))"
    by (simp only: eq length_map page_length)
  ultimately show ?thesis by blast
qed

text \<open>
  The total that a page reports is the separate count of the same query, capped at 10001; the count
  itself is the exact number of entries of the address in the interval.
\<close>

lemma total_is_capped_count:
  assumes "leveldb_laws x api store" "address_map_ok (store (addressDB s))" "addr_ok x a" "times_ok f t"
  shows "\<exists>n l. GetTotalTransaction x (levelRepo x api) a f t s = Ret n \<and>
    GetTransactionByAddress x (levelRepo x api) a rows start f t s = Ret (min n 10001, l) \<and>
    n = int (length (entries x (store (addressDB s)) a (in_times f t)))"
proof (cases "tIsZero f \<and> tIsZero t")
  case True
  then have "in_times f t = (\<lambda>_. True)" by (simp add: in_times_def fun_eq_iff)
  then show ?thesis
    using index_repo.GetTotalTransaction_eq [OF leveldb_laws.level_repo [OF assms(1)] assms(2-4)] True
      index_repo.GetTransactionByAddress_all [OF leveldb_laws.level_repo [OF assms(1)] assms(2,3)]
    by (simp add: Let_def fst_find_spec)
next
  case False
  then show ?thesis
    using index_repo.GetTotalTransaction_eq [OF leveldb_laws.level_repo [OF assms(1)] assms(2-4)]
      index_repo.GetTransactionByAddress_time [OF leveldb_laws.level_repo [OF assms(1)] assms(2-4)]
    by (simp add: Let_def fst_find_spec)
qed



end
