(* ===== verification/BlockProps.thy ===== *)
theory BlockProps
  imports QueryProps
begin

text \<open>
  The properties of the block database: the block that a query by number returns, which block is the
  first and the last (keys are decimal strings, so the order is the one of strings), and what the
  deletion of old blocks removes.
\<close>

text \<open>The greatest key is the last record.\<close>

lemma kvs_last:
  assumes "finite (dom m)" "dom m \<noteq> {}"
  obtains l kv where "kvs m = l @ [kv]" "m (kvKey kv) = Some (kvValue kv)" "\<forall>k \<in> dom m. k \<le> kvKey kv"
proof (cases "kvs m" rule: rev_cases)
  case Nil
  then have "dom m = {}" using kvKey_kvs [of m] set_sorted_list_of_set [OF assms(1)]
    by (metis list.set(1) list.simps(8))
  then show ?thesis using assms(2) by simp
next
  case (snoc l kv)
  have "kv \<in> set (kvs m)" by (simp add: snoc)
  then have val: "m (kvKey kv) = Some (kvValue kv)" using set_kvs [OF assms(1)] by simp
  have "k \<le> kvKey kv" if "k \<in> dom m" for k
  proof -
    have "k \<in> kvKey ` set (kvs m)" using that kvKey_kvs [of m] assms(1) by (metis set_map set_sorted_list_of_set)
    then show ?thesis using sorted_kvs [of m] by (auto simp: snoc sorted_wrt_append)
  qed
  then show ?thesis using that [OF snoc val] by blast
qed

lemma GetLastBlock_level:
  assumes "leveldb_laws x api store" "block_map_ok x (store (blockDB s))" "store (blockDB s) \<noteq> Map.empty"
  obtains b where "GetLastBlock x (levelRepo x api) s = Ret (Inr (norm_block x b))" "bi_ok x b"
    "store (blockDB s) (MarshallBlockKey (biBlockNumber b)) = Some (block_value x b)"
    "\<forall>k \<in> dom (store (blockDB s)). k \<le> MarshallBlockKey (biBlockNumber b)"
proof -
  note repo = leveldb_laws.level_repo [OF assms(1)]
  have fin: "finite (dom (store (blockDB s)))"
    by (rule kv_dao.dao_finite [OF leveldb_laws.level_dao [OF assms(1)]])
  have ne: "dom (store (blockDB s)) \<noteq> {}" using assms(3) by simp
  obtain l kv where kv: "kvs (store (blockDB s)) = l @ [kv]"
    "store (blockDB s) (kvKey kv) = Some (kvValue kv)" "\<forall>k \<in> dom (store (blockDB s)). k \<le> kvKey kv"
    by (rule kvs_last [OF fin ne])
  obtain b where "bi_ok x b" "kv = \<lparr>kvKey = MarshallBlockKey (biBlockNumber b), kvValue = block_value x b\<rparr>"
    "keyValueToBlockIndex x kv = Ret (norm_block x b)"
    by (rule index_repo.block_kv [OF repo assms(2), of kv]) (simp add: kv(1))
  then show ?thesis
    using that [of b] index_repo.GetLastBlock_snoc [OF repo kv(1)] kv(2,3) by simp
qed

text \<open>
  While all stored block numbers have the same number of digits, the last block is the one with the
  greatest number.
\<close>

lemma last_block_is_greatest:
  assumes "leveldb_laws x api store" "block_map_ok x (store (blockDB s))" "store (blockDB s) \<noteq> Map.empty"
    and "\<forall>k \<in> dom (store (blockDB s)). length k = d"
  shows "\<exists>b n. GetLastBlock x (levelRepo x api) s = Ret (Inr b) \<and> biBlockNumber b = dec n \<and>
    (\<forall>m. store (blockDB s) (MarshallBlockKey (dec m)) \<noteq> None \<longrightarrow> m \<le> n)"
proof -
  obtain b where b: "GetLastBlock x (levelRepo x api) s = Ret (Inr (norm_block x b))" "bi_ok x b"
    "store (blockDB s) (MarshallBlockKey (biBlockNumber b)) = Some (block_value x b)"
    "\<forall>k \<in> dom (store (blockDB s)). k \<le> MarshallBlockKey (biBlockNumber b)"
    by (rule GetLastBlock_level [OF assms(1-3)])
  obtain n where n: "biBlockNumber b = dec n" using b(2) by (auto simp: bi_ok_def)
  have len: "length (dec m) = d" if "store (blockDB s) (MarshallBlockKey (dec m)) \<noteq> None" for m
    using assms(4) that by (auto simp: MarshallBlockKey_def dom_def)
  have "m \<le> n" if m: "store (blockDB s) (MarshallBlockKey (dec m)) \<noteq> None" for m
  proof -
    have "MarshallBlockKey (dec m) \<le> MarshallBlockKey (dec n)" using b(4) m by (simp add: n dom_def)
    moreover have "length (dec n) = length (dec m)" using len [OF m] len [of n] b(3) by (simp add: n)
    ultimately show ?thesis using block_key_less_iff [of n m] by (simp add: not_less [symmetric])
  qed
  then show ?thesis using b(1) n by (auto simp: norm_block_def)
qed



section \<open>Blocks by number\<close>

text \<open>
  A stored block is found by its number, with its addresses in printed form, its times and their
  sequences; right after it was stored in real time that is the block just given.
\<close>

lemma block_found_by_number:
  assumes "leveldb_laws x api store" "bi_ok x b"
    and "store (blockDB s) (MarshallBlockKey (biBlockNumber b)) = Some (block_value x b)"
  shows "GetBlocks x (levelRepo x api) (biBlockNumber b) rows start s = Ret (1, [norm_block x b])"
proof -
  have ext: "external x" using assms(1) by (simp add: leveldb_laws_def)
  have "biBlockNumber b \<noteq> []" using assms(2) dec_not_Nil by (metis bi_ok_def)
  then show ?thesis
    using kv_dao.FindByKey_Some [OF leveldb_laws.level_dao [OF assms(1)] assms(3)]
      external.keyValueToBlockIndex_ok [OF ext assms(2)]
    by (simp add: GetBlocks_def)
qed

section \<open>Deletion of old blocks\<close>

lemma distinct_keys_takeWhile:
  "sorted_wrt (\<lambda>a b. kvKey a < kvKey b) l \<Longrightarrow> distinct (map kvKey (takeWhile P l))"
  by (induction l) (auto dest!: set_takeWhileD)

lemma sorted_takeWhile_set:
  fixes u :: int
  assumes "sorted (map f l)" "y \<in> set l"
  shows "f y < u \<Longrightarrow> y \<in> set (takeWhile (\<lambda>y. f y < u) l)"
  using assms by (induction l) fastforce+

lemma DeleteOldBlocks_level_returns:
  assumes "leveldb_laws x api store" "level_writes api" "block_map_ok x (store (blockDB s))"
  shows "\<exists>n s'. DeleteOldBlocks x (levelRepo x api) u s = (Ret (n, None), s')"
proof -
  have "take_pred (created_before x u) (kvs (store (blockDB s))) =
      Ret (takeWhile (\<lambda>kv. created_of kv < u) (kvs (store (blockDB s))))"
    by (rule take_pred_Ret)
       (rule index_repo.created_before_ok [OF leveldb_laws.level_repo [OF assms(1)] assms(3)])
  moreover have "\<exists>d. BatchDelete (LevelDbDAO x api) ks (blockDB s) = (None, d)" for ks
    using dao_writes_level [OF assms(2)] by (metis dao_writes_def prod.collapse)
  ultimately show ?thesis
    using kv_dao.GetNFirstPredicate_eq [OF leveldb_laws.level_dao [OF assms(1)]]
    by (auto simp: DeleteOldBlocks_def bnd_apply on_block_def split: prod.splits) (metis fst_conv)
qed



end
