(* ===== verification/BatchProps.thy ===== *)
theory BatchProps
  imports BatchRepo MarshalFacts RefStore
begin

text \<open>
  What \<open>KVBatchRepo\<close> does over any data access object (locale \<open>batch_repo\<close>): a valid batch is stored
  under the key of its two ends, its step and its creation time, and the listing gives back exactly the
  stored batches. Then its properties over LevelDB.
\<close>

section \<open>Stored batches\<close>

definition batch_valid :: "BatchStatus \<Rightarrow> bool" where
  "batch_valid b \<longleftrightarrow>
     (\<exists>f t c cur u. bsFrom b = Some f \<and> bsTo b = Some t \<and> bsCreatedAt b = Some c \<and> bsCurrent b = Some cur \<and>
        bsUpdatedAt b = Some u \<and> blocknum_ok f \<and> blocknum_ok t \<and> 0 \<le> cur \<and> time_ok u) \<and> bsStep b \<noteq> 0"

definition batch_key :: "BatchStatus \<Rightarrow> bytes" where
  "batch_key b = MarshallBatchKey (bsFrom b) (bsTo b) (bsStep b) (bsCreatedAt b)"

definition batch_value :: "BatchStatus \<Rightarrow> bytes" where
  "batch_value b = MarshallTime (bsUpdatedAt b) @ big_Bytes (the (bsCurrent b))"

definition batch_map_ok :: "(bytes \<rightharpoonup> bytes) \<Rightarrow> bool" where
  "batch_map_ok m \<longleftrightarrow> (\<forall>k v. m k = Some v \<longrightarrow> (\<exists>b. batch_valid b \<and> k = batch_key b \<and> v = batch_value b))"

text \<open>The identity of a batch: what its key holds.\<close>

definition batch_id :: "BatchStatus \<Rightarrow> int option \<times> int option \<times> 8 word \<times> int option" where
  "batch_id b = (bsFrom b, bsTo b, bsStep b, bsCreatedAt b)"

lemma decode_batch:
  assumes "batch_valid b"
  shows "keyValueToBatchStatus \<lparr>kvKey = batch_key b, kvValue = batch_value b\<rparr> = Ret b"
proof -
  obtain f t c cur u where b: "bsFrom b = Some f" "bsTo b = Some t" "bsCreatedAt b = Some c"
    "bsCurrent b = Some cur" "bsUpdatedAt b = Some u" "blocknum_ok f" "blocknum_ok t" "0 \<le> cur" "time_ok u"
    using assms by (auto simp: batch_valid_def)
  have "UnmarshallBatchValue (batch_value b) = Ret (emptyBatchStatus\<lparr>bsUpdatedAt := Some u, bsCurrent := Some cur\<rparr>)"
    using batch_value_roundtrip [OF b(9,8)] b by (simp add: MarshallBatchValue_def batch_value_def)
  then show ?thesis
    using batch_key_roundtrip [OF b(6,7), of "bsStep b" c] b
    by (simp add: keyValueToBatchStatus_def batch_key_def emptyBatchStatus_def)
qed

lemma batch_eqI:
  assumes "batch_valid a" "batch_valid b" "batch_key a = batch_key b" "batch_value a = batch_value b"
  shows "a = b"
proof -
  have "Ret a = keyValueToBatchStatus \<lparr>kvKey = batch_key a, kvValue = batch_value a\<rparr>"
    by (rule decode_batch [OF assms(1), symmetric])
  also have "\<dots> = keyValueToBatchStatus \<lparr>kvKey = batch_key b, kvValue = batch_value b\<rparr>"
    by (simp only: assms(3,4))
  also have "\<dots> = Ret b" by (rule decode_batch [OF assms(2)])
  finally show ?thesis by (rule outcome.inject [THEN iffD1])
qed

lemma batch_key_inject:
  assumes "batch_valid a" "batch_valid b"
  shows "batch_key a = batch_key b \<longleftrightarrow> batch_id a = batch_id b"
proof
  assume eq: "batch_key a = batch_key b"
  have "keyValueToBatchStatus \<lparr>kvKey = batch_key b, kvValue = batch_value a\<rparr> = Ret a"
    using decode_batch [OF assms(1)] eq by simp
  moreover have "keyValueToBatchStatus \<lparr>kvKey = batch_key b, kvValue = batch_value b\<rparr> = Ret b"
    by (rule decode_batch [OF assms(2)])
  ultimately show "batch_id a = batch_id b"
    by (auto simp: keyValueToBatchStatus_def obind_eq_Ret batch_id_def)
qed (simp add: batch_key_def batch_id_def)

lemma UpdateBatch_valid:
  "batch_valid b \<Longrightarrow>
   UpdateBatch repo b d = on_batch (Put (batchDAO repo) \<lparr>kvKey = batch_key b, kvValue = batch_value b\<rparr>) d"
  by (auto simp: UpdateBatch_def batch_valid_def MarshallBatchValue_def bnd_apply batch_key_def batch_value_def
      NewKeyValue_def)

locale batch_repo = dao: kv_dao "batchDAO repo" store
  for repo :: "'db KVBatchRepo" and store :: "'db \<Rightarrow> bytes \<rightharpoonup> bytes"
begin

lemma UpdateBatch_store:
  assumes "batch_valid b" "UpdateBatch repo b d = (Ret None, d')"
  shows "store d' = (store d)(batch_key b \<mapsto> batch_value b)"
  using assms dao.Put_store by (auto simp: UpdateBatch_valid on_batch_def split: prod.splits)

lemma UpdateBatch_keeps:
  assumes "batch_valid b" "UpdateBatch repo b d = (Ret None, d')" "batch_map_ok (store d)"
  shows "batch_map_ok (store d')"
  using UpdateBatch_store [OF assms(1,2)] assms(1,3) by (auto simp: batch_map_ok_def)

lemma GetAll_Ret:
  assumes "batch_map_ok (store d)"
  obtains bs where "GetAllBatchStatuses repo d = Ret bs"
    "map (\<lambda>b. \<lparr>kvKey = batch_key b, kvValue = batch_value b\<rparr>) bs = kvs (store d)" "\<forall>b \<in> set bs. batch_valid b"
proof -
  have "\<exists>bs. omap keyValueToBatchStatus l = Ret bs \<and>
      map (\<lambda>b. \<lparr>kvKey = batch_key b, kvValue = batch_value b\<rparr>) bs = l \<and> (\<forall>b \<in> set bs. batch_valid b)"
    if "set l \<subseteq> set (kvs (store d))" for l
    using that
  proof (induction l)
    case (Cons kv l)
    then obtain bs where bs: "omap keyValueToBatchStatus l = Ret bs"
      "map (\<lambda>b. \<lparr>kvKey = batch_key b, kvValue = batch_value b\<rparr>) bs = l" "\<forall>b \<in> set bs. batch_valid b"
      by auto
    have "store d (kvKey kv) = Some (kvValue kv)"
      using Cons.prems set_kvs [OF dao.dao_finite] by simp
    then obtain b where b: "batch_valid b" "kvKey kv = batch_key b" "kvValue kv = batch_value b"
      using assms by (auto simp: batch_map_ok_def)
    then have kv: "kv = \<lparr>kvKey = batch_key b, kvValue = batch_value b\<rparr>" by simp
    show ?case
      using bs b decode_batch [OF b(1)] by (intro exI [of _ "b # bs"]) (simp add: kv)
  qed simp
  from this [OF subset_refl] that show ?thesis
    by (auto simp: GetAllBatchStatuses_def dao.GetAllRecords_eq)
qed

lemma GetAll_eq:
  assumes "batch_map_ok (store d)" "GetAllBatchStatuses repo d = Ret bs"
  shows "map (\<lambda>b. \<lparr>kvKey = batch_key b, kvValue = batch_value b\<rparr>) bs = kvs (store d)"
    and "\<forall>b \<in> set bs. batch_valid b"
proof -
  obtain bs' where bs': "GetAllBatchStatuses repo d = Ret bs'"
    "map (\<lambda>b. \<lparr>kvKey = batch_key b, kvValue = batch_value b\<rparr>) bs' = kvs (store d)" "\<forall>b \<in> set bs'. batch_valid b"
    by (rule GetAll_Ret [OF assms(1)])
  then have "bs' = bs" using assms(2) by simp
  then show "map (\<lambda>b. \<lparr>kvKey = batch_key b, kvValue = batch_value b\<rparr>) bs = kvs (store d)"
    "\<forall>b \<in> set bs. batch_valid b" using bs'(2,3) by simp_all
qed

lemma GetAll_set:
  assumes "batch_map_ok (store d)" "GetAllBatchStatuses repo d = Ret bs"
  shows "b \<in> set bs \<longleftrightarrow> batch_valid b \<and> store d (batch_key b) = Some (batch_value b)"
proof -
  note bs = GetAll_eq [OF assms]
  have kv: "kv \<in> set (kvs (store d)) \<longleftrightarrow> (\<exists>b \<in> set bs. kv = \<lparr>kvKey = batch_key b, kvValue = batch_value b\<rparr>)" for kv
    unfolding bs(1) [symmetric] by (simp only: set_map image_iff)
  show ?thesis
  proof
    assume "b \<in> set bs"
    then show "batch_valid b \<and> store d (batch_key b) = Some (batch_value b)"
      using kv [of "\<lparr>kvKey = batch_key b, kvValue = batch_value b\<rparr>"] bs(2) set_kvs [OF dao.dao_finite] by auto
  next
    assume b: "batch_valid b \<and> store d (batch_key b) = Some (batch_value b)"
    then obtain a where "a \<in> set bs" "batch_key b = batch_key a" "batch_value b = batch_value a"
      using kv [of "\<lparr>kvKey = batch_key b, kvValue = batch_value b\<rparr>"] set_kvs [OF dao.dao_finite] by auto
    moreover from this have "a = b" using b bs(2) by (intro batch_eqI) simp_all
    ultimately show "b \<in> set bs" by simp
  qed
qed

lemma GetAll_length:
  assumes "batch_map_ok (store d)" "GetAllBatchStatuses repo d = Ret bs"
  shows "length bs = card (dom (store d))"
proof -
  have "length bs = length (map kvKey (kvs (store d)))"
    by (simp flip: GetAll_eq(1) [OF assms])
  then show ?thesis by (simp add: kvKey_kvs)
qed

end

sublocale leveldb_laws \<subseteq> ldb: batch_repo "NewKVBatchRepo (LevelDbDAO x api)" store
  by (simp add: batch_repo_def NewKVBatchRepo_def ld.kv_dao_axioms)

context leveldb_laws
begin

lemma level_batch_repo: "batch_repo (NewKVBatchRepo (LevelDbDAO x api)) store"
  by (rule ldb.batch_repo_axioms)

end

abbreviation levelBatchRepo :: "ext \<Rightarrow> ('db, 'it) leveldb \<Rightarrow> 'db KVBatchRepo" where
  "levelBatchRepo x api \<equiv> NewKVBatchRepo (LevelDbDAO x api)"

interpretation ref_batch: batch_repo "levelBatchRepo refExt refLevel" RBT.lookup
  by (rule ref_level.level_batch_repo)

definition sBatch :: BatchStatus where
  "sBatch = \<lparr>bsFrom = Some 5, bsTo = Some 9, bsCreatedAt = Some 1500000000, bsStep = 1,
     bsCurrent = Some 5, bsUpdatedAt = Some 1500000001\<rparr>"

lemma sBatch_valid [simp]: "batch_valid sBatch"
  by (simp add: batch_valid_def sBatch_def blocknum_ok_def time_ok_def)

section \<open>Properties\<close>

text \<open>
  Updating a batch: the listing afterwards holds the new status of the batch and, unchanged, every
  other stored batch, that is every one with another start, end, step or creation time; a batch has one
  record.
\<close>

lemma update_batch_listed:
  assumes "leveldb_laws x api store" "batch_map_ok (store d)" "batch_valid b"
    and "UpdateBatch (levelBatchRepo x api) b d = (Ret None, d')"
  shows "\<exists>old new. GetAllBatchStatuses (levelBatchRepo x api) d = Ret old \<and>
    GetAllBatchStatuses (levelBatchRepo x api) d' = Ret new \<and>
    set new = insert b {a \<in> set old. batch_id a \<noteq> batch_id b} \<and> distinct (map batch_id new)"
proof -
  note repo = leveldb_laws.level_batch_repo [OF assms(1)]
  have ok': "batch_map_ok (store d')" by (rule batch_repo.UpdateBatch_keeps [OF repo assms(3,4,2)])
  obtain old where old: "GetAllBatchStatuses (levelBatchRepo x api) d = Ret old"
    by (rule batch_repo.GetAll_Ret [OF repo assms(2)])
  obtain new where new: "GetAllBatchStatuses (levelBatchRepo x api) d' = Ret new"
    "map (\<lambda>b. \<lparr>kvKey = batch_key b, kvValue = batch_value b\<rparr>) new = kvs (store d')" "\<forall>b \<in> set new. batch_valid b"
    by (rule batch_repo.GetAll_Ret [OF repo ok'])
  have upd: "store d' = (store d)(batch_key b \<mapsto> batch_value b)"
    by (rule batch_repo.UpdateBatch_store [OF repo assms(3,4)])
  have same: "batch_value a = batch_value b \<longleftrightarrow> a = b" if "batch_valid a" "batch_key a = batch_key b" for a
    using batch_eqI [OF that(1) assms(3) that(2)] by blast
  have mem: "a \<in> set new \<longleftrightarrow> a = b \<or> a \<in> set old \<and> batch_id a \<noteq> batch_id b" for a
  proof (cases "batch_valid a")
    case True
    have "store d' (batch_key a) = Some (batch_value a) \<longleftrightarrow>
        (if batch_key a = batch_key b then batch_value a = batch_value b
         else store d (batch_key a) = Some (batch_value a))"
      by (auto simp: upd)
    then show ?thesis
      using batch_repo.GetAll_set [OF repo ok' new(1), of a] batch_repo.GetAll_set [OF repo assms(2) old, of a]
        batch_key_inject [OF True assms(3)] same [OF True] True by metis
  next
    case False
    then show ?thesis
      using batch_repo.GetAll_set [OF repo ok' new(1), of a] batch_repo.GetAll_set [OF repo assms(2) old, of a]
        assms(3) by blast
  qed
  have "map batch_key new = map kvKey (kvs (store d'))"
    by (simp add: comp_def flip: new(2))
  then have "distinct (map batch_key new)" by (simp add: kvKey_kvs)
  then have "distinct (map batch_id new)"
    using new(3) batch_key_inject unfolding distinct_map inj_on_def by blast
  moreover have "set new = insert b {a \<in> set old. batch_id a \<noteq> batch_id b}"
    using mem by (intro set_eqI) simp
  ultimately show ?thesis using old new(1) by blast
qed

text \<open>
  \<open>ReplaceBatch\<close> never replaces anything: it asks for a page of 0 rows, so that the page is empty
  whatever the database holds, and returns no error.
\<close>

lemma replace_batch_does_nothing:
  assumes "leveldb_laws x api store"
  shows "ReplaceBatch (levelBatchRepo x api) from newTo d = (Ret None, d)"
  using kv_dao.FindByKeyPrefix_eq [OF leveldb_laws.level_dao [OF assms]]
  by (simp add: ReplaceBatch_def NewKVBatchRepo_def find_spec_def Let_def)

text \<open>
  A batch without start, end, step or creation time is refused with an error and nothing is
  written; a complete one whose current block is not known yet makes the call panic.
\<close>

lemma update_batch_refuses:
  "(bsFrom b = None \<or> bsTo b = None \<or> bsStep b = 0 \<or> bsCreatedAt b = None \<longrightarrow>
      (\<exists>e. UpdateBatch repo b d = (Ret (Some e), d))) \<and>
   (bsFrom b \<noteq> None \<and> bsTo b \<noteq> None \<and> bsStep b \<noteq> 0 \<and> bsCreatedAt b \<noteq> None \<and> bsCurrent b = None \<longrightarrow>
      (\<exists>m. UpdateBatch repo b d = (Panic m, d)))"
  by (auto simp: UpdateBatch_def MarshallBatchValue_def bnd_apply)

end
