(* ===== verification/IpcManager.thy ===== *)
theory IpcManager
  imports GoLib
begin

text \<open>
  \<open>IpcManager\<close> (\<open>service/ipc_manager.go\<close>): the list of IPC paths, the one in use, and the switch to the
  next one.
  \<^item> A subscriber is a pointer, here a number; \<open>switchIPCCounter\<close> is an \<open>int32\<close>.
  \<^item> \<open>ChangeIPC\<close> runs in several goroutines at once and its counter is incremented and read by two
    separate atomic operations: \<open>ipc_step\<close> has one step per atomic operation and per access to the shared
    fields, for any number of goroutines, and the invariants are proved by rule induction.
\<close>

record IpcManager =
  ipcList :: "string list"
  curIPC :: string
  subscribers :: "nat list"
  switchIPCCounter :: "32 word"

definition newIpcManager :: IpcManager where
  "newIpcManager = \<lparr>ipcList = [], curIPC = [], subscribers = [], switchIPCCounter = 0\<rparr>"

section \<open>Operations\<close>

text \<open>The loop of \<open>Subscribe\<close> over the subscribers only logs: its \<open>break\<close> leaves the loop, not the method.\<close>

definition Subscribe :: "nat \<Rightarrow> IpcManager \<Rightarrow> IpcManager" where
  "Subscribe sub im = im\<lparr>subscribers := subscribers im @ [sub]\<rparr>"

definition GetIPC :: "IpcManager \<Rightarrow> string" where
  "GetIPC im = curIPC im"

text \<open>The loop of \<open>SetIPC\<close>; a key that is not in the Go map \<open>tmp\<close> reads as the empty string.\<close>

fun check_ipcs :: "string list \<Rightarrow> (string \<Rightarrow> string) \<Rightarrow> string option" where
  "check_ipcs [] tmp = None"
| "check_ipcs (ipc # ipcs) tmp =
     (if ipc = [] then Some ''blank ipc''
      else if tmp ipc \<noteq> [] then Some (''duplicate IPC: '' @ ipc)
      else check_ipcs ipcs (tmp(ipc := ipc)))"

definition SetIPC :: "string list \<Rightarrow> IpcManager \<Rightarrow> string option \<times> IpcManager" where
  "SetIPC ipcs im =
     (if length ipcs = 0 then (Some ''no ipc specified'', im)
      else case check_ipcs ipcs (\<lambda>_. []) of
             Some e \<Rightarrow> (Some e, im)
           | None \<Rightarrow> (None, im\<lparr>ipcList := ipcs, curIPC := ipcs ! 0\<rparr>))"

text \<open>The index of the first occurrence, 0 when there is none.\<close>

fun ipc_index :: "string \<Rightarrow> nat \<Rightarrow> string list \<Rightarrow> nat" where
  "ipc_index cur i [] = 0"
| "ipc_index cur i (ipc # ipcs) = (if ipc = cur then i else ipc_index cur (Suc i) ipcs)"

definition NextIPC :: "string \<Rightarrow> string list \<Rightarrow> string outcome" where
  "NextIPC cur ipcs =
     (let index = ipc_index cur 0 ipcs
      in if length ipcs = 0 then Panic ''integer divide by zero''
         else index_at ipcs ((index + 1) mod length ipcs))"

definition EnableSwitchIPC :: "IpcManager \<Rightarrow> IpcManager" where
  "EnableSwitchIPC im = im\<lparr>switchIPCCounter := 0\<rparr>"

text \<open>
  \<open>ChangeIPC\<close> run by one goroutine alone: the new manager and the notifications it sends, in order, each
  the subscriber and the new path. (The subscribers' reaction is not part of the manager.)
\<close>

definition ChangeIPC :: "IpcManager \<Rightarrow> ((nat \<times> string) list \<times> IpcManager) outcome" where
  "ChangeIPC im =
     (let im1 = im\<lparr>switchIPCCounter := switchIPCCounter im + 1\<rparr>; counter = switchIPCCounter im1
      in if sint counter > 1 then Ret ([], im1)
         else if length (ipcList im1) \<le> 1 then Ret ([], im1)
         else obind (NextIPC (curIPC im1) (ipcList im1)) (\<lambda>next.
              Ret (map (\<lambda>sub. (sub, next)) (subscribers im1), im1\<lparr>curIPC := next\<rparr>)))"

definition ForceChangeIPC :: "IpcManager \<Rightarrow> ((nat \<times> string) list \<times> IpcManager) outcome" where
  "ForceChangeIPC im =
     (if length (ipcList im) \<le> 1
      then Panic (''IpcManager: Cannot switch IPC, number of IPC = '' @ Itoa (int (length (ipcList im))))
      else ChangeIPC im)"

section \<open>Concurrent switches\<close>

text \<open>
  Where a goroutine is in \<open>ChangeIPC\<close>: before the increment, between increment and load, past the check,
  sending the notifications that are left, or returned.
\<close>

datatype pc = AtAdd | AtLoad | AtSwitch | Notifying "nat list" | Returned

text \<open>
  \<open>epoch\<close> counts the calls of \<open>EnableSwitchIPC\<close>, \<open>passed\<close> holds the goroutines that got past the check, each
  with the epoch it did so in: ghost fields for the properties.
\<close>

record ipc_sys =
  mgr :: IpcManager
  pcs :: "nat \<Rightarrow> pc"
  epoch :: nat
  passed :: "(nat \<times> nat) list"

inductive ipc_step :: "ipc_sys \<Rightarrow> ipc_sys \<Rightarrow> bool" where
  step_add: "pcs s g = AtAdd \<Longrightarrow>
    ipc_step s (s\<lparr>mgr := (mgr s)\<lparr>switchIPCCounter := switchIPCCounter (mgr s) + 1\<rparr>, pcs := (pcs s)(g := AtLoad)\<rparr>)"
| step_busy: "pcs s g = AtLoad \<Longrightarrow> sint (switchIPCCounter (mgr s)) > 1 \<Longrightarrow>
    ipc_step s (s\<lparr>pcs := (pcs s)(g := Returned)\<rparr>)"
| step_pass: "pcs s g = AtLoad \<Longrightarrow> sint (switchIPCCounter (mgr s)) \<le> 1 \<Longrightarrow>
    ipc_step s (s\<lparr>pcs := (pcs s)(g := AtSwitch), passed := (g, epoch s) # passed s\<rparr>)"
| step_no_list: "pcs s g = AtSwitch \<Longrightarrow> length (ipcList (mgr s)) \<le> 1 \<Longrightarrow>
    ipc_step s (s\<lparr>pcs := (pcs s)(g := Returned)\<rparr>)"
| step_switch: "pcs s g = AtSwitch \<Longrightarrow> length (ipcList (mgr s)) > 1 \<Longrightarrow>
    NextIPC (curIPC (mgr s)) (ipcList (mgr s)) = Ret next \<Longrightarrow>
    ipc_step s (s\<lparr>mgr := (mgr s)\<lparr>curIPC := next\<rparr>, pcs := (pcs s)(g := Notifying (subscribers (mgr s)))\<rparr>)"
| step_notify: "pcs s g = Notifying (sub # subs) \<Longrightarrow>
    ipc_step s (s\<lparr>pcs := (pcs s)(g := Notifying subs)\<rparr>)"
| step_return: "pcs s g = Notifying [] \<Longrightarrow> ipc_step s (s\<lparr>pcs := (pcs s)(g := Returned)\<rparr>)"
| step_enable: "ipc_step s (s\<lparr>mgr := EnableSwitchIPC (mgr s), epoch := Suc (epoch s)\<rparr>)"

text \<open>Runs, and runs in which \<open>EnableSwitchIPC\<close> is not called.\<close>

inductive ipc_run :: "ipc_sys \<Rightarrow> ipc_sys \<Rightarrow> bool" where
  ipc_refl: "ipc_run s s"
| ipc_trans: "ipc_run s t \<Longrightarrow> ipc_step t u \<Longrightarrow> ipc_run s u"

text \<open>\<open>N\<close> goroutines are about to call \<open>ChangeIPC\<close>, after \<open>EnableSwitchIPC\<close>.\<close>

definition ipc_start :: "nat \<Rightarrow> IpcManager \<Rightarrow> ipc_sys" where
  "ipc_start N m =
     \<lparr>mgr = EnableSwitchIPC m, pcs = (\<lambda>g. if g < N then AtAdd else Returned), epoch = 0, passed = []\<rparr>"

inductive_cases ipc_stepE: "ipc_step s t"

section \<open>Lemmas\<close>

lemma check_ipcs_None:
  assumes "\<forall>s. tmp s \<noteq> [] \<longrightarrow> tmp s = s"
  shows "check_ipcs ipcs tmp = None \<longleftrightarrow>
    distinct ipcs \<and> [] \<notin> set ipcs \<and> (\<forall>s \<in> set ipcs. tmp s = [])"
  using assms
proof (induction ipcs arbitrary: tmp)
  case (Cons ipc ipcs)
  then show ?case
    using Cons.IH [of "tmp(ipc := ipc)"] by auto
qed simp

lemma SetIPC_ok_iff:
  "fst (SetIPC ipcs im) = None \<longleftrightarrow> ipcs \<noteq> [] \<and> distinct ipcs \<and> [] \<notin> set ipcs"
  using check_ipcs_None [of "\<lambda>_. []" ipcs] by (auto simp: SetIPC_def split: option.splits)

lemma SetIPC_error: "fst (SetIPC ipcs im) = Some e \<Longrightarrow> snd (SetIPC ipcs im) = im"
  by (auto simp: SetIPC_def split: if_splits option.splits)

lemma ipc_index_nth:
  "distinct ipcs \<Longrightarrow> k < length ipcs \<Longrightarrow> ipc_index (ipcs ! k) i ipcs = i + k"
proof (induction ipcs arbitrary: i k)
  case (Cons ipc ipcs)
  then show ?case by (cases k) auto
qed simp

lemma NextIPC_nth:
  assumes "distinct ipcs" "k < length ipcs"
  shows "NextIPC (ipcs ! k) ipcs = Ret (ipcs ! (Suc k mod length ipcs))"
proof -
  have "0 < length ipcs" using assms(2) by linarith
  then have "Suc k mod length ipcs < length ipcs" by simp
  then show ?thesis
    using assms by (auto simp: NextIPC_def ipc_index_nth index_at_def Let_def)
qed

text \<open>The order of switches starting from the \<open>k\<close>-th path: after \<open>n\<close> of them.\<close>

fun next_n :: "nat \<Rightarrow> string \<Rightarrow> string list \<Rightarrow> string outcome" where
  "next_n 0 cur ipcs = Ret cur"
| "next_n (Suc n) cur ipcs = obind (next_n n cur ipcs) (\<lambda>c. NextIPC c ipcs)"

lemma next_n_nth:
  assumes "distinct ipcs" "k < length ipcs"
  shows "next_n n (ipcs ! k) ipcs = Ret (ipcs ! ((k + n) mod length ipcs))"
proof (induction n)
  case 0
  then show ?case using assms by simp
next
  case (Suc n)
  have "0 < length ipcs" using assms(2) by linarith
  then have "(k + n) mod length ipcs < length ipcs" by simp
  then show ?case
    using Suc NextIPC_nth [OF assms(1)] by (simp add: mod_Suc_eq)
qed

lemma ipc_step_epoch: "ipc_step s t \<Longrightarrow> epoch s \<le> epoch t"
  by (erule ipc_stepE) simp_all

lemma ipc_run_epoch: "ipc_run s t \<Longrightarrow> epoch s \<le> epoch t"
  by (induction rule: ipc_run.induct) (auto dest: ipc_step_epoch)

text \<open>
  While \<open>EnableSwitchIPC\<close> is not called the counter is the number of goroutines that have incremented
  it. One that reads at most 1 is therefore the only one, and at most one gets past the check.
\<close>

definition entered :: "nat \<Rightarrow> ipc_sys \<Rightarrow> nat set" where
  "entered N s = {g. g < N \<and> pcs s g \<noteq> AtAdd}"

definition ipc_inv :: "nat \<Rightarrow> ipc_sys \<Rightarrow> bool" where
  "ipc_inv N s \<longleftrightarrow>
     unat (switchIPCCounter (mgr s)) = card (entered N s) \<and> (\<forall>g \<ge> N. pcs s g = Returned) \<and>
     (\<forall>g \<in> fst ` set (passed s). g < N \<and> pcs s g \<notin> {AtAdd, AtLoad}) \<and>
     (\<forall>g. pcs s g = AtSwitch \<or> (\<exists>l. pcs s g = Notifying l) \<longrightarrow> g \<in> fst ` set (passed s)) \<and>
     length (passed s) \<le> 1"

lemma finite_entered [simp]: "finite (entered N s)"
  by (rule finite_subset [of _ "{..<N}"]) (auto simp: entered_def)

lemma card_entered: "card (entered N s) \<le> N"
  using card_mono [of "{..<N}" "entered N s"] by (auto simp: entered_def)

lemma sint_counter:
  assumes "unat (c :: 32 word) < 2 ^ 31"
  shows "sint c > 1 \<longleftrightarrow> unat c > 1"
proof -
  have c: "unat c = nat (uint c)" by (rule unat_eq_nat_uint)
  have "uint c < 2 ^ 31" using assms nat_less_iff [of "uint c" "2 ^ 31"] uint_nonnegative [of c]
    unfolding c by simp
  then have "sint (word_of_int (uint c) :: 32 word) = uint c"
    by (simp only: signed_of_int) (simp add: signed_take_bit_int_eq_self order_trans [OF _ uint_nonnegative])
  then have "sint c = uint c" by simp
  then show ?thesis unfolding c by linarith
qed

lemma entered_move:
  "pcs s g \<noteq> AtAdd \<Longrightarrow> p \<noteq> AtAdd \<Longrightarrow> pcs t = (pcs s)(g := p) \<Longrightarrow> entered N t = entered N s"
  by (auto simp: entered_def)

lemma entered_add:
  "pcs s g = AtAdd \<Longrightarrow> g < N \<Longrightarrow> pcs t = (pcs s)(g := AtLoad) \<Longrightarrow> entered N t = insert g (entered N s)"
  by (auto simp: entered_def)

lemma ipc_inv_start: "ipc_inv N (ipc_start N m)"
  by (simp add: ipc_inv_def ipc_start_def entered_def EnableSwitchIPC_def)

text \<open>A goroutine past the check that moves on, or one that returns, keeps the invariant.\<close>

lemma ipc_inv_move:
  assumes "ipc_inv N s" "pcs s g \<noteq> AtAdd" "p \<noteq> AtAdd" "p \<noteq> AtLoad"
    and "pcs s g = AtLoad \<longrightarrow> p = Returned"
    and "pcs t = (pcs s)(g := p)" "passed t = passed s" "switchIPCCounter (mgr t) = switchIPCCounter (mgr s)"
    and "N \<le> g \<longrightarrow> p = Returned" "p = AtSwitch \<or> (\<exists>l. p = Notifying l) \<longrightarrow> g \<in> fst ` set (passed s)"
  shows "ipc_inv N t"
  using assms entered_move [OF assms(2,3,6), of N] by (auto simp: ipc_inv_def)

text \<open>Whoever passes the check is the first to do so.\<close>

lemma ipc_pass_first:
  assumes "ipc_inv N s" "N < 2 ^ 31" "pcs s g = AtLoad" "sint (switchIPCCounter (mgr s)) \<le> 1"
  shows "g < N" "passed s = []"
proof -
  show g: "g < N" using assms(1,3) by (force simp: ipc_inv_def not_le [symmetric])
  have "unat (switchIPCCounter (mgr s)) < 2 ^ 31"
    using assms(1,2) card_entered [of N s] by (simp add: ipc_inv_def)
  then have "card (entered N s) \<le> 1"
    using assms(1,4) sint_counter by (simp add: ipc_inv_def not_less [symmetric])
  moreover have "g \<in> entered N s" using g assms(3) by (simp add: entered_def)
  ultimately have "entered N s = {g}"
    using card_le_Suc0_iff_eq [of "entered N s"] by auto
  moreover have "fst ` set (passed s) \<subseteq> entered N s"
    using assms(1) by (auto simp: ipc_inv_def entered_def)
  moreover have "g \<notin> fst ` set (passed s)" using assms(1,3) by (auto simp: ipc_inv_def)
  ultimately show "passed s = []" by (cases "passed s") auto
qed

lemma ipc_inv_step:
  assumes "ipc_step s t" "epoch t = epoch s" "ipc_inv N s" "N < 2 ^ 31"
  shows "ipc_inv N t"
  using assms(1)
proof cases
  case (step_add g)
  have g: "g < N" using assms(3) step_add(2) by (force simp: ipc_inv_def not_le [symmetric])
  have ent: "entered N t = insert g (entered N s)" using entered_add [OF step_add(2) g] step_add(1) by simp
  have "g \<notin> entered N s" using step_add(2) by (simp add: entered_def)
  then have card: "card (entered N t) = Suc (card (entered N s))" by (simp add: ent)
  have "unat (switchIPCCounter (mgr s)) < 2 ^ 31"
    using assms(3,4) card_entered [of N s] by (simp add: ipc_inv_def)
  then have "unat (switchIPCCounter (mgr s) + 1) = Suc (unat (switchIPCCounter (mgr s)))"
    by (simp add: unat_word_ariths)
  then show ?thesis
    using assms(3) step_add card g by (auto simp: ipc_inv_def)
next
  case (step_busy g)
  then show ?thesis using assms(3) by (intro ipc_inv_move [of N s g Returned t]) simp_all
next
  case (step_pass g)
  note first = ipc_pass_first [OF assms(3,4) step_pass(2,3)]
  then show ?thesis
    using assms(3) step_pass entered_move [of s g AtSwitch t N] by (auto simp: ipc_inv_def)
next
  case (step_no_list g)
  then show ?thesis using assms(3) by (intro ipc_inv_move [of N s g Returned t]) simp_all
next
  case (step_switch g ipc)
  then have "g < N" "g \<in> fst ` set (passed s)" using assms(3) by (force simp: ipc_inv_def not_le [symmetric])+
  with step_switch show ?thesis
    using assms(3) by (intro ipc_inv_move [of N s g "Notifying (subscribers (mgr s))" t]) simp_all
next
  case (step_notify g sub subs)
  then have "g < N" "g \<in> fst ` set (passed s)" using assms(3) by (force simp: ipc_inv_def not_le [symmetric])+
  with step_notify show ?thesis
    using assms(3) by (intro ipc_inv_move [of N s g "Notifying subs" t]) simp_all
next
  case (step_return g)
  then show ?thesis using assms(3) by (intro ipc_inv_move [of N s g Returned t]) simp_all
next
  case step_enable
  then show ?thesis using assms(2) by simp
qed

lemma ipc_run_inv:
  assumes "ipc_run s t" "epoch t = epoch s" "ipc_inv N s" "N < 2 ^ 31"
  shows "ipc_inv N t"
  using assms
proof (induction rule: ipc_run.induct)
  case (ipc_trans s t u)
  have "epoch s \<le> epoch t" "epoch t \<le> epoch u"
    using ipc_run_epoch [OF ipc_trans.hyps(1)] ipc_step_epoch [OF ipc_trans.hyps(2)] by simp_all
  then have "epoch t = epoch s" "epoch u = epoch t" using ipc_trans.prems(1) by simp_all
  then show ?case using ipc_trans ipc_inv_step by blast
qed

text \<open>An invariant of the steps of one epoch that is kept under \<open>ipc_inv\<close> is kept by the runs.\<close>

lemma ipc_run_induct:
  assumes "ipc_run s t" "epoch t = epoch s" "ipc_inv N s" "N < 2 ^ 31" "P s"
    and step: "\<And>u v. ipc_step u v \<Longrightarrow> epoch v = epoch u \<Longrightarrow> ipc_inv N u \<Longrightarrow> P u \<Longrightarrow> P v"
  shows "P t"
  using assms(1,2,3,5)
proof (induction rule: ipc_run.induct)
  case (ipc_trans s t u)
  have "epoch s \<le> epoch t" "epoch t \<le> epoch u"
    using ipc_run_epoch [OF ipc_trans.hyps(1)] ipc_step_epoch [OF ipc_trans.hyps(2)] by simp_all
  then have e: "epoch t = epoch s" "epoch u = epoch t" using ipc_trans.prems(1) by simp_all
  have "P t" using ipc_trans.IH e(1) ipc_trans.prems by simp
  then show ?case
    using step [OF ipc_trans.hyps(2) e(2)] ipc_run_inv [OF ipc_trans.hyps(1) e(1) ipc_trans.prems(2) assms(4)]
    by blast
qed

text \<open>The current path is the initial one until the one switch of the epoch.\<close>

definition switched_once :: "IpcManager \<Rightarrow> ipc_sys \<Rightarrow> bool" where
  "switched_once m s \<longleftrightarrow> ipcList (mgr s) = ipcList m \<and>
     (curIPC (mgr s) = curIPC m \<or>
      NextIPC (curIPC m) (ipcList m) = Ret (curIPC (mgr s)) \<and> passed s \<noteq> [] \<and> (\<forall>g. pcs s g \<noteq> AtSwitch))"

lemma switched_once_move:
  assumes "switched_once m s" "ipcList (mgr t) = ipcList (mgr s)" "curIPC (mgr t) = curIPC (mgr s)"
    and "passed t = passed s" "\<forall>g. pcs t g = AtSwitch \<longrightarrow> pcs s g = AtSwitch"
  shows "switched_once m t"
  using assms unfolding switched_once_def by metis

lemma switched_once_step:
  assumes "ipc_step s t" "epoch t = epoch s" "ipc_inv N s" "N < 2 ^ 31" "switched_once m s"
  shows "switched_once m t"
  using assms(1)
proof cases
  case (step_pass g)
  then have "passed s = []" using ipc_pass_first [OF assms(3,4)] by blast
  then show ?thesis using assms(5) step_pass(1) by (auto simp: switched_once_def)
next
  case (step_switch g ipc)
  have only: "h = g" if "pcs s h = AtSwitch" for h
  proof -
    have "h \<in> fst ` set (passed s)" "g \<in> fst ` set (passed s)" "length (passed s) \<le> 1"
      using assms(3) that step_switch(2) by (auto simp: ipc_inv_def)
    then show ?thesis by (cases "passed s") auto
  qed
  have "passed s \<noteq> []" using assms(3) step_switch(2) by (auto simp: ipc_inv_def)
  moreover have "\<forall>h. pcs t h \<noteq> AtSwitch" using only step_switch(1) by auto
  moreover have old: "curIPC (mgr s) = curIPC m" "ipcList (mgr s) = ipcList m"
    using assms(5) step_switch(2) unfolding switched_once_def by blast+
  then have "NextIPC (curIPC m) (ipcList m) = Ret (curIPC (mgr t))" "ipcList (mgr t) = ipcList m"
    using step_switch(1,4) by simp_all
  ultimately show ?thesis unfolding switched_once_def using step_switch(1) by simp
next
  case step_enable
  then show ?thesis using assms(2) by simp
qed (rule switched_once_move [OF assms(5)]; simp)+

text \<open>After one finished call nobody can pass the check any more.\<close>

definition ipc_closed :: "string \<Rightarrow> ipc_sys \<Rightarrow> bool" where
  "ipc_closed cur s \<longleftrightarrow> curIPC (mgr s) = cur \<and> 1 \<le> unat (switchIPCCounter (mgr s)) \<and>
     (\<forall>g. pcs s g \<noteq> AtSwitch \<and> (pcs s g = AtLoad \<longrightarrow> 2 \<le> unat (switchIPCCounter (mgr s))))"

lemma ipc_closed_step:
  assumes "ipc_step s t" "epoch t = epoch s" "ipc_inv N s" "N < 2 ^ 31" "ipc_closed cur s"
  shows "ipc_closed cur t"
proof -
  have small: "unat (switchIPCCounter (mgr s)) < 2 ^ 31"
    using assms(3,4) card_entered [of N s] by (simp add: ipc_inv_def)
  from assms(1) show ?thesis
  proof cases
    case (step_add g)
    have "unat (switchIPCCounter (mgr s) + 1) = Suc (unat (switchIPCCounter (mgr s)))"
      using small by (simp add: unat_word_ariths)
    then show ?thesis using assms(5) step_add by (auto simp: ipc_closed_def)
  next
    case (step_pass g)
    then have "2 \<le> unat (switchIPCCounter (mgr s))" using assms(5) by (auto simp: ipc_closed_def)
    then show ?thesis using sint_counter [OF small] step_pass(3) by simp
  qed (use assms(2,5) in \<open>auto simp: ipc_closed_def\<close>)
qed

end
