(* ===== verification/IpcProps.thy ===== *)
theory IpcProps
  imports IpcManager
begin

text \<open>The properties of the IPC manager: which lists are accepted, the cycle of switches, and concurrent switches.\<close>

definition sIpcs :: IpcManager where
  "sIpcs = \<lparr>ipcList = [''a'', ''b'', ''c''], curIPC = ''a'', subscribers = [0, 1], switchIPCCounter = 0\<rparr>"

text \<open>A goroutine alone switches from the first path to the second.\<close>

lemma sIpcs_switched:
  obtains s where "ipc_run (ipc_start 1 sIpcs) s" "epoch s = 0" "switchIPCCounter (mgr s) = 1"
    "\<forall>g. pcs s g \<noteq> AtLoad \<and> pcs s g \<noteq> AtSwitch" "curIPC (mgr s) = ''b''" "length (passed s) = 1"
proof -
  let ?s0 = "ipc_start 1 sIpcs"
  let ?s1 = "?s0\<lparr>mgr := (mgr ?s0)\<lparr>switchIPCCounter := 1\<rparr>, pcs := (pcs ?s0)(0 := AtLoad)\<rparr>"
  let ?s2 = "?s1\<lparr>pcs := (pcs ?s1)(0 := AtSwitch), passed := [(0, 0)]\<rparr>"
  let ?s3 = "?s2\<lparr>mgr := (mgr ?s2)\<lparr>curIPC := ''b''\<rparr>, pcs := (pcs ?s2)(0 := Notifying [0, 1])\<rparr>"
  have "ipc_step ?s0 ?s1"
    using step_add [of ?s0 0] by (simp add: ipc_start_def EnableSwitchIPC_def)
  moreover have "ipc_step ?s1 ?s2" using step_pass [of ?s1 0] by (simp add: ipc_start_def)
  moreover have "NextIPC ''a'' [''a'', ''b'', ''c''] = Ret ''b''" by code_simp
  then have "ipc_step ?s2 ?s3"
    using step_switch [of ?s2 0 "''b''"] by (simp add: ipc_start_def sIpcs_def EnableSwitchIPC_def)
  ultimately have "ipc_run ?s0 ?s3" by (meson ipc_refl ipc_trans)
  then show ?thesis by (rule that) (simp_all add: ipc_start_def)
qed

text \<open>
  \<open>SetIPC\<close> accepts a list if and only if it is not empty and has no blank and no repeated path; then
  the first path is the current one. A refused list leaves the manager as it was.
\<close>

lemma set_ipc_accepts_iff:
  "(fst (SetIPC ipcs m) = None \<longleftrightarrow> ipcs \<noteq> [] \<and> distinct ipcs \<and> [] \<notin> set ipcs) \<and>
   snd (SetIPC ipcs m) = (if ipcs \<noteq> [] \<and> distinct ipcs \<and> [] \<notin> set ipcs
     then m\<lparr>ipcList := ipcs, curIPC := hd ipcs\<rparr> else m)"
proof (cases "fst (SetIPC ipcs m)")
  case None
  then have "ipcs \<noteq> []" by (simp add: SetIPC_ok_iff)
  then show ?thesis
    using None SetIPC_ok_iff [of ipcs m] by (auto simp: SetIPC_def hd_conv_nth split: option.splits)
next
  case (Some e)
  then show ?thesis using SetIPC_ok_iff [of ipcs m] SetIPC_error [OF Some] by auto
qed

text \<open>
  The switches go round: from an accepted list of \<open>n\<close> paths, the \<open>k\<close>-th switch leads to path
  \<open>k mod n\<close>, so that \<open>n\<close> switches visit every path and come back to the first.
\<close>

lemma switches_go_round:
  assumes "fst (SetIPC ipcs m) = None"
  shows "next_n k (curIPC (snd (SetIPC ipcs m))) (ipcList (snd (SetIPC ipcs m)))
    = Ret (ipcs ! (k mod length ipcs))"
proof -
  have ok: "ipcs \<noteq> []" "distinct ipcs" using assms SetIPC_ok_iff by blast+
  have "snd (SetIPC ipcs m) = m\<lparr>ipcList := ipcs, curIPC := ipcs ! 0\<rparr>"
    using assms ok by (auto simp: SetIPC_def split: option.splits)
  then show ?thesis using next_n_nth [OF ok(2), of 0 k] ok(1) by simp
qed



text \<open>
  A switch can be lost: two goroutines that both increment before either reads both find a switch in
  progress and return. The path has not changed and nobody is changing it.
\<close>

lemma switch_can_be_lost:
  "\<exists>s. ipc_run (ipc_start 2 m) s \<and> epoch s = 0 \<and> (\<forall>g. pcs s g = Returned) \<and> passed s = [] \<and>
    curIPC (mgr s) = curIPC m \<and> switchIPCCounter (mgr s) = 2"
proof -
  let ?s0 = "ipc_start 2 m"
  let ?s1 = "?s0\<lparr>mgr := (mgr ?s0)\<lparr>switchIPCCounter := 1\<rparr>, pcs := (pcs ?s0)(0 := AtLoad)\<rparr>"
  let ?s2 = "?s1\<lparr>mgr := (mgr ?s1)\<lparr>switchIPCCounter := 2\<rparr>, pcs := (pcs ?s1)(1 := AtLoad)\<rparr>"
  let ?s3 = "?s2\<lparr>pcs := (pcs ?s2)(0 := Returned)\<rparr>"
  let ?s4 = "?s3\<lparr>pcs := (pcs ?s3)(1 := Returned)\<rparr>"
  have "ipc_step ?s0 ?s1"
    using step_add [of ?s0 0] by (simp add: ipc_start_def EnableSwitchIPC_def)
  moreover have "ipc_step ?s1 ?s2"
    using step_add [of ?s1 1] by (simp add: ipc_start_def EnableSwitchIPC_def)
  moreover have "ipc_step ?s2 ?s3" by (rule step_busy) (simp_all add: ipc_start_def)
  moreover have "ipc_step ?s3 ?s4" by (rule step_busy) (simp_all add: ipc_start_def)
  ultimately have "ipc_run ?s0 ?s4" by (meson ipc_refl ipc_trans)
  then show ?thesis
    by (intro exI [of _ ?s4]) (auto simp: ipc_start_def EnableSwitchIPC_def)
qed

text \<open>
  From then on no call switches any more: once some call has been counted and none is between its
  increment and its switch, the path stays as it is until \<open>EnableSwitchIPC\<close> is called, which the program
  does only after a switch.
\<close>

lemma closed_until_enabled:
  assumes "ipc_run (ipc_start N m) s" "epoch s = 0" "N < 2 ^ 31"
    and "switchIPCCounter (mgr s) \<noteq> 0" "\<forall>g. pcs s g \<noteq> AtLoad \<and> pcs s g \<noteq> AtSwitch"
    and "ipc_run s t" "epoch t = 0"
  shows "curIPC (mgr t) = curIPC (mgr s)"
proof -
  have e: "epoch s = epoch (ipc_start N m)" "epoch t = epoch s"
    using assms(2,7) by (simp_all add: ipc_start_def)
  have inv: "ipc_inv N s" by (rule ipc_run_inv [OF assms(1) e(1) ipc_inv_start assms(3)])
  have "unat (switchIPCCounter (mgr s)) \<noteq> 0" using assms(4) by (simp add: unat_eq_0)
  then have "ipc_closed (curIPC (mgr s)) s" using assms(5) by (auto simp: ipc_closed_def)
  then have "ipc_closed (curIPC (mgr s)) t"
    by (rule ipc_run_induct [OF assms(6) e(2) inv assms(3)]) (rule ipc_closed_step [OF _ _ _ assms(3)])
  then show ?thesis by (simp add: ipc_closed_def)
qed

end
