(* ===== verification/Fetcher.thy ===== *)
theory Fetcher
  imports CoreTypes External IpcManager
begin

text \<open>
  \<open>ChainFetch\<close> (\<open>fetcher/fetch.go\<close>): reading blocks and transactions from an Ethereum node.
  \<^item> go-ethereum is a parameter: its data (\<open>GethBlock\<close>, \<open>GethTx\<close>, \<open>GethReceipt\<close>, the parts that the
    code reads), and the record \<open>EthClient\<close> of the calls on a connection and of the printing of
    addresses and hashes. A call reads and changes the outside world \<open>'w\<close>, so that a node may answer
    differently each time.
  \<^item> \<open>Env\<close> is the state a fetcher works on: the world, the IPC manager, and the number of switches
    requested (\<open>switchIPC\<close> starts a goroutine that calls \<open>ForceChangeIPC\<close>).
  \<^item> An error beside a result that nobody uses is the left part of a sum.
\<close>

section \<open>go-ethereum\<close>

record GethTx =
  gtTo :: "bytes option"
  gtHash :: bytes
  gtValue :: "int option"
  gtData :: bytes
  gtGas :: "64 word"
  gtGasPrice :: "int option"

record GethBlock =
  gbNumber :: "int option"
  gbTime :: "64 word"
  gbHash :: bytes
  gbTransactions :: "GethTx list"

record GethReceipt =
  grContractAddress :: bytes

record 'w EthClient =
  ethDial :: "string \<Rightarrow> 'w \<Rightarrow> string option \<times> 'w"
  BlockByNumber :: "int option \<Rightarrow> 'w \<Rightarrow> (string + GethBlock) \<times> 'w"
  TransactionSender :: "GethTx \<Rightarrow> bytes \<Rightarrow> nat \<Rightarrow> 'w \<Rightarrow> (string + bytes) \<times> 'w"
  HeaderByNumber :: "int option \<Rightarrow> 'w \<Rightarrow> (string + int option) \<times> 'w"
  TransactionReceipt :: "bytes \<Rightarrow> 'w \<Rightarrow> (string + GethReceipt option) \<times> 'w"
  ethTransactionByHash :: "bytes \<Rightarrow> 'w \<Rightarrow> (string + GethTx) \<times> 'w"
  addressString :: "bytes \<Rightarrow> string"
  hashString :: "bytes \<Rightarrow> string"
  BytesToHash :: "bytes \<Rightarrow> bytes"
  SubscribeNewHead :: "'w \<Rightarrow> string option \<times> 'w"
  ethClose :: "'w \<Rightarrow> unit \<times> 'w"

section \<open>The fetcher\<close>

record 'w Env =
  world :: 'w
  ipcManager :: IpcManager
  switchRequests :: nat

text \<open>A call on the node.\<close>

definition on_world :: "('w \<Rightarrow> 'r \<times> 'w) \<Rightarrow> ('w Env, 'r) st" where
  "on_world f = (\<lambda>e. let (r, w) = f (world e) in (Ret r, e\<lparr>world := w\<rparr>))"

definition switchIPC :: "('w Env, unit) st" where
  "switchIPC = (\<lambda>e. (Ret (), e\<lparr>switchRequests := switchRequests e + 1\<rparr>))"

text \<open>A fetcher has no state beyond its connection; the result is the error.\<close>

definition NewChainFetch :: "'w EthClient \<Rightarrow> ('w Env, string option) st" where
  "NewChainFetch cl =
     (\<lambda>e. bnd (on_world (ethDial cl (GetIPC (ipcManager e)))) (\<lambda>err.
          case err of
            Some m \<Rightarrow> bnd switchIPC (\<lambda>_. ret (Some m))
          | None \<Rightarrow> ret None) e)"

text \<open>A transaction that creates a contract without value is looked up in its receipt.\<close>

definition creates_contract :: "GethTx \<Rightarrow> bool" where
  "creates_contract tx \<longleftrightarrow>
     gtTo tx = None \<and> (case gtValue tx of None \<Rightarrow> True | Some v \<Rightarrow> sint (big_Int64 v) = 0)"

definition transaction_of :: "'w EthClient \<Rightarrow> GethTx \<Rightarrow> bytes \<Rightarrow> TransactionDetail" where
  "transaction_of cl tx sender =
     \<lparr>txFrom = addressString cl sender,
      txTo = (case gtTo tx of None \<Rightarrow> [] | Some a \<Rightarrow> addressString cl a),
      txTxHash = hashString cl (gtHash tx), txValue = gtValue tx\<rparr>"

definition contract_of :: "'w EthClient \<Rightarrow> GethTx \<Rightarrow> GethReceipt \<Rightarrow> TransactionDetail" where
  "contract_of cl tx receipt =
     \<lparr>txFrom = [], txTo = addressString cl (grContractAddress receipt),
      txTxHash = hashString cl (gtHash tx), txValue = gtValue tx\<rparr>"

text \<open>The loop of \<open>FetchABlock\<close> over the transactions of a block, from number \<open>index\<close> on.\<close>

fun fetch_txs ::
  "'w EthClient \<Rightarrow> bytes \<Rightarrow> nat \<Rightarrow> GethTx list \<Rightarrow> TransactionDetail list
   \<Rightarrow> ('w Env, string + TransactionDetail list) st" where
  "fetch_txs cl bh index [] transactions = ret (Inr transactions)"
| "fetch_txs cl bh index (tx # txs) transactions =
     bnd (on_world (TransactionSender cl tx bh index)) (\<lambda>r.
     case r of
       Inl err \<Rightarrow> bnd switchIPC (\<lambda>_. ret (Inl err))
     | Inr sender \<Rightarrow>
         (let transactions1 = transactions @ [transaction_of cl tx sender]
          in if creates_contract tx
             then bnd (on_world (TransactionReceipt cl (gtHash tx))) (\<lambda>r.
                  case r of
                    Inr (Some receipt) \<Rightarrow> fetch_txs cl bh (Suc index) txs (transactions1 @ [contract_of cl tx receipt])
                  | _ \<Rightarrow> fetch_txs cl bh (Suc index) txs transactions1)
             else fetch_txs cl bh (Suc index) txs transactions1))"

definition FetchABlock :: "'w EthClient \<Rightarrow> int option \<Rightarrow> ('w Env, string + BLockDetail) st" where
  "FetchABlock cl blockNumber =
     bnd (on_world (BlockByNumber cl blockNumber)) (\<lambda>r.
     case r of
       Inl err \<Rightarrow> bnd switchIPC (\<lambda>_. ret (Inl err))
     | Inr aBlock \<Rightarrow>
         bnd (fetch_txs cl (gbHash aBlock) 0 (gbTransactions aBlock) []) (\<lambda>r.
         case r of
           Inl err \<Rightarrow> ret (Inl err)
         | Inr transactions \<Rightarrow>
             ret (Inr \<lparr>bdBlockNumber = gbNumber aBlock, bdTime = Some (uint (gbTime aBlock)),
                       bdTransactions = transactions\<rparr>)))"

definition TransactionByHash ::
  "ext \<Rightarrow> 'w EthClient \<Rightarrow> string \<Rightarrow> ('w Env, string + TransactionExtra) st" where
  "TransactionByHash x cl txHash =
     (let (byteArr, err) = hexDecode x txHash; hash = BytesToHash cl byteArr
      in case err of
           Some e \<Rightarrow> ret (Inl e)
         | None \<Rightarrow>
             bnd (on_world (ethTransactionByHash cl hash)) (\<lambda>r.
             case r of
               Inl e \<Rightarrow> ret (Inl e)
             | Inr tx \<Rightarrow> ret (Inr \<lparr>exData = gtData tx, exGas = gtGas tx, exGasPrice = gtGasPrice tx\<rparr>)))"

definition GetLatestBlock :: "'w EthClient \<Rightarrow> ('w Env, string + int option) st" where
  "GetLatestBlock cl =
     bnd (on_world (HeaderByNumber cl None)) (\<lambda>r.
     case r of
       Inl err \<Rightarrow> bnd switchIPC (\<lambda>_. ret (Inl err))
     | Inr number \<Rightarrow> ret (Inr number))"

section \<open>Lemmas\<close>

text \<open>
  What a block becomes when every sender is known and the receipts are as given: the reference for
  \<open>FetchABlock\<close> on a node whose answers do not depend on the state.
\<close>

definition txs_of ::
  "'w EthClient \<Rightarrow> (GethTx \<Rightarrow> bytes) \<Rightarrow> (GethTx \<Rightarrow> GethReceipt option) \<Rightarrow> GethTx \<Rightarrow> TransactionDetail list" where
  "txs_of cl sender receipt tx =
     transaction_of cl tx (sender tx) #
     (if creates_contract tx
      then (case receipt tx of None \<Rightarrow> [] | Some r \<Rightarrow> [contract_of cl tx r]) else [])"

text \<open>A node that answers for the transactions of a block, the same in every state.\<close>

definition answers ::
  "'w EthClient \<Rightarrow> GethBlock \<Rightarrow> (GethTx \<Rightarrow> bytes) \<Rightarrow> (GethTx \<Rightarrow> GethReceipt option) \<Rightarrow> bool" where
  "answers cl b sender receipt \<longleftrightarrow>
     (\<forall>tx \<in> set (gbTransactions b). \<forall>i w.
        fst (TransactionSender cl tx (gbHash b) i w) = Inr (sender tx) \<and>
        (case fst (TransactionReceipt cl (gtHash tx) w) of
           Inr r \<Rightarrow> receipt tx = r | Inl _ \<Rightarrow> receipt tx = None))"

lemma fetch_txs_ok:
  assumes "answers cl b sender receipt" "set txs \<subseteq> set (gbTransactions b)"
  shows "\<exists>w. fetch_txs cl (gbHash b) i txs ts e =
    (Ret (Inr (ts @ concat (map (txs_of cl sender receipt) txs))), e\<lparr>world := w\<rparr>)"
  using assms(2)
proof (induction txs arbitrary: i ts e)
  case Nil
  then show ?case by (auto intro: exI [of _ "world e"])
next
  case (Cons tx txs)
  obtain w1 where w1: "TransactionSender cl tx (gbHash b) i (world e) = (Inr (sender tx), w1)"
    using assms(1) Cons.prems by (metis answers_def list.set_intros(1) prod.collapse subset_code(1))
  obtain r w2 where w2: "TransactionReceipt cl (gtHash tx) w1 = (r, w2)" by fastforce
  have rec: "(case r of Inr q \<Rightarrow> receipt tx = q | Inl _ \<Rightarrow> receipt tx = None)"
    using assms(1) Cons.prems w2 by (auto simp: answers_def dest!: bspec [of _ _ tx] spec [of _ w1])
  have sub: "set txs \<subseteq> set (gbTransactions b)" using Cons.prems by simp
  show ?case
  proof (cases "creates_contract tx")
    case False
    then show ?thesis
      using Cons.IH [OF sub, of "Suc i" "ts @ [transaction_of cl tx (sender tx)]" "e\<lparr>world := w1\<rparr>"] w1
      by (simp add: bnd_apply on_world_def txs_of_def)
  next
    case True
    then show ?thesis
      using Cons.IH [OF sub, of "Suc i" "ts @ txs_of cl sender receipt tx" "e\<lparr>world := w2\<rparr>"] w1 w2 rec
      by (auto simp: bnd_apply on_world_def txs_of_def Let_def split: sum.splits option.splits)
  qed
qed

lemma fetch_txs_world:
  "fetch_txs cl bh i txs ts e = (r, e') \<Longrightarrow>
   (\<exists>y. r = Ret y) \<and> ipcManager e' = ipcManager e \<and>
   switchRequests e' = switchRequests e + (case r of Ret (Inl _) \<Rightarrow> 1 | _ \<Rightarrow> 0)"
proof (induction txs arbitrary: i ts e)
  case Nil
  then show ?case by auto
next
  case (Cons tx txs)
  then show ?case
    by (auto simp: bnd_apply on_world_def switchIPC_def Let_def
        split: prod.splits sum.splits option.splits if_splits outcome.splits)
qed

lemma FetchABlock_world:
  "FetchABlock cl n e = (r, e') \<Longrightarrow>
   (\<exists>y. r = Ret y) \<and> ipcManager e' = ipcManager e \<and>
   switchRequests e' = switchRequests e + (case r of Ret (Inl _) \<Rightarrow> 1 | _ \<Rightarrow> 0)"
  by (auto simp: FetchABlock_def bnd_apply on_world_def switchIPC_def
      split: prod.splits sum.splits outcome.splits dest!: fetch_txs_world)

definition detail_of ::
  "'w EthClient \<Rightarrow> (GethTx \<Rightarrow> bytes) \<Rightarrow> (GethTx \<Rightarrow> GethReceipt option) \<Rightarrow> GethBlock \<Rightarrow> BLockDetail" where
  "detail_of cl sender receipt b =
     \<lparr>bdBlockNumber = gbNumber b, bdTime = Some (uint (gbTime b)),
      bdTransactions = concat (map (txs_of cl sender receipt) (gbTransactions b))\<rparr>"

lemma FetchABlock_ok:
  assumes "\<And>w. fst (BlockByNumber cl n w) = Inr b" "answers cl b sender receipt"
  shows "\<exists>w. FetchABlock cl n e = (Ret (Inr (detail_of cl sender receipt b)), e\<lparr>world := w\<rparr>)"
proof -
  obtain w1 where w1: "BlockByNumber cl n (world e) = (Inr b, w1)"
    using assms(1) by (metis prod.collapse)
  obtain w2 where "fetch_txs cl (gbHash b) 0 (gbTransactions b) [] (e\<lparr>world := w1\<rparr>) =
      (Ret (Inr (concat (map (txs_of cl sender receipt) (gbTransactions b)))), e\<lparr>world := w2\<rparr>)"
    using fetch_txs_ok [OF assms(2) subset_refl, of 0 "[]" "e\<lparr>world := w1\<rparr>"] by auto
  then show ?thesis
    using w1 by (intro exI [of _ w2]) (simp add: FetchABlock_def bnd_apply on_world_def detail_of_def)
qed

end
