(* ===== verification/Indexer.thy ===== *)
theory Indexer
  imports IndexRepo BatchRepo Fetcher "HOL-Library.AList"
begin

text \<open>
  \<open>Indexer\<close> (\<open>indexer/indexer.go\<close>): turning blocks into index entries, the batches that cover the chain,
  and the two ways a block arrives, from a batch or in real time.
  \<^item> \<open>Sys\<close> is the state of the program: the two databases of the index repository, the batch database,
    and the environment of the fetcher (the outside world, the IPC manager, the requested switches).
  \<^item> \<open>Runtime\<close> holds what Go's runtime decides: the clock, the order in which \<open>range\<close> visits a map, and
    whether the stop channel is closed when a \<open>select\<close> looks at it. Each may depend on the world.
  \<^item> A batch goroutine is the loop \<open>batch_loop\<close> of iterations \<open>batch_iter\<close>; the steps of several
    goroutines interleave at the pieces of an iteration (\<open>Workers\<close>).
\<close>

record 'w Runtime =
  timeNow :: "'w \<Rightarrow> gotime \<times> 'w"
  mapOrder :: "'w \<Rightarrow> ((string \<times> 8 word) list \<Rightarrow> (string \<times> 8 word) list) \<times> 'w"
  stopClosed :: "'w \<Rightarrow> bool \<times> 'w"

record ('db, 'w) Indexer =
  idxRepo :: "'db KVIndexRepo"
  idxBatchRepo :: "'db KVBatchRepo"
  idxClient :: "'w EthClient"
  idxRuntime :: "'w Runtime"
  idxExt :: ext
  idxNumBatch :: int

record ('db, 'w) Sys = "'db IndexDB" +
  batchDB :: 'db
  env :: "'w Env"

type_synonym ('db, 'w, 'a) sys_st = "(('db, 'w) Sys, 'a) st"

definition on_env :: "('w Env, 'a) st \<Rightarrow> ('db, 'w, 'a) sys_st" where
  "on_env m = (\<lambda>s. let (r, e) = m (env s) in (r, s\<lparr>env := e\<rparr>))"

definition on_batchDB :: "('db, 'a) st \<Rightarrow> ('db, 'w, 'a) sys_st" where
  "on_batchDB m = (\<lambda>s. let (r, d) = m (batchDB s) in (r, s\<lparr>batchDB := d\<rparr>))"

definition now :: "('db, 'w) Indexer \<Rightarrow> ('db, 'w, gotime) sys_st" where
  "now ix = on_env (on_world (timeNow (idxRuntime ix)))"

section \<open>CreateIndexData\<close>

definition AddressZero :: string where
  "AddressZero = ''0x0000000000000000000000000000000000000000''"

text \<open>
  The Go map \<open>sequenceMap\<close> is an association list. One more entry for an address: it is set to 0 when it
  is not there, then incremented, as a \<open>uint8\<close>.
\<close>

definition bump :: "string \<Rightarrow> (string \<times> 8 word) list \<Rightarrow> 8 word \<times> (string \<times> 8 word) list" where
  "bump a sequenceMap =
     (let m = (if map_of sequenceMap a = None then AList.update a 0 sequenceMap else sequenceMap);
          v = the (map_of m a) + 1
      in (v, AList.update a v m))"

text \<open>The body of the loop over the transactions.\<close>

definition index_tx ::
  "int option \<Rightarrow> TransactionDetail \<Rightarrow> AddressIndex list \<times> (string \<times> 8 word) list
   \<Rightarrow> (AddressIndex list \<times> (string \<times> 8 word) list) outcome" where
  "index_tx blockTime transaction acc =
     obind (deref (txValue transaction)) (\<lambda>posValue.
     (let (addressIndex, sequenceMap) = acc;
          negValue = posValue * (- 1);
          isNilTo = (txTo transaction = []);
          to = (if txTo transaction = [] then AddressZero else txTo transaction);
          isNilFrom = (txFrom transaction = []);
          from = (if txFrom transaction = [] then AddressZero else txFrom transaction);
          (addressIndex1, sequenceMap1) =
            (if \<not> isNilFrom
             then let (seq, m) = bump from sequenceMap
                  in (addressIndex @ [\<lparr>Address = from, Sequence = seq, aiTxHash = txTxHash transaction,
                        aiValue = Some negValue, aiTime = blockTime, CoupleAddress = to\<rparr>], m)
             else (addressIndex, sequenceMap));
          (addressIndex2, sequenceMap2) =
            (if \<not> isNilTo
             then let (seq, m) = bump to sequenceMap1
                  in (addressIndex1 @ [\<lparr>Address = to, Sequence = seq, aiTxHash = txTxHash transaction,
                        aiValue = Some posValue, aiTime = blockTime, CoupleAddress = from\<rparr>], m)
             else (addressIndex1, sequenceMap1))
      in Ret (addressIndex2, sequenceMap2)))"

fun index_txs ::
  "int option \<Rightarrow> TransactionDetail list \<Rightarrow> AddressIndex list \<times> (string \<times> 8 word) list
   \<Rightarrow> (AddressIndex list \<times> (string \<times> 8 word) list) outcome" where
  "index_txs blockTime [] acc = Ret acc"
| "index_txs blockTime (tx # txs) acc =
     obind (index_tx blockTime tx acc) (\<lambda>acc'. index_txs blockTime txs acc')"

text \<open>The whole function, given the time it reads and the order in which it visits the map.\<close>

definition create_index ::
  "gotime \<Rightarrow> ((string \<times> 8 word) list \<Rightarrow> (string \<times> 8 word) list) \<Rightarrow> BLockDetail
   \<Rightarrow> (AddressIndex list \<times> BlockIndex) outcome" where
  "create_index t ord blockDetail =
     obind (index_txs (bdTime blockDetail) (bdTransactions blockDetail) ([], [])) (\<lambda>(addressIndex, sequenceMap).
     Ret (addressIndex,
          \<lparr>biBlockNumber = big_String (bdBlockNumber blockDetail),
           biAddresses = map (\<lambda>(k, v). \<lparr>Address = k, Sequence = v\<rparr>) (ord sequenceMap),
           biTime = bdTime blockDetail, biCreatedAt = Some (tUnix t)\<rparr>))"

definition CreateIndexData ::
  "('db, 'w) Indexer \<Rightarrow> BLockDetail \<Rightarrow> ('db, 'w, AddressIndex list \<times> BlockIndex) sys_st" where
  "CreateIndexData ix blockDetail =
     bnd (now ix) (\<lambda>t.
     bnd (on_env (on_world (mapOrder (idxRuntime ix)))) (\<lambda>ord.
     lift (create_index t ord blockDetail)))"

section \<open>Processing a block\<close>

definition ProcessBlock :: "('db, 'w) Indexer \<Rightarrow> BLockDetail \<Rightarrow> bool \<Rightarrow> ('db, 'w, string option) sys_st" where
  "ProcessBlock ix blockDetail isBatch =
     bnd (CreateIndexData ix blockDetail) (\<lambda>(addressIndex, blockIndex).
     Store (idxExt ix) (idxRepo ix) addressIndex blockIndex isBatch)"

definition FetchAndProcess :: "('db, 'w) Indexer \<Rightarrow> int option \<Rightarrow> ('db, 'w, string option) sys_st" where
  "FetchAndProcess ix blockNumber =
     bnd (on_env (NewChainFetch (idxClient ix))) (\<lambda>err.
     if err \<noteq> None then ret err
     else bnd (on_env (FetchABlock (idxClient ix) blockNumber)) (\<lambda>r.
          case r of
            Inl e \<Rightarrow> ret (Some e)
          | Inr blockDetail \<Rightarrow> ProcessBlock ix blockDetail True))"

section \<open>Batches\<close>

definition GetInitBatches :: "gotime \<Rightarrow> int \<Rightarrow> int \<Rightarrow> int option \<Rightarrow> BatchStatus list" where
  "GetInitBatches t numBatch genesisBlock latestBlock =
     map (\<lambda>i. \<lparr>bsFrom = Some (genesisBlock + int i), bsTo = latestBlock, bsCreatedAt = Some (tUnix t),
               bsStep = word_of_int numBatch, bsCurrent = None, bsUpdatedAt = None\<rparr>)
       [0 ..< nat numBatch]"

text \<open>
  One iteration of \<open>batchIndex\<close>; \<open>i\<close> blocks were processed before. \<open>None\<close> is \<open>break\<close>, \<open>Some\<close> the batch to go
  on with. Both cases of the \<open>select\<close> go on: its \<open>break\<close> leaves the \<open>select\<close>, not the loop.
\<close>

definition batch_iter ::
  "('db, 'w) Indexer \<Rightarrow> string \<Rightarrow> nat \<Rightarrow> BatchStatus \<Rightarrow> ('db, 'w, BatchStatus option) sys_st" where
  "batch_iter ix tag i batch =
     bnd (lift (Next batch)) (\<lambda>(blockNumber, batch1).
     bnd (on_env (FetchABlock (idxClient ix) (Some blockNumber))) (\<lambda>r.
     case r of
       Inl err \<Rightarrow> ret None
     | Inr blockDetail \<Rightarrow>
         bnd (ProcessBlock ix blockDetail True) (\<lambda>err.
         case err of
           Some e \<Rightarrow> lift (Panic (tag @ '' Indexer: cannot process block '' @ big_String (Some blockNumber) @
                              '' , error is '' @ e))
         | None \<Rightarrow>
             bnd (now ix) (\<lambda>t.
             (let batch2 = batch1\<lparr>bsUpdatedAt := Some (tUnix t)\<rparr>
              in bnd (on_batchDB (UpdateBatch (idxBatchRepo ix) batch2)) (\<lambda>err.
                 case err of
                   Some e \<Rightarrow> lift (Panic (tag @ '' Indexer: cannot update batch for process block '' @
                                      big_String (Some blockNumber) @ '' , error is '' @ e))
                 | None \<Rightarrow>
                     if (i + 1) mod 10 = 0
                     then bnd (on_env (on_world (stopClosed (idxRuntime ix)))) (\<lambda>closed. ret (Some batch2))
                     else ret (Some batch2)))))))"

partial_function (option) batch_loop ::
  "('db, 'w) Indexer \<Rightarrow> string \<Rightarrow> nat \<Rightarrow> BatchStatus \<Rightarrow> ('db, 'w) Sys \<Rightarrow> (unit outcome \<times> ('db, 'w) Sys) option" where
  "batch_loop ix tag i batch s =
     (case IsDone batch of
        Ret fin \<Rightarrow>
          (if fin then Some (Ret (), s)
           else (case batch_iter ix tag i batch s of
                   (Ret b, s') \<Rightarrow>
                     (case b of None \<Rightarrow> Some (Ret (), s') | Some batch' \<Rightarrow> batch_loop ix tag (i + 1) batch' s')
                 | (Panic e, s') \<Rightarrow> Some (Panic e, s')
                 | (Diverge, s') \<Rightarrow> Some (Diverge, s')))
      | Panic e \<Rightarrow> Some (Panic e, s)
      | Diverge \<Rightarrow> Some (Diverge, s))"

definition run_loop :: "('s \<Rightarrow> ('a outcome \<times> 's) option) \<Rightarrow> ('s, 'a) st" where
  "run_loop f = (\<lambda>s. case f s of None \<Rightarrow> (Diverge, s) | Some r \<Rightarrow> r)"

definition batchIndex :: "('db, 'w) Indexer \<Rightarrow> BatchStatus \<Rightarrow> string \<Rightarrow> ('db, 'w, unit) sys_st" where
  "batchIndex ix batch tag =
     bnd (now ix) (\<lambda>_.
     bnd (on_env (NewChainFetch (idxClient ix))) (\<lambda>err.
     if err \<noteq> None then ret ()
     else run_loop (batch_loop ix tag 0 batch)))"

section \<open>Starting and resuming\<close>

text \<open>The loop of \<open>getBatches\<close> over the stored batches: the batches so far, and whether one was extended.\<close>

fun resume_batches ::
  "('db, 'w) Indexer \<Rightarrow> int \<Rightarrow> int option \<Rightarrow> BatchStatus list \<Rightarrow> BatchStatus list \<Rightarrow> bool
   \<Rightarrow> ('db, 'w, BatchStatus list \<times> bool) sys_st" where
  "resume_batches ix lastBlockNum latestBlock [] batches found = ret (batches, found)"
| "resume_batches ix lastBlockNum latestBlock (batch # rest) batches found =
     bnd (lift (IsDone batch)) (\<lambda>fin.
     if fin then resume_batches ix lastBlockNum latestBlock rest batches found
     else bnd (lift (deref (bsFrom batch))) (\<lambda>from.
          if lastBlockNum = from
          then bnd (on_batchDB (ReplaceBatch (idxBatchRepo ix) (bsFrom batch) latestBlock)) (\<lambda>_.
               resume_batches ix lastBlockNum latestBlock rest (batches @ [batch\<lparr>bsTo := latestBlock\<rparr>]) True)
          else resume_batches ix lastBlockNum latestBlock rest (batches @ [batch]) found))"

text \<open>
  The number of the last block; without a last block its number is the empty string, and the failed
  conversion leaves 0.
\<close>

definition last_block_num :: "(string + BlockIndex) \<Rightarrow> int" where
  "last_block_num r =
     (let lastBlock = (case r of Inl e \<Rightarrow> emptyBlockIndex | Inr b \<Rightarrow> b)
      in fst (big_SetString (biBlockNumber lastBlock)))"

definition getBatches :: "('db, 'w) Indexer \<Rightarrow> int option \<Rightarrow> ('db, 'w, BatchStatus list) sys_st" where
  "getBatches ix latestBlock =
     bnd (\<lambda>s. (GetAllBatchStatuses (idxBatchRepo ix) (batchDB s), s)) (\<lambda>allBatches.
     bnd (now ix) (\<lambda>t.
     if length allBatches = 0
     then bnd (now ix) (\<lambda>t1. ret (GetInitBatches t1 (idxNumBatch ix) 0 latestBlock))
     else bnd (\<lambda>s. (GetLastBlock (idxExt ix) (idxRepo ix) s, s)) (\<lambda>lastBlock.
          (let lastBlockNum = last_block_num lastBlock
           in bnd (\<lambda>s. (GetAllBatchStatuses (idxBatchRepo ix) (batchDB s), s)) (\<lambda>allBatches.
              bnd (resume_batches ix lastBlockNum latestBlock allBatches [] False) (\<lambda>(batches, found).
              if \<not> found
              then ret (batches @ [\<lparr>bsFrom = Some lastBlockNum, bsTo = latestBlock, bsCreatedAt = Some (tUnix t),
                                   bsStep = 1, bsCurrent = None, bsUpdatedAt = None\<rparr>])
              else ret batches))))))"

end
