(* ===== verification/IndexData.thy ===== *)
theory IndexData
  imports Indexer IndexRepoSpec "HOL-Library.Multiset"
begin

text \<open>
  What \<open>CreateIndexData\<close> computes: the two entries of every transaction, numbered per address by their
  order in the block, as a \<open>uint8\<close>; and the block index with the last number of every address. From it,
  when the entries of a block are well formed, when their keys differ, and when the block index records
  them all.
\<close>

section \<open>The entries of a block\<close>

definition or_zero :: "string \<Rightarrow> string" where
  "or_zero a = (if a = [] then AddressZero else a)"

definition tx_entries :: "int option \<Rightarrow> TransactionDetail \<Rightarrow> AddressIndex list" where
  "tx_entries t tx =
     (if txFrom tx \<noteq> []
      then [\<lparr>Address = txFrom tx, Sequence = 0, aiTxHash = txTxHash tx, aiValue = map_option uminus (txValue tx),
             aiTime = t, CoupleAddress = or_zero (txTo tx)\<rparr>] else []) @
     (if txTo tx \<noteq> []
      then [\<lparr>Address = txTo tx, Sequence = 0, aiTxHash = txTxHash tx, aiValue = txValue tx,
             aiTime = t, CoupleAddress = or_zero (txFrom tx)\<rparr>] else [])"

definition block_entries :: "BLockDetail \<Rightarrow> AddressIndex list" where
  "block_entries bd = concat (map (tx_entries (bdTime bd)) (bdTransactions bd))"

definition occ :: "string \<Rightarrow> AddressIndex list \<Rightarrow> nat" where
  "occ a es = count_list (map Address es) a"

text \<open>The \<open>k\<close>-th entry of an address in a block gets the number \<open>k\<close>, counted from 1 and modulo 256.\<close>

definition numbered :: "AddressIndex list \<Rightarrow> AddressIndex list" where
  "numbered es = map (\<lambda>k. (es ! k)\<lparr>Sequence := of_nat (occ (Address (es ! k)) (take (Suc k) es))\<rparr>) [0 ..< length es]"

lemma occ_Nil [simp]: "occ a [] = 0"
  by (simp add: occ_def)

lemma occ_append [simp]: "occ a (es @ fs) = occ a es + occ a fs"
  by (simp add: occ_def)

lemma occ_single [simp]: "occ a [e] = (if Address e = a then 1 else 0)"
  by (simp add: occ_def)

lemma occ_take_le: "occ a (take k es) \<le> occ a es"
  by (metis append_take_drop_id le_add1 occ_append)

lemma occ_pos: "e \<in> set es \<Longrightarrow> 0 < occ (Address e) es"
  by (simp add: occ_def count_list_0_iff flip: neq0_conv)

lemma numbered_Nil [simp]: "numbered [] = []"
  by (simp add: numbered_def)

lemma length_numbered [simp]: "length (numbered es) = length es"
  by (simp add: numbered_def)

lemma numbered_nth:
  "k < length es \<Longrightarrow>
   numbered es ! k = (es ! k)\<lparr>Sequence := of_nat (occ (Address (es ! k)) (take (Suc k) es))\<rparr>"
  by (simp add: numbered_def)

lemma numbered_snoc [simp]:
  "numbered (es @ [e]) = numbered es @ [e\<lparr>Sequence := of_nat (Suc (occ (Address e) es))\<rparr>]"
  by (rule nth_equalityI) (auto simp: numbered_nth nth_append less_Suc_eq)

lemma numbered_snoc2 [simp]:
  "numbered (es @ [e, f]) = numbered es @ [e\<lparr>Sequence := of_nat (Suc (occ (Address e) es))\<rparr>,
     f\<lparr>Sequence := of_nat (Suc (occ (Address f) (es @ [e])))\<rparr>]"
  using numbered_snoc [of "es @ [e]" f] by simp

lemma of_nat_byte_neq:
  assumes "p < q" "q \<le> 256" "0 < p" "(of_nat p :: 8 word) = of_nat q"
  shows False
proof -
  have "p mod 256 = q mod 256" using arg_cong [OF assms(4), of unat] by (simp add: unat_of_nat)
  then show False using assms(1-3) by (cases "q = 256") auto
qed

section \<open>The sequence map\<close>

text \<open>The map after the entries \<open>es\<close>: the number of entries of every address that has one.\<close>

definition seqs_of :: "AddressIndex list \<Rightarrow> (string \<times> 8 word) list \<Rightarrow> bool" where
  "seqs_of es m \<longleftrightarrow>
     distinct (map fst m) \<and> (\<forall>a. map_of m a = (if occ a es = 0 then None else Some (of_nat (occ a es))))"

lemma bump_seqs:
  assumes "seqs_of es m" "bump (Address e) m = (v, m')"
  shows "v = of_nat (Suc (occ (Address e) es)) \<and> seqs_of (es @ [e]) m'"
proof (cases "occ (Address e) es = 0")
  case True
  then have m: "m' = AList.update (Address e) 1 (AList.update (Address e) 0 m)" "v = 1"
    using assms by (auto simp: bump_def seqs_of_def update_conv' Let_def)
  then show ?thesis
    using assms(1) True by (auto simp: seqs_of_def update_conv' distinct_update)
next
  case False
  then have m: "m' = AList.update (Address e) (of_nat (occ (Address e) es) + 1) m"
    "v = of_nat (occ (Address e) es) + 1"
    using assms by (auto simp: bump_def seqs_of_def Let_def)
  then show ?thesis
    using assms(1) False by (auto simp: seqs_of_def update_conv' distinct_update add.commute)
qed

definition index_inv :: "AddressIndex list \<Rightarrow> AddressIndex list \<times> (string \<times> 8 word) list \<Rightarrow> bool" where
  "index_inv es acc \<longleftrightarrow> fst acc = numbered es \<and> seqs_of es (snd acc)"

lemma index_tx_inv:
  assumes "txValue tx = Some v" "index_inv es acc"
  shows "\<exists>acc'. index_tx t tx acc = Ret acc' \<and> index_inv (es @ tx_entries t tx) acc'"
proof -
  obtain l m where acc: "acc = (l, m)" by fastforce
  let ?f = "\<lparr>Address = txFrom tx, Sequence = 0, aiTxHash = txTxHash tx, aiValue = Some (- v),
      aiTime = t, CoupleAddress = or_zero (txTo tx)\<rparr>"
  let ?t = "\<lparr>Address = txTo tx, Sequence = 0, aiTxHash = txTxHash tx, aiValue = Some v,
      aiTime = t, CoupleAddress = or_zero (txFrom tx)\<rparr>"
  let ?es1 = "es @ (if txFrom tx \<noteq> [] then [?f] else [])"
  have inv: "l = numbered es" "seqs_of es m" using assms(2) by (simp_all add: index_inv_def acc)
  obtain q1 m1 where b1: "bump (txFrom tx) m = (q1, m1)" by fastforce
  note s1 = bump_seqs [of es m ?f, simplified, OF inv(2) b1]
  define m1' where "m1' = (if txFrom tx \<noteq> [] then m1 else m)"
  have inv1: "seqs_of ?es1 m1'" using inv(2) s1 by (simp add: m1'_def)
  obtain q2 m2 where b2: "bump (txTo tx) m1' = (q2, m2)" by fastforce
  note s2 = bump_seqs [of ?es1 m1' ?t, simplified, OF inv1 b2]
  show ?thesis
    using assms(1) inv b1 b2 s1 s2 inv1
    by (auto simp: index_tx_def acc index_inv_def tx_entries_def or_zero_def Let_def m1'_def)
qed

lemma index_txs_inv:
  assumes "\<forall>tx \<in> set txs. txValue tx \<noteq> None" "index_inv es acc"
  shows "\<exists>acc'. index_txs t txs acc = Ret acc' \<and> index_inv (es @ concat (map (tx_entries t) txs)) acc'"
  using assms
proof (induction txs arbitrary: es acc)
  case (Cons tx txs)
  then obtain v where "txValue tx = Some v" by auto
  from index_tx_inv [OF this Cons.prems(2), of t] obtain acc1 where
    "index_tx t tx acc = Ret acc1" "index_inv (es @ tx_entries t tx) acc1" by auto
  with Cons.IH [of "es @ tx_entries t tx" acc1] Cons.prems(1) show ?case by simp
qed simp

text \<open>The result of \<open>CreateIndexData\<close>.\<close>

lemma create_index_ok:
  assumes "\<forall>tx \<in> set (bdTransactions bd). txValue tx \<noteq> None"
  obtains m where "create_index t ord bd = Ret (numbered (block_entries bd),
      \<lparr>biBlockNumber = big_String (bdBlockNumber bd),
       biAddresses = map (\<lambda>(k, v). \<lparr>Address = k, Sequence = v\<rparr>) (ord m),
       biTime = bdTime bd, biCreatedAt = Some (tUnix t)\<rparr>)"
    "seqs_of (block_entries bd) m"
proof -
  have "index_inv [] ([], [])" by (simp add: index_inv_def seqs_of_def)
  from index_txs_inv [OF assms this, of "bdTime bd"] obtain acc where
    "index_txs (bdTime bd) (bdTransactions bd) ([], []) = Ret acc" "index_inv (block_entries bd) acc"
    by (auto simp: block_entries_def)
  then show ?thesis
    by (intro that [of "snd acc"]) (auto simp: create_index_def index_inv_def split: prod.splits)
qed

lemma create_index_total:
  "\<forall>tx \<in> set (bdTransactions bd). txValue tx \<noteq> None \<Longrightarrow> \<exists>idx b. create_index t ord bd = Ret (idx, b)"
  by (rule create_index_ok [of bd t ord]) auto

lemma index_tx_None: "txValue tx = None \<Longrightarrow> \<exists>e. index_tx t tx acc = Panic e"
  by (simp add: index_tx_def)

lemma index_tx_Some: "txValue tx = Some v \<Longrightarrow> \<exists>acc'. index_tx t tx acc = Ret acc'"
  by (auto simp: index_tx_def Let_def split: prod.splits)

lemma index_txs_None:
  assumes "\<exists>tx \<in> set txs. txValue tx = None"
  shows "\<exists>e. index_txs t txs acc = Panic e"
  using assms
proof (induction txs arbitrary: acc)
  case (Cons tx txs)
  show ?case
  proof (cases "txValue tx")
    case None
    then show ?thesis using index_tx_None [of tx t acc] by auto
  next
    case (Some v)
    then obtain acc' where "index_tx t tx acc = Ret acc'" using index_tx_Some by blast
    then show ?thesis using Cons Some by simp
  qed
qed simp

lemma create_index_nil:
  "\<exists>tx \<in> set (bdTransactions bd). txValue tx = None \<Longrightarrow> \<exists>e. create_index t ord bd = Panic e"
  using index_txs_None [of "bdTransactions bd" "bdTime bd" "([], [])"] by (auto simp: create_index_def)

section \<open>Well-formed blocks\<close>

text \<open>
  A block as the fetcher gives it: a number, a time inside the four-byte window, amounts, hashes of full
  length, and addresses of full length in printed form.
\<close>

definition end_ok :: "ext \<Rightarrow> string \<Rightarrow> bool" where
  "end_ok x a \<longleftrightarrow> a = [] \<or> addr_ok x a \<and> norm_hex x a = a"

definition tx_ok :: "ext \<Rightarrow> TransactionDetail \<Rightarrow> bool" where
  "tx_ok x tx \<longleftrightarrow> end_ok x (txFrom tx) \<and> end_ok x (txTo tx) \<and> hash_ok x (txTxHash tx) \<and> txValue tx \<noteq> None"

definition bd_ok :: "ext \<Rightarrow> BLockDetail \<Rightarrow> bool" where
  "bd_ok x bd \<longleftrightarrow>
     (\<exists>n. bdBlockNumber bd = Some n \<and> 0 \<le> n) \<and> (\<exists>t. bdTime bd = Some t \<and> time_ok t) \<and>
     (\<forall>tx \<in> set (bdTransactions bd). tx_ok x tx) \<and> addr_ok x AddressZero"

text \<open>How many entries the block has for any one address.\<close>

definition at_most :: "nat \<Rightarrow> BLockDetail \<Rightarrow> bool" where
  "at_most n bd \<longleftrightarrow> (\<forall>a. occ a (block_entries bd) \<le> n)"

lemma set_numbered:
  "i \<in> set (numbered es) \<longleftrightarrow>
   (\<exists>k < length es. i = (es ! k)\<lparr>Sequence := of_nat (occ (Address (es ! k)) (take (Suc k) es))\<rparr>)"
  by (auto simp: numbered_def)

lemma block_entry_ok:
  assumes "bd_ok x bd" "e \<in> set (block_entries bd)"
  shows "ai_ok x e \<and> norm_hex x (Address e) = Address e \<and> aiTime e = bdTime bd"
  using assms
  by (auto simp: bd_ok_def block_entries_def tx_entries_def ai_ok_def tx_ok_def end_ok_def or_zero_def
      split: if_splits)

lemma ai_ok_seq [simp]: "ai_ok x (i\<lparr>Sequence := q\<rparr>) = ai_ok x i"
  by (simp add: ai_ok_def)

lemma numbered_ok:
  "bd_ok x bd \<Longrightarrow> i \<in> set (numbered (block_entries bd)) \<Longrightarrow> ai_ok x i"
  using block_entry_ok by (fastforce simp: set_numbered)

lemma occ_take_Suc: "k < length es \<Longrightarrow> occ (Address (es ! k)) (take (Suc k) es) = Suc (occ (Address (es ! k)) (take k es))"
  by (simp add: take_Suc_conv_app_nth)

text \<open>Earlier entries of the same address have smaller counts.\<close>

lemma occ_take_mono: "j \<le> k \<Longrightarrow> occ a (take j es) \<le> occ a (take k es)"
  using occ_take_le [of a j "take k es"] by (simp add: min_def)

lemma occ_take_less:
  assumes "j < k" "k < length es" "Address (es ! j) = Address (es ! k)"
  shows "occ (Address (es ! j)) (take (Suc j) es) < occ (Address (es ! k)) (take (Suc k) es)"
  using occ_take_mono [of "Suc j" k "Address (es ! k)" es] occ_take_Suc [OF assms(2)] assms by simp

lemma distinct_keys:
  assumes "bd_ok x bd" "at_most 256 bd"
  shows "distinct (map (ai_key x) (numbered (block_entries bd)))"
proof -
  let ?es = "block_entries bd"
  have neq: "ai_key x (numbered ?es ! j) \<noteq> ai_key x (numbered ?es ! k)"
    if jk: "j < k" "k < length ?es" for j k
  proof
    assume eq: "ai_key x (numbered ?es ! j) = ai_key x (numbered ?es ! k)"
    let ?a = "Address (?es ! j)" and ?b = "Address (?es ! k)"
    have j: "j < length ?es" using jk by simp
    have "norm_hex x ?a = ?a" "norm_hex x ?b = ?b"
      using block_entry_ok [OF assms(1)] jk j by (metis nth_mem)+
    moreover have "addr_bytes x ?a = addr_bytes x ?b"
      using eq jk j by (simp add: ai_key_def numbered_nth)
    ultimately have ab: "?a = ?b" by (metis norm_hex_def)
    let ?p = "occ ?a (take (Suc j) ?es)" and ?q = "occ ?b (take (Suc k) ?es)"
    have "?p < ?q" by (rule occ_take_less [OF jk ab])
    moreover have "?q \<le> 256" using occ_take_le [of ?b "Suc k" ?es] assms(2) by (meson at_most_def le_trans)
    moreover have "0 < ?p" using occ_take_Suc [OF j] by simp
    moreover have "(of_nat ?p :: 8 word) = of_nat ?q" using eq jk j by (simp add: ai_key_def numbered_nth)
    ultimately show False by (rule of_nat_byte_neq)
  qed
  show ?thesis
    unfolding distinct_conv_nth
  proof (intro allI impI)
    fix j k
    assume "j < length (map (ai_key x) (numbered ?es))" "k < length (map (ai_key x) (numbered ?es))" "j \<noteq> k"
    then show "map (ai_key x) (numbered ?es) ! j \<noteq> map (ai_key x) (numbered ?es) ! k"
      using neq [of j k] neq [of k j] by (cases j k rule: linorder_cases) auto
  qed
qed

text \<open>The block index records every entry, unless an address has more than 255.\<close>

definition seq_addresses :: "(string \<times> 8 word) list \<Rightarrow> AddressSequence list" where
  "seq_addresses m = map (\<lambda>(k, v). \<lparr>Address = k, Sequence = v\<rparr>) m"

lemma in_seq_addresses: "\<lparr>Address = a, Sequence = q\<rparr> \<in> set (seq_addresses m) \<longleftrightarrow> (a, q) \<in> set m"
  by (auto simp: seq_addresses_def image_iff split_beta intro!: bexI [of _ "(a, q)"])

lemma recorded:
  assumes "seqs_of es m" "k < length es"
  shows "\<lparr>Address = Address (es ! k), Sequence = of_nat (occ (Address (es ! k)) es)\<rparr> \<in> set (seq_addresses m)"
proof -
  have "occ (Address (es ! k)) es \<noteq> 0" using occ_pos [of "es ! k" es] assms(2) by simp
  then have "map_of m (Address (es ! k)) = Some (of_nat (occ (Address (es ! k)) es))"
    using assms(1) by (simp add: seqs_of_def)
  then show ?thesis by (simp add: in_seq_addresses map_of_SomeD)
qed

lemma recorded_addresses:
  assumes "seqs_of es m" "a \<in> set (seq_addresses m)"
  shows "(\<exists>e \<in> set es. Address a = Address e) \<and> Sequence a = of_nat (occ (Address a) es)"
proof -
  obtain k v where kv: "a = \<lparr>Address = k, Sequence = v\<rparr>" "(k, v) \<in> set m"
    using assms(2) by (auto simp: seq_addresses_def)
  then have "map_of m k = Some v" using assms(1) by (intro map_of_is_SomeI) (simp_all add: seqs_of_def)
  then have "occ k es \<noteq> 0 \<and> v = of_nat (occ k es)"
    using assms(1) unfolding seqs_of_def by (metis option.distinct(1) option.inject)
  then show ?thesis using kv(1) by (auto simp: occ_def count_list_0_iff)
qed

lemma block_entries_seq: "k < length (block_entries bd) \<Longrightarrow> (block_entries bd ! k)\<lparr>Sequence := 0\<rparr> = block_entries bd ! k"
proof -
  have "e\<lparr>Sequence := 0\<rparr> = e" if "e \<in> set (block_entries bd)" for e
    using that by (auto simp: block_entries_def tx_entries_def split: if_splits)
  then show "k < length (block_entries bd) \<Longrightarrow> ?thesis" using nth_mem by blast
qed

lemma occ_filter: "occ a es = length (filter (\<lambda>e. Address e = a) es)"
  by (induction es) (simp_all add: occ_def)

lemma occ_card: "occ a es = card {j. j < length es \<and> Address (es ! j) = a}"
  by (simp add: occ_filter length_filter_conv_card)

lemma occ_numbered: "length (filter (\<lambda>i. Address i = a) (numbered es)) = occ a es"
proof -
  have "map Address (numbered es) = map Address es"
    by (rule nth_equalityI) (simp_all add: numbered_nth)
  then show ?thesis by (simp add: occ_def flip: occ_filter)
qed

text \<open>The entry of an address with a given count.\<close>

lemma occ_reached:
  assumes "n < occ a es"
  shows "\<exists>k < length es. Address (es ! k) = a \<and> occ a (take (Suc k) es) = Suc n"
  using assms
proof (induction es rule: rev_induct)
  case (snoc e es)
  show ?case
  proof (cases "n < occ a es")
    case True
    then obtain k where "k < length es" "Address (es ! k) = a" "occ a (take (Suc k) es) = Suc n"
      using snoc.IH by auto
    then show ?thesis by (intro exI [of _ k]) (simp add: nth_append)
  next
    case False
    then have "Address e = a" "occ a es = n" using snoc.prems by (auto split: if_splits)
    then show ?thesis by (intro exI [of _ "length es"]) simp
  qed
qed simp

lemma not_distinct_keys:
  assumes "\<not> at_most 256 bd"
  shows "\<not> distinct (map (ai_key x) (numbered (block_entries bd)))"
proof -
  let ?es = "block_entries bd"
  obtain a where a: "256 < occ a ?es" using assms by (auto simp: at_most_def not_le)
  obtain j where j: "j < length ?es" "Address (?es ! j) = a" "occ a (take (Suc j) ?es) = 1"
    using occ_reached [of 0 a ?es] a by auto
  obtain k where k: "k < length ?es" "Address (?es ! k) = a" "occ a (take (Suc k) ?es) = 257"
    using occ_reached [of 256 a ?es] a by auto
  have "aiTime e = bdTime bd" if "e \<in> set ?es" for e
    using that by (auto simp: block_entries_def tx_entries_def split: if_splits)
  then have "aiTime (?es ! j) = aiTime (?es ! k)" using j(1) k(1) nth_mem by metis
  then have "ai_key x (numbered ?es ! j) = ai_key x (numbered ?es ! k)"
    using j k by (simp add: ai_key_def numbered_nth)
  moreover have "j \<noteq> k" using j(3) k(3) by auto
  ultimately show ?thesis using j(1) k(1) by (auto simp: distinct_conv_nth)
qed

end
