(* ===== verification/IndexerProps.thy ===== *)
theory IndexerProps
  imports RepoProps IndexData
begin

text \<open>
  The properties of indexing a block: the entries and their numbers, keys that differ, what the block
  record lists, and that a reorganisation of an indexed block undoes it.
\<close>

definition sTx :: "byte \<Rightarrow> byte \<Rightarrow> int \<Rightarrow> TransactionDetail" where
  "sTx a b v = \<lparr>txFrom = sAddr a, txTo = sAddr b, txTxHash = sHash 9, txValue = Some v\<rparr>"

definition sDetail :: "TransactionDetail list \<Rightarrow> BLockDetail" where
  "sDetail txs = \<lparr>bdBlockNumber = Some 7, bdTime = Some 1500000000, bdTransactions = txs\<rparr>"

lemma sTx_ok [simp]: "tx_ok refExt (sTx a b v)"
  by (simp add: tx_ok_def sTx_def end_ok_def)

lemma AddressZero_ok [simp]: "addr_ok refExt AddressZero"
proof -
  have eq: "AddressZero = sAddr 0" by code_simp
  show ?thesis unfolding eq by (rule sAddr_ok)
qed

lemma sDetail_ok: "\<forall>tx \<in> set txs. tx_ok refExt tx \<Longrightarrow> bd_ok refExt (sDetail txs)"
  by (simp add: bd_ok_def sDetail_def)

section \<open>Index data\<close>

text \<open>
  C14. \<open>CreateIndexData\<close> makes, for every transaction in order, an entry of the sender with the negated
  amount and one of the receiver with the amount, each with the other end (the zero address when there
  is none); an entry's sequence is its number among the entries of its address so far, modulo 256.
\<close>

theorem create_index_entries:
  assumes "create_index t ord bd = Ret (idx, b)"
  shows "map (\<lambda>i. i\<lparr>Sequence := 0\<rparr>) idx = concat (map (tx_entries (bdTime bd)) (bdTransactions bd)) \<and>
    (\<forall>k < length idx. Sequence (idx ! k) = of_nat (card {j. j \<le> k \<and> Address (idx ! j) = Address (idx ! k)})) \<and>
    biBlockNumber b = big_String (bdBlockNumber bd) \<and> biTime b = bdTime bd \<and> biCreatedAt b = Some (tUnix t)"
proof -
  have vals: "\<forall>tx \<in> set (bdTransactions bd). txValue tx \<noteq> None"
    using create_index_nil [of bd t ord] assms by (metis outcome.distinct(1))
  obtain m where m: "create_index t ord bd = Ret (numbered (block_entries bd),
      \<lparr>biBlockNumber = big_String (bdBlockNumber bd),
       biAddresses = map (\<lambda>(k, v). \<lparr>Address = k, Sequence = v\<rparr>) (ord m),
       biTime = bdTime bd, biCreatedAt = Some (tUnix t)\<rparr>)"
    by (rule create_index_ok [OF vals])
  let ?es = "block_entries bd"
  have idx: "idx = numbered ?es" using m assms by simp
  have "map (\<lambda>i. i\<lparr>Sequence := 0\<rparr>) (numbered ?es) = ?es"
    by (rule nth_equalityI) (auto simp: numbered_nth block_entries_seq)
  moreover have "Sequence (idx ! k) = of_nat (card {j. j \<le> k \<and> Address (idx ! j) = Address (idx ! k)})"
    if k: "k < length idx" for k
  proof -
    have "card {j. j \<le> k \<and> Address (idx ! j) = Address (idx ! k)} = occ (Address (?es ! k)) (take (Suc k) ?es)"
      unfolding occ_card by (rule arg_cong [where f = card]) (use k in \<open>auto simp: idx numbered_nth less_Suc_eq_le\<close>)
    then show ?thesis using k by (simp add: idx numbered_nth)
  qed
  ultimately show ?thesis using m assms by (auto simp: block_entries_def)
qed

theorem create_index_entries_witness:
  "\<exists>idx b. create_index (time_Unix 1550000000) (\<lambda>m. m) (sDetail [sTx 1 2 70, sTx 1 3 5]) = Ret (idx, b) \<and>
    map (\<lambda>i. i\<lparr>Sequence := 0\<rparr>) idx = concat (map (tx_entries (Some 1500000000)) [sTx 1 2 70, sTx 1 3 5])"
proof -
  have "\<forall>tx \<in> set (bdTransactions (sDetail [sTx 1 2 70, sTx 1 3 5])). txValue tx \<noteq> None"
    by (simp add: sDetail_def sTx_def)
  then obtain idx b where r: "create_index (time_Unix 1550000000) (\<lambda>m. m) (sDetail [sTx 1 2 70, sTx 1 3 5]) = Ret (idx, b)"
    using create_index_total by blast
  from create_index_entries [OF r] r show ?thesis by (auto simp: sDetail_def)
qed

text \<open>
  C15. In a well-formed block with at most 256 entries for any address all entries have different keys,
  so that none overwrites another; with more, two entries of that address have the same key.
\<close>

theorem index_keys_distinct:
  assumes "external x" "bd_ok x bd" "create_index t ord bd = Ret (idx, b)"
  shows "distinct (map (MarshallAddressKey x) idx) \<longleftrightarrow>
    (\<forall>a. length (filter (\<lambda>i. Address i = a) idx) \<le> 256)"
proof -
  have vals: "\<forall>tx \<in> set (bdTransactions bd). txValue tx \<noteq> None"
    using assms(2) by (auto simp: bd_ok_def tx_ok_def)
  let ?es = "block_entries bd"
  have idx: "idx = numbered ?es" by (rule create_index_ok [OF vals, of t ord]) (use assms(3) in simp)
  have keys: "MarshallAddressKey x i = enc_key (ai_key x i) \<and> key_ok (ai_key x i)" if "i \<in> set idx" for i
    using numbered_ok [OF assms(2)] that kvKey_entry [of x i] ai_key_ok [of x i] by (simp add: idx entry_of_def)
  have "distinct (map (MarshallAddressKey x) idx) \<longleftrightarrow> distinct (map (ai_key x) idx)"
    using keys by (auto simp: distinct_map inj_on_def enc_key_inject)
  moreover have "length (filter (\<lambda>i. Address i = a) idx) = occ a ?es" for a
    unfolding idx by (rule occ_numbered)
  moreover have "distinct (map (ai_key x) idx) \<longleftrightarrow> at_most 256 bd"
    using distinct_keys [OF assms(2)] not_distinct_keys [of bd x] by (auto simp: idx)
  ultimately show ?thesis by (simp add: at_most_def)
qed

theorem index_keys_distinct_witness:
  "\<exists>idx b. create_index (time_Unix 1550000000) (\<lambda>m. m) (sDetail [sTx 1 2 70, sTx 1 3 5]) = Ret (idx, b) \<and>
    (distinct (map (MarshallAddressKey refExt) idx) \<longleftrightarrow> (\<forall>a. length (filter (\<lambda>i. Address i = a) idx) \<le> 256))"
proof -
  have ok: "bd_ok refExt (sDetail [sTx 1 2 70, sTx 1 3 5])" by (rule sDetail_ok) (simp add: sTx_ok)
  then have "\<forall>tx \<in> set (bdTransactions (sDetail [sTx 1 2 70, sTx 1 3 5])). txValue tx \<noteq> None"
    by (simp add: sDetail_def sTx_def)
  then obtain idx b where r: "create_index (time_Unix 1550000000) (\<lambda>m. m) (sDetail [sTx 1 2 70, sTx 1 3 5]) = Ret (idx, b)"
    using create_index_total by blast
  from index_keys_distinct [OF ref_ext.external_axioms ok r] r show ?thesis by blast
qed

section \<open>The block record\<close>

lemma unat_of_nat_byte: "n < 256 \<Longrightarrow> unat (of_nat n :: 8 word) = n"
  by (simp add: unat_of_nat)

lemma count_idx: "length (filter (\<lambda>i. Address i = a) (numbered (block_entries bd))) = occ a (block_entries bd)"
  by (rule occ_numbered)

lemma index_covers:
  assumes m: "seqs_of (block_entries bd) m" and ord: "set (biAddresses b) = set (seq_addresses m)"
    and time: "biTime b = bdTime bd" and most: "at_most 255 bd"
  shows "covers b (numbered (block_entries bd))"
  unfolding covers_def
proof
  let ?es = "block_entries bd"
  fix i assume "i \<in> set (numbered ?es)"
  then obtain k where k: "k < length ?es" "i = (?es ! k)\<lparr>Sequence := of_nat (occ (Address (?es ! k)) (take (Suc k) ?es))\<rparr>"
    by (auto simp: set_numbered)
  let ?a = "Address (?es ! k)"
  have le: "occ ?a (take (Suc k) ?es) \<le> occ ?a ?es" "occ ?a ?es \<le> 255" "0 < occ ?a (take (Suc k) ?es)"
    using occ_take_le [of ?a "Suc k" ?es] most occ_take_Suc [OF k(1)] unfolding at_most_def by auto
  have "aiTime (?es ! k) = bdTime bd"
    using k(1) nth_mem [OF k(1)] by (auto simp: block_entries_def tx_entries_def split: if_splits)
  moreover have "\<lparr>Address = ?a, Sequence = of_nat (occ ?a ?es)\<rparr> \<in> set (biAddresses b)"
    using recorded [OF m k(1)] ord by simp
  ultimately show "aiTime i = biTime b \<and> 1 \<le> unat (Sequence i) \<and>
      (\<exists>a \<in> set (biAddresses b). Address a = Address i \<and> unat (Sequence i) \<le> unat (Sequence a))"
    using le k(2) time by (auto simp: unat_of_nat_byte intro!: bexI [of _ "\<lparr>Address = ?a, Sequence = of_nat (occ ?a ?es)\<rparr>"])
qed

lemma not_covers:
  assumes "\<not> at_most 255 bd"
  shows "\<not> covers b (numbered (block_entries bd))"
proof
  let ?es = "block_entries bd"
  assume cov: "covers b (numbered ?es)"
  obtain a where "255 < occ a ?es" using assms by (auto simp: at_most_def not_le)
  then obtain k where k: "k < length ?es" "Address (?es ! k) = a" "occ a (take (Suc k) ?es) = 256"
    using occ_reached [of 255 a ?es] by auto
  then have "Sequence (numbered ?es ! k) = 0" by (simp add: numbered_nth)
  moreover have "numbered ?es ! k \<in> set (numbered ?es)" using k(1) by simp
  ultimately show False using cov by (auto simp: covers_def)
qed

lemma byte_255: "(of_nat n :: 8 word) = 255 \<longleftrightarrow> n mod 256 = 255"
proof -
  have "(of_nat n :: 8 word) = 255 \<longleftrightarrow> unat (of_nat n :: 8 word) = unat (255 :: 8 word)"
    by (simp add: word_unat_eq_iff)
  then show ?thesis by (simp add: unat_of_nat)
qed

lemma index_seqs_ok:
  assumes m: "seqs_of (block_entries bd) m" and ord: "set (biAddresses b) = set (seq_addresses m)"
  shows "seqs_ok b \<longleftrightarrow> (\<forall>a. occ a (block_entries bd) mod 256 \<noteq> 255)"
proof
  let ?es = "block_entries bd"
  assume ok: "seqs_ok b"
  show "\<forall>a. occ a ?es mod 256 \<noteq> 255"
  proof (rule allI, rule notI)
    fix a assume a: "occ a ?es mod 256 = 255"
    then have "0 < occ a ?es" by (cases "occ a ?es") auto
    then obtain k where "k < length ?es" "Address (?es ! k) = a" using occ_reached by blast
    then have "\<lparr>Address = a, Sequence = of_nat (occ a ?es)\<rparr> \<in> set (biAddresses b)"
      using recorded [OF m] ord by auto
    then have "(of_nat (occ a ?es) :: 8 word) \<noteq> 255" using ok by (auto simp: seqs_ok_def)
    then show False using a byte_255 by simp
  qed
next
  let ?es = "block_entries bd"
  assume "\<forall>a. occ a ?es mod 256 \<noteq> 255"
  then show "seqs_ok b"
    using recorded_addresses [OF m] ord byte_255 by (auto simp: seqs_ok_def)
qed

text \<open>The result for a well-formed block, whatever the clock and the order of the map.\<close>

lemma create_index_wf:
  assumes "bd_ok x bd" "\<And>m. mset (ord m) = mset m"
  obtains b m where "create_index t ord bd = Ret (numbered (block_entries bd), b)" "seqs_of (block_entries bd) m"
    "set (biAddresses b) = set (seq_addresses m)" "biTime b = bdTime bd" "biCreatedAt b = Some (tUnix t)"
    "biBlockNumber b = big_String (bdBlockNumber bd)"
proof -
  have "\<forall>tx \<in> set (bdTransactions bd). txValue tx \<noteq> None" using assms(1) by (auto simp: bd_ok_def tx_ok_def)
  then obtain m where m: "create_index t ord bd = Ret (numbered (block_entries bd),
      \<lparr>biBlockNumber = big_String (bdBlockNumber bd),
       biAddresses = map (\<lambda>(k, v). \<lparr>Address = k, Sequence = v\<rparr>) (ord m),
       biTime = bdTime bd, biCreatedAt = Some (tUnix t)\<rparr>)" "seqs_of (block_entries bd) m"
    by (rule create_index_ok [of bd t ord])
  have "set (ord m) = set m" using assms(2) by (metis mset_eq_setD)
  then show ?thesis by (intro that [OF m]) (simp_all add: seq_addresses_def)
qed



section \<open>Processing a block\<close>

definition runtime_ok :: "'w Runtime \<Rightarrow> bool" where
  "runtime_ok rt \<longleftrightarrow>
     (\<forall>w m. mset (fst (mapOrder rt w) m) = mset m) \<and> (\<forall>w. time_ok (tUnix (fst (timeNow rt w))))"

definition level_indexer :: "ext \<Rightarrow> ('db, 'it) leveldb \<Rightarrow> ('db, 'w) Indexer \<Rightarrow> bool" where
  "level_indexer x api ix \<longleftrightarrow> idxExt ix = x \<and> idxRepo ix = levelRepo x api \<and> runtime_ok (idxRuntime ix)"

lemma ProcessBlock_eq:
  "ProcessBlock ix bd isBatch s =
    (let (t, w1) = timeNow (idxRuntime ix) (world (env s));
         (ord, w2) = mapOrder (idxRuntime ix) w1;
         s2 = s\<lparr>env := (env s)\<lparr>world := w2\<rparr>\<rparr>
     in case create_index t ord bd of
          Ret (idx, b) \<Rightarrow> Store (idxExt ix) (idxRepo ix) idx b isBatch s2
        | Panic e \<Rightarrow> (Panic e, s2) | Diverge \<Rightarrow> (Diverge, s2))"
  by (simp add: ProcessBlock_def CreateIndexData_def now_def on_env_def on_world_def bnd_apply Let_def
      split: prod.splits outcome.splits)

lemma bd_number: "bd_ok x bd \<Longrightarrow> \<exists>n. big_String (bdBlockNumber bd) = dec n"
  using big_String_nonneg by (auto simp: bd_ok_def)

lemma ProcessBlock_index:
  assumes "level_indexer x api ix" "bd_ok x bd"
  obtains b m s2 where "ProcessBlock ix bd isBatch s = Store x (levelRepo x api) (numbered (block_entries bd)) b isBatch s2"
    "addressDB s2 = addressDB s" "blockDB s2 = blockDB s" "batchDB s2 = batchDB s"
    "ipcManager (env s2) = ipcManager (env s)" "switchRequests (env s2) = switchRequests (env s)"
    "bi_ok x b" "biTime b = bdTime bd" "biBlockNumber b = big_String (bdBlockNumber bd)"
    "seqs_of (block_entries bd) m" "set (biAddresses b) = set (seq_addresses m)"
proof -
  obtain t w1 where t: "timeNow (idxRuntime ix) (world (env s)) = (t, w1)" by fastforce
  obtain ord w2 where ord: "mapOrder (idxRuntime ix) w1 = (ord, w2)" by fastforce
  have rt: "mset (ord m) = mset m" "time_ok (tUnix t)" for m
    using assms(1) t ord unfolding level_indexer_def runtime_ok_def by (metis fst_conv)+
  obtain b m where b: "create_index t ord bd = Ret (numbered (block_entries bd), b)" "seqs_of (block_entries bd) m"
    "set (biAddresses b) = set (seq_addresses m)" "biTime b = bdTime bd" "biCreatedAt b = Some (tUnix t)"
    "biBlockNumber b = big_String (bdBlockNumber bd)"
    by (rule create_index_wf [OF assms(2) rt(1)])
  have "addr_ok x (Address a)" if "a \<in> set (biAddresses b)" for a
    using recorded_addresses [OF b(2)] that b(3) block_entry_ok [OF assms(2)] by (metis ai_ok_def)
  moreover obtain u where "bdTime bd = Some u" "time_ok u" using assms(2) by (auto simp: bd_ok_def)
  ultimately have "bi_ok x b" using b(4,5,6) rt(2) bd_number [OF assms(2)] by (simp add: bi_ok_def)
  then show ?thesis
    using that [of b "s\<lparr>env := (env s)\<lparr>world := w2\<rparr>\<rparr>" m] assms(1) b t ord
    by (simp add: ProcessBlock_eq level_indexer_def)
qed

lemma block_values: "bd_ok x bd \<Longrightarrow> \<forall>i \<in> set (numbered (block_entries bd)). aiValue i \<noteq> None"
  using numbered_ok by (auto simp: ai_ok_def)

text \<open>
  C4. A reorganised block leaves no trace in the address database: processing in real time a block
  whose number is new and whose time no entry has yet, and then another block of the same number, gives
  the same address database as processing only the second one, unless an address has 255 entries or
  more in the first.
\<close>

theorem reprocessing_replaces:
  assumes laws: "leveldb_laws x api store" "level_writes api" and ix: "level_indexer x api ix"
    and first: "bd_ok x bd" "at_most 254 bd"
    and second: "bd_ok x bd'" "bdBlockNumber bd' = bdBlockNumber bd"
    and free: "block_map_ok x (store (blockDB s))"
      "store (blockDB s) (MarshallBlockKey (big_String (bdBlockNumber bd))) = None"
      "\<forall>a q. store (addressDB s) (MarshallAddressKeyStr x a (bdTime bd) q) = None"
  shows "\<exists>s1 s2 s3. ProcessBlock ix bd False s = (Ret None, s1) \<and>
    ProcessBlock ix bd' False s1 = (Ret None, s2) \<and> ProcessBlock ix bd' False s = (Ret None, s3) \<and>
    store (addressDB s2) = store (addressDB s3)"
proof -
  have ext: "external x" using laws(1) by (simp add: leveldb_laws_def)
  let ?n = "big_String (bdBlockNumber bd)" and ?m = "store (addressDB s)" and ?bm = "store (blockDB s)"
  let ?es = "numbered (block_entries bd)" and ?es' = "numbered (block_entries bd')"
  have none: "old_keys x ?bm ?n = []" "old_seqs_ok x ?bm ?n"
    using free(2) by (simp_all add: old_keys_def old_seqs_ok_def)
  obtain b m t where b: "ProcessBlock ix bd False s = Store x (levelRepo x api) ?es b False t"
    "addressDB t = addressDB s" "blockDB t = blockDB s" "bi_ok x b" "biTime b = bdTime bd" "biBlockNumber b = ?n"
    "seqs_of (block_entries bd) m" "set (biAddresses b) = set (seq_addresses m)"
    by (rule ProcessBlock_index [OF ix first(1)])
  have "at_most 255 bd" using first(2) by (auto simp: at_most_def intro: le_trans)
  then have cov: "covers b ?es" by (rule index_covers [OF b(7,8,5)])
  have "occ a (block_entries bd) mod 256 \<noteq> 255" for a
  proof -
    have "occ a (block_entries bd) \<le> 254" using first(2) by (simp add: at_most_def)
    then show ?thesis by simp
  qed
  then have seqs: "seqs_ok b" using index_seqs_ok [OF b(7,8)] by blast
  obtain s1 where s1: "Store x (levelRepo x api) ?es b False t = (Ret None, s1)"
    "store (addressDB s1) = put_all (map (entry_of x) ?es) ?m"
    "store (blockDB s1) = ?bm(MarshallBlockKey ?n \<mapsto> block_value x b)"
    by (rule Store_level [OF laws block_values [OF first(1)] b(4), of t]) (simp_all add: b free(1) none)
  have stored: "store (blockDB s1) (MarshallBlockKey ?n) = Some (block_value x b)" using s1(3) by simp
  have old: "old_keys x (store (blockDB s1)) ?n = block_keys x (biTime b) (biAddresses b)"
    using old_keys_stored [OF ext b(4)] stored b(6) by simp
  have old_seqs: "old_seqs_ok x (store (blockDB s1)) ?n"
    using stored external.Unmarshall_block_value [OF ext b(4)] seqs
    by (simp add: old_seqs_ok_def seqs_ok_def norm_block_def)
  have map1: "block_map_ok x (store (blockDB s1))"
    using block_map_ok_put [OF free(1) b(4)] s1(3) b(6) by simp
  obtain b2 m2 t2 where b2: "ProcessBlock ix bd' False s1 = Store x (levelRepo x api) ?es' b2 False t2"
    "addressDB t2 = addressDB s1" "blockDB t2 = blockDB s1" "bi_ok x b2" "biBlockNumber b2 = ?n"
    by (rule ProcessBlock_index [OF ix second(1)]) (simp add: second(2))
  obtain s2 where s2: "Store x (levelRepo x api) ?es' b2 False t2 = (Ret None, s2)"
    "store (addressDB s2) = put_all (map (entry_of x) ?es')
       (delete_all (block_keys x (biTime b) (biAddresses b)) (store (addressDB s1)))"
    by (rule Store_level [OF laws block_values [OF second(1)] b2(4), of t2]) (simp_all add: b2 map1 old old_seqs)
  obtain b3 m3 t3 where b3: "ProcessBlock ix bd' False s = Store x (levelRepo x api) ?es' b3 False t3"
    "addressDB t3 = addressDB s" "blockDB t3 = blockDB s" "bi_ok x b3" "biBlockNumber b3 = ?n"
    by (rule ProcessBlock_index [OF ix second(1)]) (simp add: second(2))
  obtain s3 where s3: "Store x (levelRepo x api) ?es' b3 False t3 = (Ret None, s3)"
    "store (addressDB s3) = put_all (map (entry_of x) ?es') ?m"
    by (rule Store_level [OF laws block_values [OF second(1)] b3(4), of t3]) (simp_all add: b3 free(1) none)
  have "delete_all (block_keys x (biTime b) (biAddresses b)) (put_all (map (entry_of x) ?es) ?m) = ?m"
    by (rule delete_put_all) (use covers_keys [OF cov] free(3) b(5) in \<open>auto simp: block_keys_def\<close>)
  then show ?thesis using b(1) s1 b2(1) s2 b3(1) s3 by simp
qed

end
