(* ===== verification/BatchRun.thy ===== *)
theory BatchRun
  imports IndexerProps BatchProps
begin

text \<open>
  What a batch goroutine does: the blocks a batch still has to process (\<open>batch_todo\<close>), one iteration on a
  node that serves them, the whole loop, and that the loop always ends.
\<close>

section \<open>The blocks of a batch\<close>

definition todo_after :: "int \<Rightarrow> int \<Rightarrow> int \<Rightarrow> int list" where
  "todo_after c step t = map (\<lambda>k. c + int (Suc k) * step) [0 ..< nat ((t - c) div step)]"

definition batch_todo :: "BatchStatus \<Rightarrow> int list" where
  "batch_todo b =
     (let t = the (bsTo b); step = uint (bsStep b)
      in case bsCurrent b of
           None \<Rightarrow> the (bsFrom b) # todo_after (the (bsFrom b)) step t
         | Some c \<Rightarrow> todo_after c step t)"

lemma div_mult_le: "0 < (d :: int) \<Longrightarrow> (n div d) * d \<le> n"
  using minus_mod_eq_div_mult [of n d] pos_mod_sign [of d n] by linarith

lemma todo_after_end:
  assumes "t < c + step" "0 < step"
  shows "todo_after c step t = []"
proof -
  have "\<not> 1 \<le> (t - c) div step"
  proof
    assume "1 \<le> (t - c) div step"
    then have "1 * step \<le> (t - c) div step * step" using assms(2) by (intro mult_right_mono) simp_all
    then show False using div_mult_le [OF assms(2), of "t - c"] assms(1) by simp
  qed
  then show ?thesis by (simp add: todo_after_def)
qed

lemma todo_after_step:
  assumes "c + step \<le> t" "0 < step"
  shows "todo_after c step t = (c + step) # todo_after (c + step) step t"
proof -
  have "(t - c) div step = (t - (c + step)) div step + 1"
    using assms(2) div_add_self2 [of step "t - (c + step)"] by (simp add: algebra_simps)
  moreover have "0 \<le> (t - (c + step)) div step" using assms by (simp add: pos_imp_zdiv_nonneg_iff)
  ultimately have n: "nat ((t - c) div step) = Suc (nat ((t - (c + step)) div step))" by simp
  have "map (\<lambda>k. c + int (Suc k) * step) [0 ..< Suc n] = (c + step) # map (\<lambda>k. c + step + int (Suc k) * step) [0 ..< n]" for n
    by (simp add: upt_conv_Cons map_Suc_upt [symmetric] comp_def algebra_simps del: upt_Suc)
  then show ?thesis by (simp only: todo_after_def n)
qed

lemma in_todo_after:
  assumes "0 < step"
  shows "n \<in> set (todo_after c step t) \<longleftrightarrow> c < n \<and> n \<le> t \<and> (n - c) mod step = 0"
proof
  assume "n \<in> set (todo_after c step t)"
  then have "n \<in> (\<lambda>k. c + int (Suc k) * step) ` set [0 ..< nat ((t - c) div step)]"
    by (simp only: todo_after_def set_map)
  then obtain k where k: "n = c + int (Suc k) * step" "k \<in> set [0 ..< nat ((t - c) div step)]"
    by (rule imageE)
  then have "int (Suc k) \<le> (t - c) div step" by auto
  then have "int (Suc k) * step \<le> (t - c) div step * step" using assms by (intro mult_right_mono) simp_all
  then have "int (Suc k) * step \<le> t - c" using div_mult_le [OF assms, of "t - c"] by linarith
  moreover have "0 < int (Suc k) * step" using assms by (intro mult_pos_pos) simp_all
  ultimately show "c < n \<and> n \<le> t \<and> (n - c) mod step = 0" using k(1) by simp
next
  assume n: "c < n \<and> n \<le> t \<and> (n - c) mod step = 0"
  define q where "q = (n - c) div step"
  have q: "n - c = q * step" using n by (simp add: q_def mult.commute mod_0_imp_dvd)
  have "0 < q" using n q assms by (metis diff_gt_0_iff_gt zero_less_mult_pos2)
  moreover have "q \<le> (t - c) div step" unfolding q_def using n assms by (intro zdiv_mono1) simp_all
  ultimately show "n \<in> set (todo_after c step t)"
    using q by (auto simp: todo_after_def image_iff intro!: bexI [of _ "nat (q - 1)"])
qed

lemma sorted_todo_after: "0 < step \<Longrightarrow> sorted_wrt (<) (todo_after c step t)"
  by (auto simp: todo_after_def sorted_wrt_map sorted_wrt_iff_nth_less mult_strict_right_mono)

text \<open>The batches of the indexer: known ends of at most nine digits, a creation time, a step.\<close>

definition bt_ok :: "BatchStatus \<Rightarrow> bool" where
  "bt_ok b \<longleftrightarrow>
     (\<exists>f t c. bsFrom b = Some f \<and> bsTo b = Some t \<and> bsCreatedAt b = Some c \<and> blocknum_ok f \<and> blocknum_ok t) \<and>
     bsStep b \<noteq> 0 \<and> (\<forall>c. bsCurrent b = Some c \<longrightarrow> blocknum_ok c)"

lemma bt_step: "bt_ok b \<Longrightarrow> 0 < uint (bsStep b)"
  by (simp add: bt_ok_def uint_0_iff order.not_eq_order_implies_strict flip: uint_0_eq)

lemma blocknum_in_range: "blocknum_ok n \<Longrightarrow> in_range n"
  by (auto simp: blocknum_ok_def in_range_def)

lemma batch_next:
  assumes "bt_ok b" "batch_todo b = n # rest"
  shows "IsDone b = Ret False" "Next b = Ret (n, b\<lparr>bsCurrent := Some n\<rparr>)"
    "batch_todo (b\<lparr>bsCurrent := Some n\<rparr>) = rest" "blocknum_ok n"
proof -
  obtain f t where ft: "bsFrom b = Some f" "bsTo b = Some t" "blocknum_ok f" "blocknum_ok t"
    using assms(1) by (auto simp: bt_ok_def)
  note step = bt_step [OF assms(1)]
  have "IsDone b = Ret False \<and> Next b = Ret (n, b\<lparr>bsCurrent := Some n\<rparr>) \<and>
      batch_todo (b\<lparr>bsCurrent := Some n\<rparr>) = rest \<and> blocknum_ok n"
  proof (cases "bsCurrent b")
    case None
    then show ?thesis using assms(2) ft by (auto simp: batch_todo_def Let_def)
  next
    case (Some c)
    then have c: "blocknum_ok c" using assms(1) by (simp add: bt_ok_def)
    have le: "c + uint (bsStep b) \<le> t"
    proof (rule ccontr)
      assume "\<not> c + uint (bsStep b) \<le> t"
      then have "todo_after c (uint (bsStep b)) t = []" using step by (intro todo_after_end) simp_all
      then show False using assms(2) Some ft(2) by (simp add: batch_todo_def Let_def)
    qed
    then have todo: "n = c + uint (bsStep b)" "rest = todo_after n (uint (bsStep b)) t"
      using assms(2) Some ft(2) todo_after_step [OF le step] by (auto simp: batch_todo_def Let_def)
    moreover have "blocknum_ok n" using todo(1) le c ft(4) step by (simp add: blocknum_ok_def)
    ultimately show ?thesis
      using IsDone_Some [OF Some ft(2) blocknum_in_range [OF c] blocknum_in_range [OF ft(4)]]
        Next_Some [OF Some blocknum_in_range [OF c]] le ft(2)
      by (simp add: batch_todo_def Let_def)
  qed
  then show "IsDone b = Ret False" "Next b = Ret (n, b\<lparr>bsCurrent := Some n\<rparr>)"
    "batch_todo (b\<lparr>bsCurrent := Some n\<rparr>) = rest" "blocknum_ok n" by blast+
qed

lemma batch_finished:
  assumes "bt_ok b" "batch_todo b = []"
  shows "IsDone b = Ret True"
proof -
  obtain f t where ft: "bsFrom b = Some f" "bsTo b = Some t" "blocknum_ok t"
    using assms(1) by (auto simp: bt_ok_def)
  obtain c where c: "bsCurrent b = Some c" "blocknum_ok c"
    using assms by (cases "bsCurrent b") (auto simp: batch_todo_def Let_def bt_ok_def)
  have "\<not> c + uint (bsStep b) \<le> t"
    using todo_after_step [OF _ bt_step [OF assms(1)]] assms(2) c(1) ft(2) by (force simp: batch_todo_def Let_def)
  then show ?thesis
    using IsDone_Some [OF c(1) ft(2) blocknum_in_range [OF c(2)] blocknum_in_range [OF ft(3)]] by simp
qed

section \<open>One iteration\<close>

text \<open>A node that serves the blocks in \<open>S\<close>, in every state and with the same content.\<close>

definition provides :: "'w EthClient \<Rightarrow> (int \<Rightarrow> BLockDetail) \<Rightarrow> int set \<Rightarrow> bool" where
  "provides cl bl S \<longleftrightarrow> (\<forall>n \<in> S. \<forall>e. \<exists>w. FetchABlock cl (Some n) e = (Ret (Inr (bl n)), e\<lparr>world := w\<rparr>))"

definition level_batch_indexer :: "ext \<Rightarrow> ('db, 'it) leveldb \<Rightarrow> ('db, 'w) Indexer \<Rightarrow> bool" where
  "level_batch_indexer x api ix \<longleftrightarrow> level_indexer x api ix \<and> idxBatchRepo ix = levelBatchRepo x api"

definition block_kvs :: "ext \<Rightarrow> BLockDetail \<Rightarrow> KeyValue list" where
  "block_kvs x bd = map (entry_of x) (numbered (block_entries bd))"

lemma ProcessBlock_batch:
  assumes "leveldb_laws x api store" "level_writes api" "level_indexer x api ix" "bd_ok x bd"
  obtains s' where "ProcessBlock ix bd True s = (Ret None, s')"
    "store (addressDB s') = put_all (block_kvs x bd) (store (addressDB s))" "blockDB s' = blockDB s"
    "batchDB s' = batchDB s" "ipcManager (env s') = ipcManager (env s)"
    "switchRequests (env s') = switchRequests (env s)"
proof -
  note repo = leveldb_laws.level_repo [OF assms(1)]
  obtain b s2 where b: "ProcessBlock ix bd True s = Store x (levelRepo x api) (numbered (block_entries bd)) b True s2"
    "addressDB s2 = addressDB s" "blockDB s2 = blockDB s" "batchDB s2 = batchDB s"
    "ipcManager (env s2) = ipcManager (env s)" "switchRequests (env s2) = switchRequests (env s)"
    by (rule ProcessBlock_index [OF assms(3,4)])
  obtain d where d: "SaveAddressIndex x (levelRepo x api) (numbered (block_entries bd)) s2 = (Ret None, s2\<lparr>addressDB := d\<rparr>)"
    using index_repo.SaveAddressIndex_returns [OF repo _ block_values [OF assms(4)]] dao_writes_level [OF assms(2)]
    by auto
  then have st: "Store x (levelRepo x api) (numbered (block_entries bd)) b True s2 = (Ret None, s2\<lparr>addressDB := d\<rparr>)"
    by (simp add: Store_def bnd_apply)
  have "store d = put_all (block_kvs x bd) (store (addressDB s2))"
    by (rule index_repo.SaveAddressIndex_Ret [OF repo d block_values [OF assms(4)]])
       (drule arg_cong [where f = addressDB], simp add: block_kvs_def)
  then show ?thesis using that [of "s2\<lparr>addressDB := d\<rparr>"] b st by simp
qed

lemma batch_iter_ok:
  assumes "leveldb_laws x api store" "level_writes api" "level_batch_indexer x api ix"
    and "bt_ok b" "batch_todo b = n # rest" "provides (idxClient ix) bl {n}" "bd_ok x (bl n)"
  obtains b' s' where "batch_iter ix tag i b s = (Ret (Some b'), s')" "bt_ok b'" "batch_todo b' = rest"
    "bsCurrent b' = Some n" "batch_id b' = batch_id b" "batch_valid b'"
    "store (addressDB s') = put_all (block_kvs x (bl n)) (store (addressDB s))" "blockDB s' = blockDB s"
    "store (batchDB s') = (store (batchDB s))(batch_key b' \<mapsto> batch_value b')"
proof -
  have li: "level_indexer x api ix" and br: "idxBatchRepo ix = levelBatchRepo x api"
    using assms(3) by (simp_all add: level_batch_indexer_def)
  note nx = batch_next [OF assms(4,5)]
  let ?b1 = "b\<lparr>bsCurrent := Some n\<rparr>"
  obtain w1 where w1: "FetchABlock (idxClient ix) (Some n) (env s) = (Ret (Inr (bl n)), (env s)\<lparr>world := w1\<rparr>)"
    using assms(6) by (auto simp: provides_def)
  obtain s2 where s2: "ProcessBlock ix (bl n) True (s\<lparr>env := (env s)\<lparr>world := w1\<rparr>\<rparr>) = (Ret None, s2)"
    "store (addressDB s2) = put_all (block_kvs x (bl n)) (store (addressDB s))" "blockDB s2 = blockDB s"
    "batchDB s2 = batchDB s"
    by (rule ProcessBlock_batch [OF assms(1,2) li assms(7), of "s\<lparr>env := (env s)\<lparr>world := w1\<rparr>\<rparr>"]) simp
  obtain t w3 where t: "timeNow (idxRuntime ix) (world (env s2)) = (t, w3)" by fastforce
  then have ut: "time_ok (tUnix t)" using li unfolding level_indexer_def runtime_ok_def by (metis fst_conv)
  let ?b2 = "?b1\<lparr>bsUpdatedAt := Some (tUnix t)\<rparr>"
  have valid: "batch_valid ?b2" using assms(4) nx(4) ut by (auto simp: batch_valid_def bt_ok_def blocknum_ok_def)
  obtain d where d: "Put (LevelDbDAO x api) \<lparr>kvKey = batch_key ?b2, kvValue = batch_value ?b2\<rparr> (batchDB s2) = (None, d)"
    using dao_writes_level [OF assms(2)] by (metis dao_writes_def prod.collapse)
  then have upd: "UpdateBatch (levelBatchRepo x api) ?b2 (batchDB s2) = (Ret None, d)"
    by (simp add: UpdateBatch_valid [OF valid] on_batch_def NewKVBatchRepo_def)
  have std: "store d = (store (batchDB s))(batch_key ?b2 \<mapsto> batch_value ?b2)"
    using batch_repo.UpdateBatch_store [OF leveldb_laws.level_batch_repo [OF assms(1)] valid upd] s2(4) by simp
  let ?s3 = "s2\<lparr>env := (env s2)\<lparr>world := w3\<rparr>, batchDB := d\<rparr>"
  have "\<exists>s'. batch_iter ix tag i b s = (Ret (Some ?b2), s') \<and> addressDB s' = addressDB s2 \<and> blockDB s' = blockDB s2 \<and>
      batchDB s' = d"
    using nx(2) w1 s2(1) t upd br
    by (auto simp: batch_iter_def bnd_apply on_env_def on_batchDB_def now_def on_world_def Let_def split: prod.splits)
  then obtain s' where "batch_iter ix tag i b s = (Ret (Some ?b2), s')" "addressDB s' = addressDB s2"
    "blockDB s' = blockDB s2" "batchDB s' = d" by blast
  moreover have "bt_ok ?b2" using assms(4) nx(4) by (simp add: bt_ok_def)
  moreover have "batch_todo ?b2 = rest" using nx(3) by (simp add: batch_todo_def)
  ultimately show ?thesis
    using that [of ?b2 s'] s2 std valid by (simp add: batch_id_def)
qed

section \<open>The loop\<close>

lemma batch_key_id: "batch_id a = batch_id b \<Longrightarrow> batch_key a = batch_key b"
  by (simp add: batch_id_def batch_key_def)

definition put_blocks :: "ext \<Rightarrow> (int \<Rightarrow> BLockDetail) \<Rightarrow> int list \<Rightarrow> (bytes \<rightharpoonup> bytes) \<Rightarrow> (bytes \<rightharpoonup> bytes)" where
  "put_blocks x bl ns m = fold (\<lambda>n. put_all (block_kvs x (bl n))) ns m"

lemma provides_mono: "provides cl bl S \<Longrightarrow> T \<subseteq> S \<Longrightarrow> provides cl bl T"
  by (auto simp: provides_def)

lemma batch_loop_ok:
  assumes "leveldb_laws x api store" "level_writes api" "level_batch_indexer x api ix"
    and "bt_ok b" "provides (idxClient ix) bl (set (batch_todo b))" "\<forall>n \<in> set (batch_todo b). bd_ok x (bl n)"
  shows "\<exists>s'. batch_loop ix tag i b s = Some (Ret (), s') \<and>
    store (addressDB s') = put_blocks x bl (batch_todo b) (store (addressDB s)) \<and> blockDB s' = blockDB s \<and>
    (\<forall>k. k \<noteq> batch_key b \<longrightarrow> store (batchDB s') k = store (batchDB s) k) \<and>
    (batch_todo b \<noteq> [] \<longrightarrow> (\<exists>b'. batch_id b' = batch_id b \<and> batch_valid b' \<and> bsCurrent b' = Some (last (batch_todo b)) \<and>
       store (batchDB s') (batch_key b) = Some (batch_value b')))"
  using assms(4-6)
proof (induction "batch_todo b" arbitrary: b i s)
  case Nil
  then have "batch_loop ix tag i b s = Some (Ret (), s)"
    using batch_finished [OF Nil.prems(1)] by (simp add: batch_loop.simps)
  then show ?case using Nil.hyps by (auto simp: put_blocks_def simp flip: Nil.hyps)
next
  case (Cons n rest)
  note todo = Cons.hyps(2) [symmetric]
  have prov: "provides (idxClient ix) bl {n}" "provides (idxClient ix) bl (set rest)"
    by (rule provides_mono [OF Cons.prems(2)]; auto simp: todo)+
  have ok: "bd_ok x (bl n)" "\<forall>n \<in> set rest. bd_ok x (bl n)" using Cons.prems(3) todo by simp_all
  obtain b1 s1 where b1: "batch_iter ix tag i b s = (Ret (Some b1), s1)" "bt_ok b1" "batch_todo b1 = rest"
    "bsCurrent b1 = Some n" "batch_id b1 = batch_id b" "batch_valid b1"
    "store (addressDB s1) = put_all (block_kvs x (bl n)) (store (addressDB s))" "blockDB s1 = blockDB s"
    "store (batchDB s1) = (store (batchDB s))(batch_key b1 \<mapsto> batch_value b1)"
    by (rule batch_iter_ok [OF assms(1-3) Cons.prems(1) todo prov(1) ok(1)])
  have loop: "batch_loop ix tag i b s = batch_loop ix tag (i + 1) b1 s1"
    using batch_next(1) [OF Cons.prems(1) todo] b1(1) by (simp add: batch_loop.simps [of ix tag i b s])
  note key = batch_key_id [OF b1(5)]
  obtain s' where s': "batch_loop ix tag (i + 1) b1 s1 = Some (Ret (), s')"
    "store (addressDB s') = put_blocks x bl rest (store (addressDB s1))" "blockDB s' = blockDB s1"
    "\<forall>k. k \<noteq> batch_key b1 \<longrightarrow> store (batchDB s') k = store (batchDB s1) k"
    "rest \<noteq> [] \<longrightarrow> (\<exists>b'. batch_id b' = batch_id b1 \<and> batch_valid b' \<and> bsCurrent b' = Some (last rest) \<and>
       store (batchDB s') (batch_key b1) = Some (batch_value b'))"
    "rest = [] \<longrightarrow> s' = s1"
  proof -
    have "rest = [] \<Longrightarrow> batch_loop ix tag (i + 1) b1 s1 = Some (Ret (), s1)"
      using batch_finished [OF b1(2)] b1(3) by (simp add: batch_loop.simps)
    then show ?thesis
      using Cons.hyps(1) [of b1 "i + 1" s1] b1(2,3) prov(2) ok(2) that by fastforce
  qed
  have cur: "\<exists>b'. batch_id b' = batch_id b \<and> batch_valid b' \<and> bsCurrent b' = Some (last (batch_todo b)) \<and>
      store (batchDB s') (batch_key b) = Some (batch_value b')"
  proof (cases "rest = []")
    case True
    then have "s' = s1" using s'(6) by simp
    then show ?thesis using True todo b1(4,5,6,9) key by (intro exI [of _ b1]) simp
  next
    case False
    then obtain b' where "batch_id b' = batch_id b1" "batch_valid b'" "bsCurrent b' = Some (last rest)"
      "store (batchDB s') (batch_key b1) = Some (batch_value b')" using s'(5) by blast
    then show ?thesis using False todo b1(5) key by (intro exI [of _ b']) simp
  qed
  show ?case
    using loop s' b1 key cur todo by (auto simp: put_blocks_def)
qed

section \<open>The loop ends\<close>

lemma batch_iter_Some:
  assumes "batch_iter ix tag i b s = (Ret (Some b'), s')"
  shows "\<exists>n b1 u. Next b = Ret (n, b1) \<and> b' = b1\<lparr>bsUpdatedAt := Some u\<rparr>"
  using assms
proof -
  obtain n b1 where nx: "Next b = Ret (n, b1)"
    using assms by (cases "Next b") (auto simp: batch_iter_def bnd_apply)
  show ?thesis
    using assms unfolding batch_iter_def nx
    by (auto simp: bnd_apply on_env_def on_batchDB_def Let_def nx
        split: sum.splits option.splits if_splits prod.splits outcome.splits)
qed

lemma batch_loop_total:
  assumes "bt_ok b"
  shows "\<exists>r. batch_loop ix tag i b s = Some r"
  using assms
proof (induction "batch_todo b" arbitrary: b i s)
  case Nil
  then show ?case using batch_finished [OF Nil.prems] by (simp add: batch_loop.simps)
next
  case (Cons n rest)
  note nx = batch_next [OF Cons.prems Cons.hyps(2) [symmetric]]
  obtain r s1 where it: "batch_iter ix tag i b s = (r, s1)" by fastforce
  show ?case
  proof (cases "\<exists>b1. r = Ret (Some b1)")
    case True
    then obtain b1 where r: "r = Ret (Some b1)" by blast
    then obtain u where b1: "b1 = b\<lparr>bsCurrent := Some n, bsUpdatedAt := Some u\<rparr>"
      using batch_iter_Some [of ix tag i b s b1 s1] it nx(2) by auto
    have "batch_todo b1 = rest" using nx(3) by (simp add: b1 batch_todo_def)
    moreover have "bt_ok b1" using Cons.prems nx(4) by (simp add: b1 bt_ok_def)
    ultimately have "\<exists>r. batch_loop ix tag (i + 1) b1 s1 = Some r" using Cons.hyps(1) by simp
    then show ?thesis using nx(1) it r by (simp add: batch_loop.simps [of ix tag i b s])
  next
    case False
    then show ?thesis
      using nx(1) it by (auto simp: batch_loop.simps [of ix tag i b s] split: outcome.splits option.splits)
  qed
qed

lemma ends_on_env: "ends m \<Longrightarrow> ends (on_env m)"
  by (auto simp: ends_def on_env_def split: prod.splits) (metis fst_conv)

lemma ends_on_batchDB: "ends m \<Longrightarrow> ends (on_batchDB m)"
  by (auto simp: ends_def on_batchDB_def split: prod.splits) (metis fst_conv)

lemma ends_on_world: "ends (on_world f)"
  by (simp add: ends_def on_world_def split_beta Let_def)

lemma ends_FetchABlock: "ends (FetchABlock cl n)"
  using FetchABlock_world [of cl n] unfolding ends_def by (metis outcome.distinct(3) prod.collapse)

lemma create_index_ends: "create_index t ord bd \<noteq> Diverge"
proof (cases "\<exists>tx \<in> set (bdTransactions bd). txValue tx = None")
  case True
  from create_index_nil [OF this, of t ord] show ?thesis by auto
next
  case False
  then have "\<forall>tx \<in> set (bdTransactions bd). txValue tx \<noteq> None" by simp
  from create_index_total [OF this, of t ord] show ?thesis by auto
qed

lemma address_kvs_ends: "address_kvs y idx \<noteq> Diverge"
  unfolding address_kvs_def MarshallAddressValue_def by (intro omap_ends obind_ends) simp_all

lemma ends_SaveAddressIndex: "ends (SaveAddressIndex y repo idx)"
  unfolding SaveAddressIndex_def
  by (intro ends_bnd ends_lift address_kvs_ends)
    (auto simp: ends_def on_address_def split: prod.splits option.splits)

lemma ends_Store_batch: "ends (Store y repo idx b True)"
  unfolding Store_def by (auto intro!: ends_bnd ends_SaveAddressIndex)

lemma ends_ProcessBlock_batch: "ends (ProcessBlock ix bd True)"
  unfolding ProcessBlock_def CreateIndexData_def now_def
  by (auto intro!: ends_bnd ends_on_env ends_on_world ends_lift create_index_ends ends_Store_batch
      split: prod.splits)

end
