(* ===== verification/Workers.thy ===== *)
theory Workers
  imports BatchRun
begin

text \<open>
  The batch goroutines that \<open>index\<close> starts, running side by side (\<open>indexer/indexer.go\<close>, \<open>index\<close> and
  \<open>batchIndex\<close>).
  \<^item> A goroutine is a \<open>worker\<close>: at the loop condition, with a block fetched, with the block stored, stopped,
    or crashed by a panic. \<open>worker_step\<close> is one of these pieces of an iteration of \<open>batchIndex\<close>; the pieces
    of one iteration in a row are \<open>batch_iter\<close> (\<open>steps_batch_iter\<close>).
  \<^item> \<open>run_step\<close> picks any worker, or lets the rest of the program act: it changes the environment and the block
    database in any way, and the address database outside the keys \<open>K\<close> of the blocks of the batches (the
    real-time goroutine writes blocks of later times).
  \<^item> The invariant \<open>run_inv\<close> relates, for every batch, what the address database holds, what the goroutine
    still has to do, and what the stored record says.
\<close>

section \<open>Steps\<close>

datatype worker =
    AtTop nat BatchStatus
  | Fetched nat BatchStatus int BLockDetail
  | Processed nat BatchStatus int
  | Stopped BatchStatus
  | Crashed string

text \<open>
  After a failed fetch \<open>Stopped\<close> keeps the batch as it was before \<open>Next\<close>: no code reads it any more, the
  properties do.
\<close>

inductive worker_step ::
  "('db, 'w) Indexer \<Rightarrow> worker \<Rightarrow> ('db, 'w) Sys \<Rightarrow> worker \<Rightarrow> ('db, 'w) Sys \<Rightarrow> bool" for ix where
  w_done: "IsDone b = Ret True \<Longrightarrow> worker_step ix (AtTop i b) s (Stopped b) s"
| w_fetch: "IsDone b = Ret False \<Longrightarrow> Next b = Ret (n, b1) \<Longrightarrow>
    on_env (FetchABlock (idxClient ix) (Some n)) s = (Ret (Inr bd), s') \<Longrightarrow>
    worker_step ix (AtTop i b) s (Fetched i b1 n bd) s'"
| w_fetch_fails: "IsDone b = Ret False \<Longrightarrow> Next b = Ret (n, b1) \<Longrightarrow>
    on_env (FetchABlock (idxClient ix) (Some n)) s = (Ret (Inl err), s') \<Longrightarrow>
    worker_step ix (AtTop i b) s (Stopped b) s'"
| w_nil: "IsDone b = Panic e \<or> IsDone b = Ret False \<and> Next b = Panic e \<Longrightarrow>
    worker_step ix (AtTop i b) s (Crashed e) s"
| w_process: "ProcessBlock ix bd True s = (Ret None, s') \<Longrightarrow>
    worker_step ix (Fetched i b n bd) s (Processed i b n) s'"
| w_process_panics: "ProcessBlock ix bd True s = (Panic e, s') \<or> ProcessBlock ix bd True s = (Ret (Some e), s') \<Longrightarrow>
    worker_step ix (Fetched i b n bd) s (Crashed e) s'"
| w_update: "bnd (now ix) (\<lambda>t. on_batchDB (UpdateBatch (idxBatchRepo ix) (b\<lparr>bsUpdatedAt := Some (tUnix t)\<rparr>))) s
      = (Ret None, s') \<Longrightarrow> now ix s = (Ret t, s1) \<Longrightarrow>
    worker_step ix (Processed i b n) s (AtTop (i + 1) (b\<lparr>bsUpdatedAt := Some (tUnix t)\<rparr>))
      (if (i + 1) mod 10 = 0 then snd (on_env (on_world (stopClosed (idxRuntime ix))) s') else s')"
| w_update_panics: "bnd (now ix) (\<lambda>t. on_batchDB (UpdateBatch (idxBatchRepo ix) (b\<lparr>bsUpdatedAt := Some (tUnix t)\<rparr>))) s
      = (r, s') \<Longrightarrow> r = Panic e \<or> r = Ret (Some e) \<Longrightarrow>
    worker_step ix (Processed i b n) s (Crashed e) s'"

inductive run_step ::
  "('db, 'w) Indexer \<Rightarrow> ('db \<Rightarrow> bytes \<rightharpoonup> bytes) \<Rightarrow> bytes set
   \<Rightarrow> worker list \<times> ('db, 'w) Sys \<Rightarrow> worker list \<times> ('db, 'w) Sys \<Rightarrow> bool" for ix store K where
  r_worker: "k < length ws \<Longrightarrow> \<forall>e. Crashed e \<notin> set ws \<Longrightarrow> worker_step ix (ws ! k) s w s' \<Longrightarrow>
    run_step ix store K (ws, s) (ws[k := w], s')"

inductive other_step ::
  "('db \<Rightarrow> bytes \<rightharpoonup> bytes) \<Rightarrow> bytes set \<Rightarrow> ('db, 'w) Sys \<Rightarrow> ('db, 'w) Sys \<Rightarrow> bool" for store K where
  o_env: "other_step store K s (s\<lparr>env := e\<rparr>)"
| o_block: "other_step store K s (s\<lparr>blockDB := d\<rparr>)"
| o_address: "\<forall>k \<in> K. store d k = store (addressDB s) k \<Longrightarrow> other_step store K s (s\<lparr>addressDB := d\<rparr>)"

text \<open>Runs, with the number of the workers' steps.\<close>

inductive runs ::
  "('db, 'w) Indexer \<Rightarrow> ('db \<Rightarrow> bytes \<rightharpoonup> bytes) \<Rightarrow> bytes set \<Rightarrow> nat
   \<Rightarrow> worker list \<times> ('db, 'w) Sys \<Rightarrow> worker list \<times> ('db, 'w) Sys \<Rightarrow> bool" for ix store K where
  runs_refl: "runs ix store K 0 c c"
| runs_worker: "runs ix store K N c d \<Longrightarrow> run_step ix store K d e \<Longrightarrow> runs ix store K (Suc N) c e"
| runs_other: "runs ix store K N c (ws, s) \<Longrightarrow> other_step store K s s' \<Longrightarrow> runs ix store K N c (ws, s')"

inductive_cases worker_stepE: "worker_step ix w s w' s'"
inductive_cases AtTop_stepE: "worker_step ix (AtTop i b) s w' s'"
inductive_cases Fetched_stepE: "worker_step ix (Fetched i b n bd) s w' s'"
inductive_cases Processed_stepE: "worker_step ix (Processed i b n) s w' s'"
inductive_simps Stopped_step [simp]: "worker_step ix (Stopped b) s w' s'"
inductive_simps Crashed_step [simp]: "worker_step ix (Crashed e) s w' s'"

text \<open>The three pieces of an iteration in a row are the iteration.\<close>

lemma steps_batch_iter:
  assumes "IsDone b = Ret False" "worker_step ix (AtTop i b) s (Fetched i b1 n bd) s1"
    "worker_step ix (Fetched i b1 n bd) s1 (Processed i b1 n) s2"
    "worker_step ix (Processed i b1 n) s2 (AtTop (i + 1) b2) s3"
  shows "batch_iter ix tag i b s = (Ret (Some b2), s3)"
proof -
  have f: "Next b = Ret (n, b1)" "on_env (FetchABlock (idxClient ix) (Some n)) s = (Ret (Inr bd), s1)"
    using assms(2) by (auto elim: AtTop_stepE)
  have p: "ProcessBlock ix bd True s1 = (Ret None, s2)" using assms(3) by (auto elim: Fetched_stepE)
  obtain t sa sb where u: "now ix s2 = (Ret t, sa)" "b2 = b1\<lparr>bsUpdatedAt := Some (tUnix t)\<rparr>"
    "on_batchDB (UpdateBatch (idxBatchRepo ix) b2) sa = (Ret None, sb)"
    "s3 = (if (i + 1) mod 10 = 0 then snd (on_env (on_world (stopClosed (idxRuntime ix))) sb) else sb)"
    using assms(4) by (auto elim!: Processed_stepE simp: bnd_eq_Ret)
  have "on_env (on_world (stopClosed (idxRuntime ix))) sb = (Ret c, s3) \<or> (i + 1) mod 10 \<noteq> 0"
    if "c = fst (stopClosed (idxRuntime ix) (world (env sb)))" for c
    using u(4) that by (auto simp: on_env_def on_world_def split_beta Let_def)
  then show ?thesis
    using f p u by (auto simp: batch_iter_def bnd_apply Let_def split: prod.splits)
qed

text \<open>An iteration that goes on is the three pieces of a worker in a row.\<close>

lemma batch_iter_steps:
  assumes "IsDone b = Ret False" "batch_iter ix tag i b s = (Ret (Some b2), s3)"
  obtains b1 n bd s1 s2 where "worker_step ix (AtTop i b) s (Fetched i b1 n bd) s1"
    "worker_step ix (Fetched i b1 n bd) s1 (Processed i b1 n) s2"
    "worker_step ix (Processed i b1 n) s2 (AtTop (i + 1) b2) s3"
proof -
  obtain n b1 where nx: "Next b = Ret (n, b1)"
    using assms(2) by (cases "Next b") (auto simp: batch_iter_def bnd_apply)
  obtain bd s1 where f: "on_env (FetchABlock (idxClient ix) (Some n)) s = (Ret (Inr bd), s1)"
    using assms(2) nx by (auto simp: batch_iter_def bnd_apply split: prod.splits outcome.splits sum.splits)
  obtain s2 where p: "ProcessBlock ix bd True s1 = (Ret None, s2)"
    using assms(2) nx f by (auto simp: batch_iter_def bnd_apply split: prod.splits outcome.splits option.splits)
  obtain t sa where t: "now ix s2 = (Ret t, sa)"
    using assms(2) nx f p by (auto simp: batch_iter_def bnd_apply split: prod.splits outcome.splits)
  let ?b2 = "b1\<lparr>bsUpdatedAt := Some (tUnix t)\<rparr>"
  obtain sb where u: "on_batchDB (UpdateBatch (idxBatchRepo ix) ?b2) sa = (Ret None, sb)"
    using assms(2) nx f p t
    by (auto simp: batch_iter_def bnd_apply Let_def split: prod.splits outcome.splits option.splits)
  have b2: "b2 = ?b2" "s3 = (if (i + 1) mod 10 = 0 then snd (on_env (on_world (stopClosed (idxRuntime ix))) sb) else sb)"
    using assms(2) nx f p t u
    by (auto simp: batch_iter_def bnd_apply Let_def split: prod.splits outcome.splits option.splits if_splits)
  have upd: "bnd (now ix) (\<lambda>t. on_batchDB (UpdateBatch (idxBatchRepo ix) (b1\<lparr>bsUpdatedAt := Some (tUnix t)\<rparr>))) s2
      = (Ret None, sb)"
    using t u by (simp add: bnd_apply)
  show ?thesis
    using that w_fetch [OF assms(1) nx f] w_process [OF p] w_update [OF upd t] b2 by blast
qed

section \<open>Blocks in the address database\<close>

definition block_keys_of :: "ext \<Rightarrow> BLockDetail \<Rightarrow> bytes set" where
  "block_keys_of x bd = kvKey ` set (block_kvs x bd)"

text \<open>Under the keys of the block the database holds what the block puts there.\<close>

definition block_in :: "ext \<Rightarrow> BLockDetail \<Rightarrow> (bytes \<rightharpoonup> bytes) \<Rightarrow> bool" where
  "block_in x bd m \<longleftrightarrow> (\<forall>k \<in> block_keys_of x bd. m k = put_all (block_kvs x bd) Map.empty k)"

lemma put_all_local: "k \<in> kvKey ` set l \<Longrightarrow> put_all l m k = put_all l m' k"
proof (induction l arbitrary: m m')
  case (Cons kv l)
  show ?case
  proof (cases "k \<in> kvKey ` set l")
    case True
    then show ?thesis using Cons.IH by simp
  next
    case False
    then show ?thesis using Cons.prems by (simp add: put_all_other)
  qed
qed simp

lemma block_in_put: "block_in x bd (put_all (block_kvs x bd) m)"
  using put_all_local by (auto simp: block_in_def block_keys_of_def)

lemma block_in_put_other:
  assumes "block_keys_of x bd \<inter> block_keys_of x bd' = {}" "block_in x bd m"
  shows "block_in x bd (put_all (block_kvs x bd') m)"
  unfolding block_in_def
proof
  fix k assume k: "k \<in> block_keys_of x bd"
  then have "k \<notin> kvKey ` set (block_kvs x bd')" using assms(1) by (auto simp: block_keys_of_def)
  then show "put_all (block_kvs x bd') m k = put_all (block_kvs x bd) Map.empty k"
    using assms(2) k by (simp add: put_all_other block_in_def)
qed

lemma block_keys_time:
  assumes "bd_ok x bd" "k \<in> block_keys_of x bd"
  shows "\<exists>a q. k = enc_key (AddrKey a (the (bdTime bd)) q) \<and> key_ok (AddrKey a (the (bdTime bd)) q)"
proof -
  obtain i where i: "i \<in> set (numbered (block_entries bd))" "k = kvKey (entry_of x i)"
    using assms(2) by (auto simp: block_keys_of_def block_kvs_def)
  have "aiTime i = bdTime bd" using i(1) block_entry_ok [OF assms(1)] by (fastforce simp: set_numbered)
  then show ?thesis
    using kvKey_entry [OF numbered_ok [OF assms(1) i(1)]] ai_key_ok [OF numbered_ok [OF assms(1) i(1)]] i(2)
    by (auto simp: ai_key_def)
qed

lemma block_keys_disjoint:
  assumes "bd_ok x bd" "bd_ok x bd'" "bdTime bd \<noteq> bdTime bd'"
  shows "block_keys_of x bd \<inter> block_keys_of x bd' = {}"
proof (rule ccontr)
  assume "block_keys_of x bd \<inter> block_keys_of x bd' \<noteq> {}"
  then obtain k where k: "k \<in> block_keys_of x bd" "k \<in> block_keys_of x bd'" by blast
  obtain a q where a: "k = enc_key (AddrKey a (the (bdTime bd)) q)" "key_ok (AddrKey a (the (bdTime bd)) q)"
    using block_keys_time [OF assms(1) k(1)] by blast
  obtain a' q' where a': "k = enc_key (AddrKey a' (the (bdTime bd')) q')" "key_ok (AddrKey a' (the (bdTime bd')) q')"
    using block_keys_time [OF assms(2) k(2)] by blast
  have "AddrKey a (the (bdTime bd)) q = AddrKey a' (the (bdTime bd')) q'"
    using a a' enc_key_inject [OF a(2) a'(2)] by simp
  then show False using assms by (auto simp: bd_ok_def)
qed

section \<open>One worker\<close>

text \<open>The blocks that are still to be stored, and those that the stored record does not count yet.\<close>

fun pending :: "worker \<Rightarrow> int list" where
  "pending (AtTop i b) = batch_todo b"
| "pending (Fetched i b n bd) = n # batch_todo b"
| "pending (Processed i b n) = batch_todo b"
| "pending (Stopped b) = batch_todo b"
| "pending (Crashed e) = []"

fun unsaved :: "worker \<Rightarrow> int list" where
  "unsaved (Processed i b n) = n # batch_todo b"
| "unsaved w = pending w"

fun worker_ok :: "(int \<Rightarrow> BLockDetail) \<Rightarrow> BatchStatus \<Rightarrow> worker \<Rightarrow> bool" where
  "worker_ok bl b0 (AtTop i b) \<longleftrightarrow> bt_ok b \<and> batch_id b = batch_id b0"
| "worker_ok bl b0 (Fetched i b n bd) \<longleftrightarrow> bt_ok b \<and> batch_id b = batch_id b0 \<and> bsCurrent b = Some n \<and> bd = bl n"
| "worker_ok bl b0 (Processed i b n) \<longleftrightarrow> bt_ok b \<and> batch_id b = batch_id b0 \<and> bsCurrent b = Some n"
| "worker_ok bl b0 (Stopped b) \<longleftrightarrow> bt_ok b \<and> batch_id b = batch_id b0"
| "worker_ok bl b0 (Crashed e) \<longleftrightarrow> False"

fun weight :: "worker \<Rightarrow> nat" where
  "weight (AtTop i b) = 3 * length (batch_todo b) + 1"
| "weight (Fetched i b n bd) = 3 * length (batch_todo b) + 3"
| "weight (Processed i b n) = 3 * length (batch_todo b) + 2"
| "weight (Stopped b) = 0"
| "weight (Crashed e) = 0"

text \<open>The node never gives another block than \<open>bl n\<close> for \<open>n\<close>; it may fail.\<close>

definition honest :: "'w EthClient \<Rightarrow> (int \<Rightarrow> BLockDetail) \<Rightarrow> int set \<Rightarrow> bool" where
  "honest cl bl S \<longleftrightarrow>
     (\<forall>n \<in> S. \<forall>e e' bd. FetchABlock cl (Some n) e = (Ret (Inr bd), e') \<longrightarrow> bd = bl n)"

lemma provides_honest:
  fixes cl :: "'w EthClient"
  shows "provides cl bl S \<Longrightarrow> honest cl bl S"
proof (unfold honest_def, intro ballI allI impI)
  fix n and e e' :: "'w Env" and bd
  assume "provides cl bl S" "n \<in> S" "FetchABlock cl (Some n) e = (Ret (Inr bd), e')"
  moreover from this obtain w where "FetchABlock cl (Some n) e = (Ret (Inr (bl n)), e\<lparr>world := w\<rparr>)"
    unfolding provides_def by blast
  ultimately show "bd = bl n" by simp
qed

definition todo_blocks :: "BatchStatus list \<Rightarrow> int set" where
  "todo_blocks bs = (\<Union>b \<in> set bs. set (batch_todo b))"

definition batch_setting ::
  "ext \<Rightarrow> ('db, 'it) leveldb \<Rightarrow> ('db \<Rightarrow> bytes \<rightharpoonup> bytes) \<Rightarrow> ('db, 'w) Indexer \<Rightarrow> (int \<Rightarrow> BLockDetail)
   \<Rightarrow> BatchStatus list \<Rightarrow> bool" where
  "batch_setting x api store ix bl bs \<longleftrightarrow>
     leveldb_laws x api store \<and> level_writes api \<and> level_batch_indexer x api ix \<and>
     (\<forall>b \<in> set bs. bt_ok b) \<and> distinct (map batch_key bs) \<and> honest (idxClient ix) bl (todo_blocks bs) \<and>
     (\<forall>n \<in> todo_blocks bs. bd_ok x (bl n)) \<and>
     (\<forall>m \<in> todo_blocks bs. \<forall>n \<in> todo_blocks bs. m \<noteq> n \<longrightarrow> bdTime (bl m) \<noteq> bdTime (bl n))"

definition all_keys :: "ext \<Rightarrow> (int \<Rightarrow> BLockDetail) \<Rightarrow> BatchStatus list \<Rightarrow> bytes set" where
  "all_keys x bl bs = (\<Union>n \<in> todo_blocks bs. block_keys_of x (bl n))"

lemma batch_todo_upd [simp]: "batch_todo (b\<lparr>bsUpdatedAt := u\<rparr>) = batch_todo b"
  by (simp add: batch_todo_def Let_def split: option.split)

lemma bt_ok_upd [simp]: "bt_ok (b\<lparr>bsUpdatedAt := u\<rparr>) = bt_ok b"
  by (simp add: bt_ok_def)

lemma batch_id_upd [simp]:
  "batch_id (b\<lparr>bsUpdatedAt := u\<rparr>) = batch_id b" "batch_id (b\<lparr>bsCurrent := c\<rparr>) = batch_id b"
  by (simp_all add: batch_id_def)

lemma batch_valid_cur:
  assumes "bt_ok b" "bsCurrent b = Some n" "time_ok u"
  shows "batch_valid (b\<lparr>bsUpdatedAt := Some u\<rparr>)"
  using assms by (auto simp: batch_valid_def bt_ok_def blocknum_ok_def)

end
