(* ===== verification/WorkerRun.thy ===== *)
theory WorkerRun
  imports Workers
begin

text \<open>
  Facts about the batch goroutines running side by side: what a worker's step does to the databases, the
  invariant of a run, progress, and that on a node that serves the blocks a worker stops only when it is done.
\<close>

section \<open>One step\<close>

text \<open>What a step of the worker of batch \<open>b0\<close> does.\<close>

definition step_effect ::
  "ext \<Rightarrow> ('db \<Rightarrow> bytes \<rightharpoonup> bytes) \<Rightarrow> (int \<Rightarrow> BLockDetail) \<Rightarrow> BatchStatus \<Rightarrow> worker \<Rightarrow> ('db, 'w) Sys \<Rightarrow> worker
   \<Rightarrow> ('db, 'w) Sys \<Rightarrow> bool" where
  "step_effect x store bl b0 w s w' s' \<longleftrightarrow>
     (addressDB s' = addressDB s \<and> pending w' = pending w \<or>
      (\<exists>n. store (addressDB s') = put_all (block_kvs x (bl n)) (store (addressDB s)) \<and> pending w = n # pending w')) \<and>
     (batchDB s' = batchDB s \<and> unsaved w' = unsaved w \<or>
      (\<exists>b. batch_id b = batch_id b0 \<and> batch_valid b \<and> bt_ok b \<and> batch_todo b = unsaved w' \<and>
         (\<exists>n. unsaved w = n # unsaved w') \<and>
         store (batchDB s') = (store (batchDB s))(batch_key b0 \<mapsto> batch_value b))) \<and>
     weight w' < weight w"

lemma on_env_dbs:
  "on_env m s = (r, s') \<Longrightarrow> addressDB s' = addressDB s \<and> batchDB s' = batchDB s \<and> blockDB s' = blockDB s"
  by (auto simp: on_env_def split: prod.splits)

lemma snd_on_env: "addressDB (snd (on_env m s)) = addressDB s" "batchDB (snd (on_env m s)) = batchDB s"
  by (simp_all add: on_env_def split_beta Let_def)

lemma settingD:
  assumes "batch_setting x api store ix bl bs"
  shows "leveldb_laws x api store" "level_writes api" "level_indexer x api ix" "idxBatchRepo ix = levelBatchRepo x api"
    "b \<in> set bs \<Longrightarrow> bt_ok b" "distinct (map batch_key bs)" "n \<in> todo_blocks bs \<Longrightarrow> bd_ok x (bl n)"
    "m \<in> todo_blocks bs \<Longrightarrow> n \<in> todo_blocks bs \<Longrightarrow> m \<noteq> n \<Longrightarrow> bdTime (bl m) \<noteq> bdTime (bl n)"
    "n \<in> todo_blocks bs \<Longrightarrow> FetchABlock (idxClient ix) (Some n) e = (Ret (Inr bd), e') \<Longrightarrow> bd = bl n"
  using assms by (simp_all add: batch_setting_def level_batch_indexer_def honest_def)

lemma AtTop_ok:
  assumes "batch_setting x api store ix bl bs" "worker_ok bl b0 (AtTop i b)" "set (batch_todo b) \<subseteq> todo_blocks bs"
    and "worker_step ix (AtTop i b) s w' s'"
  shows "worker_ok bl b0 w' \<and> step_effect x store bl b0 (AtTop i b) s w' s'"
proof (cases "batch_todo b")
  case Nil
  then have "IsDone b = Ret True" using batch_finished assms(2) by simp
  then have "w' = Stopped b \<and> s' = s" using assms(4) by (auto elim: AtTop_stepE)
  then show ?thesis using assms(2) by (simp add: step_effect_def)
next
  case (Cons n rest)
  note nx = batch_next [OF _ Cons]
  have bt: "bt_ok b" using assms(2) by simp
  have n: "n \<in> todo_blocks bs" using assms(3) Cons by simp
  show ?thesis
  proof (rule AtTop_stepE [OF assms(4)], goal_cases)
    case 1
    then show ?thesis using nx(1) [OF bt] by simp
  next
    case (2 n' b1 bd)
    then have eq: "n' = n" "b1 = b\<lparr>bsCurrent := Some n\<rparr>" using nx(2) [OF bt] by auto
    obtain e' where "FetchABlock (idxClient ix) (Some n) (env s) = (Ret (Inr bd), e')"
      using 2(4) eq by (auto simp: on_env_def split: prod.splits)
    then have "bd = bl n" by (rule settingD(9) [OF assms(1) n])
    then show ?thesis
      using 2(1) eq nx(3,4) [OF bt] bt assms(2) Cons on_env_dbs [OF 2(4)]
      by (simp add: step_effect_def bt_ok_def)
  next
    case (3 n' b1 err)
    then show ?thesis using bt assms(2) on_env_dbs [OF 3(4)] by (simp add: step_effect_def)
  next
    case (4 e)
    then show ?thesis using nx(1,2) [OF bt] by simp
  qed
qed

lemma Fetched_ok:
  assumes "batch_setting x api store ix bl bs" "worker_ok bl b0 (Fetched i b n bd)" "n \<in> todo_blocks bs"
    and "worker_step ix (Fetched i b n bd) s w' s'"
  shows "worker_ok bl b0 w' \<and> step_effect x store bl b0 (Fetched i b n bd) s w' s'"
proof -
  have bd: "bd = bl n" using assms(2) by simp
  obtain t where t: "ProcessBlock ix bd True s = (Ret None, t)"
    "store (addressDB t) = put_all (block_kvs x bd) (store (addressDB s))" "batchDB t = batchDB s"
    using ProcessBlock_batch [OF settingD(1,2,3) [OF assms(1)], of bd s] settingD(7) [OF assms(1,3)] bd by metis
  have "w' = Processed i b n \<and> s' = t" using assms(4) t(1) by (auto elim: Fetched_stepE)
  then show ?thesis using assms(2) t bd by (auto simp: step_effect_def)
qed

lemma Processed_run:
  assumes "batch_setting x api store ix bl bs" "worker_ok bl b0 (Processed i b n)"
  obtains t s1 d where "now ix s = (Ret t, s1)" "addressDB s1 = addressDB s"
    "bnd (now ix) (\<lambda>t. on_batchDB (UpdateBatch (idxBatchRepo ix) (b\<lparr>bsUpdatedAt := Some (tUnix t)\<rparr>))) s
      = (Ret None, s1\<lparr>batchDB := d\<rparr>)"
    "store d = (store (batchDB s))(batch_key b0 \<mapsto> batch_value (b\<lparr>bsUpdatedAt := Some (tUnix t)\<rparr>))"
    "batch_valid (b\<lparr>bsUpdatedAt := Some (tUnix t)\<rparr>)"
proof -
  obtain t w1 where tw: "timeNow (idxRuntime ix) (world (env s)) = (t, w1)" by fastforce
  let ?s1 = "s\<lparr>env := (env s)\<lparr>world := w1\<rparr>\<rparr>" and ?b = "b\<lparr>bsUpdatedAt := Some (tUnix t)\<rparr>"
  have t: "time_ok (tUnix t)"
    using tw settingD(3) [OF assms(1)] unfolding level_indexer_def runtime_ok_def by (metis fst_conv)
  have nw: "now ix s = (Ret t, ?s1)" using tw by (simp add: now_def on_env_def on_world_def)
  have ok: "batch_id ?b = batch_id b0" "batch_valid ?b"
    using assms(2) batch_valid_cur [OF _ _ t] by simp_all
  have key: "batch_key ?b = batch_key b0" by (rule batch_key_id [OF ok(1)])
  obtain d where d: "Put (LevelDbDAO x api) \<lparr>kvKey = batch_key ?b, kvValue = batch_value ?b\<rparr> (batchDB s) = (None, d)"
    using dao_writes_level [OF settingD(2) [OF assms(1)]] by (metis dao_writes_def prod.collapse)
  then have upd: "UpdateBatch (levelBatchRepo x api) ?b (batchDB s) = (Ret None, d)"
    by (simp add: UpdateBatch_valid [OF ok(2)] on_batch_def NewKVBatchRepo_def)
  have "store d = (store (batchDB s))(batch_key b0 \<mapsto> batch_value ?b)"
    using batch_repo.UpdateBatch_store [OF leveldb_laws.level_batch_repo [OF settingD(1) [OF assms(1)]] ok(2) upd] key
    by simp
  moreover have "bnd (now ix) (\<lambda>t. on_batchDB (UpdateBatch (idxBatchRepo ix) (b\<lparr>bsUpdatedAt := Some (tUnix t)\<rparr>))) s
      = (Ret None, ?s1\<lparr>batchDB := d\<rparr>)"
    using nw upd settingD(4) [OF assms(1)] by (simp add: bnd_apply on_batchDB_def)
  ultimately show ?thesis using that [OF nw] ok(2) by simp
qed

lemma Processed_ok:
  assumes "batch_setting x api store ix bl bs" "worker_ok bl b0 (Processed i b n)"
    and "worker_step ix (Processed i b n) s w' s'"
  shows "worker_ok bl b0 w' \<and> step_effect x store bl b0 (Processed i b n) s w' s'"
proof -
  obtain t s1 d where t: "now ix s = (Ret t, s1)" "addressDB s1 = addressDB s"
    "bnd (now ix) (\<lambda>t. on_batchDB (UpdateBatch (idxBatchRepo ix) (b\<lparr>bsUpdatedAt := Some (tUnix t)\<rparr>))) s
      = (Ret None, s1\<lparr>batchDB := d\<rparr>)"
    "store d = (store (batchDB s))(batch_key b0 \<mapsto> batch_value (b\<lparr>bsUpdatedAt := Some (tUnix t)\<rparr>))"
    "batch_valid (b\<lparr>bsUpdatedAt := Some (tUnix t)\<rparr>)"
    by (rule Processed_run [OF assms(1,2)])
  let ?b = "b\<lparr>bsUpdatedAt := Some (tUnix t)\<rparr>"
  have "w' = AtTop (i + 1) ?b \<and> addressDB s' = addressDB s \<and> batchDB s' = d"
    using assms(3) by (cases rule: Processed_stepE) (use t(1-3) in \<open>auto simp: snd_on_env\<close>)
  then show ?thesis using assms(2) t(4,5) by (auto simp: step_effect_def intro!: exI [of _ ?b])
qed

lemma worker_step_ok:
  assumes "batch_setting x api store ix bl bs" "worker_ok bl b0 w" "set (pending w) \<subseteq> todo_blocks bs"
    and "worker_step ix w s w' s'"
  shows "worker_ok bl b0 w' \<and> step_effect x store bl b0 w s w' s'"
proof (cases w)
  case (AtTop i b)
  then show ?thesis using AtTop_ok [OF assms(1)] assms(2-4) by simp
next
  case (Fetched i b n bd)
  then show ?thesis using Fetched_ok [OF assms(1), of b0 i b n bd s w' s'] assms(2-4) by simp
next
  case (Processed i b n)
  then show ?thesis using Processed_ok [OF assms(1)] assms(2-4) by simp
qed (use assms in simp_all)

section \<open>The invariant of a run\<close>

definition recorded_ok ::
  "('db \<Rightarrow> bytes \<rightharpoonup> bytes) \<Rightarrow> (bytes \<rightharpoonup> bytes) \<Rightarrow> BatchStatus \<Rightarrow> worker \<Rightarrow> ('db, 'w) Sys \<Rightarrow> bool" where
  "recorded_ok store m0 b0 w s \<longleftrightarrow>
     store (batchDB s) (batch_key b0) = m0 (batch_key b0) \<and> unsaved w = batch_todo b0 \<or>
     (\<exists>b. batch_id b = batch_id b0 \<and> batch_valid b \<and> bt_ok b \<and> batch_todo b = unsaved w \<and>
        store (batchDB s) (batch_key b0) = Some (batch_value b))"

definition worker_inv ::
  "ext \<Rightarrow> ('db \<Rightarrow> bytes \<rightharpoonup> bytes) \<Rightarrow> (int \<Rightarrow> BLockDetail) \<Rightarrow> (bytes \<rightharpoonup> bytes) \<Rightarrow> BatchStatus \<Rightarrow> worker
   \<Rightarrow> ('db, 'w) Sys \<Rightarrow> bool" where
  "worker_inv x store bl m0 b0 w s \<longleftrightarrow>
     worker_ok bl b0 w \<and> set (unsaved w) \<subseteq> set (batch_todo b0) \<and> recorded_ok store m0 b0 w s \<and>
     (\<forall>n \<in> set (batch_todo b0) - set (pending w). block_in x (bl n) (store (addressDB s)))"

definition run_inv ::
  "ext \<Rightarrow> ('db \<Rightarrow> bytes \<rightharpoonup> bytes) \<Rightarrow> (int \<Rightarrow> BLockDetail) \<Rightarrow> (bytes \<rightharpoonup> bytes) \<Rightarrow> BatchStatus list
   \<Rightarrow> worker list \<times> ('db, 'w) Sys \<Rightarrow> bool" where
  "run_inv x store bl m0 bs c \<longleftrightarrow>
     length (fst c) = length bs \<and> (\<forall>k < length bs. worker_inv x store bl m0 (bs ! k) (fst c ! k) (snd c))"

definition init_workers :: "BatchStatus list \<Rightarrow> worker list" where
  "init_workers bs = map (AtTop 0) bs"

lemma pending_unsaved: "set (pending w) \<subseteq> set (unsaved w)"
  by (cases w) auto

lemma todo_blocks_nth: "n \<in> todo_blocks bs \<longleftrightarrow> (\<exists>k < length bs. n \<in> set (batch_todo (bs ! k)))"
proof -
  have "n \<in> todo_blocks bs \<longleftrightarrow> (\<exists>b. b \<in> set bs \<and> n \<in> set (batch_todo b))" by (auto simp: todo_blocks_def)
  also have "\<dots> \<longleftrightarrow> (\<exists>k < length bs. n \<in> set (batch_todo (bs ! k)))"
    by (simp only: in_set_conv_nth [of _ bs]) auto
  finally show ?thesis .
qed

lemma worker_inv_pending: "worker_inv x store bl m0 b0 w s \<Longrightarrow> set (pending w) \<subseteq> set (batch_todo b0)"
  using pending_unsaved [of w] by (auto simp: worker_inv_def)

lemma init_inv:
  assumes "batch_setting x api store ix bl bs"
  shows "run_inv x store bl (store (batchDB s)) bs (init_workers bs, s)"
  using settingD(5) [OF assms] by (simp add: run_inv_def init_workers_def worker_inv_def recorded_ok_def)

text \<open>A block stored by one worker stays when another worker stores a block.\<close>

lemma block_in_step:
  assumes set: "batch_setting x api store ix bl bs" and n: "n \<in> todo_blocks bs" and m: "m \<in> todo_blocks bs"
    and "m = n \<or> block_in x (bl m) mp"
  shows "block_in x (bl m) (put_all (block_kvs x (bl n)) mp)"
proof (cases "m = n")
  case True
  then show ?thesis using block_in_put by simp
next
  case False
  then have "block_keys_of x (bl m) \<inter> block_keys_of x (bl n) = {}"
    by (intro block_keys_disjoint settingD(7,8) [OF set] m n)
  then show ?thesis using block_in_put_other assms(4) False by blast
qed

lemma step_own:
  assumes set: "batch_setting x api store ix bl bs" and b0: "b0 \<in> set bs"
    and inv: "worker_inv x store bl m0 b0 w s"
    and eff: "worker_ok bl b0 w'" "step_effect x store bl b0 w s w' s'"
  shows "worker_inv x store bl m0 b0 w' s'"
proof -
  have todo: "m \<in> todo_blocks bs" if "m \<in> set (batch_todo b0)" for m
    using that b0 by (auto simp: todo_blocks_def)
  have blocks: "\<forall>m \<in> set (batch_todo b0) - set (pending w). block_in x (bl m) (store (addressDB s))"
    using inv by (simp add: worker_inv_def)
  have "\<forall>m \<in> set (batch_todo b0) - set (pending w'). block_in x (bl m) (store (addressDB s'))"
  proof (cases "addressDB s' = addressDB s \<and> pending w' = pending w")
    case True
    then show ?thesis using blocks by simp
  next
    case False
    then obtain n where n: "store (addressDB s') = put_all (block_kvs x (bl n)) (store (addressDB s))"
      "pending w = n # pending w'"
      using eff(2) by (auto simp: step_effect_def)
    then have nb: "n \<in> todo_blocks bs" using worker_inv_pending [OF inv] todo by auto
    show ?thesis
    proof
      fix m assume m: "m \<in> set (batch_todo b0) - set (pending w')"
      then have "m = n \<or> block_in x (bl m) (store (addressDB s))" using blocks n(2) by auto
      then show "block_in x (bl m) (store (addressDB s'))"
        using block_in_step [OF set nb, of m] todo m n(1) by simp
    qed
  qed
  moreover have "recorded_ok store m0 b0 w' s' \<and> set (unsaved w') \<subseteq> set (unsaved w)"
    using inv eff(2) unfolding step_effect_def worker_inv_def recorded_ok_def
    by (elim conjE disjE) (auto simp: exI)
  ultimately show ?thesis using inv eff(1) by (auto simp: worker_inv_def)
qed

lemma step_other:
  assumes set: "batch_setting x api store ix bl bs" and b0: "b0 \<in> set bs" and b1: "b1 \<in> set bs"
    and key: "batch_key b1 \<noteq> batch_key b0" and inv: "worker_inv x store bl m0 b1 v s"
    and own: "worker_inv x store bl m0 b0 w s" and eff: "step_effect x store bl b0 w s w' s'"
  shows "worker_inv x store bl m0 b1 v s'"
proof -
  have rec: "store (batchDB s') (batch_key b1) = store (batchDB s) (batch_key b1)"
    using eff key by (auto simp: step_effect_def)
  have blocks: "block_in x (bl m) (store (addressDB s'))"
    if m: "m \<in> set (batch_todo b1)" "block_in x (bl m) (store (addressDB s))" for m
  proof (cases "addressDB s' = addressDB s")
    case True
    then show ?thesis using m by simp
  next
    case False
    then obtain n where n: "store (addressDB s') = put_all (block_kvs x (bl n)) (store (addressDB s))"
      "pending w = n # pending w'"
      using eff by (auto simp: step_effect_def)
    then have "n \<in> todo_blocks bs" using worker_inv_pending [OF own] b0 by (auto simp: todo_blocks_def)
    moreover have "m \<in> todo_blocks bs" using m(1) b1 by (auto simp: todo_blocks_def)
    ultimately show ?thesis using block_in_step [OF set, of n m] m(2) n(1) by simp
  qed
  show ?thesis using inv rec blocks by (auto simp: worker_inv_def recorded_ok_def)
qed

lemma run_step_inv:
  assumes set: "batch_setting x api store ix bl bs" and inv: "run_inv x store bl m0 bs (ws, s)"
    and step: "run_step ix store K (ws, s) (ws', s')"
  shows "run_inv x store bl m0 bs (ws', s') \<and> sum_list (map weight ws') < sum_list (map weight ws)"
proof -
  obtain k w where k: "k < length ws" "worker_step ix (ws ! k) s w s'" "ws' = ws[k := w]"
    using step by (auto elim: run_step.cases)
  have len: "length ws = length bs" using inv by (simp add: run_inv_def)
  have own: "worker_inv x store bl m0 (bs ! j) (ws ! j) s" if "j < length bs" for j
    using inv that by (simp add: run_inv_def)
  have kb: "k < length bs" "bs ! k \<in> set bs" using k(1) len by simp_all
  have "set (pending (ws ! k)) \<subseteq> todo_blocks bs"
    using worker_inv_pending [OF own [OF kb(1)]] kb(2) by (auto simp: todo_blocks_def)
  then have eff: "worker_ok bl (bs ! k) w" "step_effect x store bl (bs ! k) (ws ! k) s w s'"
    using worker_step_ok [OF set _ _ k(2), of "bs ! k"] own [OF kb(1)] by (simp_all add: worker_inv_def)
  have "worker_inv x store bl m0 (bs ! j) (ws' ! j) s'" if j: "j < length bs" for j
  proof (cases "j = k")
    case True
    then show ?thesis using step_own [OF set kb(2) own [OF kb(1)] eff] k len by simp
  next
    case False
    have "batch_key (bs ! j) \<noteq> batch_key (bs ! k)"
      using settingD(6) [OF set] False j kb(1) by (simp add: distinct_conv_nth)
    then show ?thesis
      using step_other [OF set kb(2) _ _ own [OF j] own [OF kb(1)] eff(2)] j k(3) False by simp
  qed
  moreover have "sum_list (map weight ws') < sum_list (map weight ws)"
  proof -
    have "weight w < weight (ws ! k)" using eff(2) by (simp add: step_effect_def)
    moreover have "weight (ws ! k) \<le> sum_list (map weight ws)" using k(1) by (intro member_le_sum_list) simp_all
    moreover have "sum_list (map weight ws') = sum_list (map weight ws) + weight w - weight (ws ! k)"
      using k(1) unfolding k(3) map_update by (subst sum_list_update) simp_all
    ultimately show ?thesis by linarith
  qed
  ultimately show ?thesis using len k(3) by (simp add: run_inv_def)
qed

lemma other_step_inv:
  assumes "run_inv x store bl m0 bs (ws, s)" "other_step store (all_keys x bl bs) s s'"
  shows "run_inv x store bl m0 bs (ws, s')"
proof -
  have eq: "batchDB s' = batchDB s" "\<forall>k \<in> all_keys x bl bs. store (addressDB s') k = store (addressDB s) k"
    using assms(2) by (auto elim!: other_step.cases)
  have "worker_inv x store bl m0 (bs ! j) (ws ! j) s'" if j: "j < length bs" for j
  proof -
    have "block_in x (bl n) (store (addressDB s'))"
      if "n \<in> set (batch_todo (bs ! j))" "block_in x (bl n) (store (addressDB s))" for n
    proof -
      have "block_keys_of x (bl n) \<subseteq> all_keys x bl bs"
        using that(1) j by (auto simp: all_keys_def todo_blocks_def intro!: bexI [of _ n] bexI [of _ "bs ! j"])
      then show ?thesis using that(2) eq(2) by (auto simp: block_in_def)
    qed
    then show ?thesis
      using assms(1) j eq(1) by (auto simp: run_inv_def worker_inv_def recorded_ok_def)
  qed
  then show ?thesis using assms(1) by (simp add: run_inv_def)
qed

lemma runs_inv:
  assumes "runs ix store (all_keys x bl bs) N c d" "batch_setting x api store ix bl bs" "run_inv x store bl m0 bs c"
  shows "run_inv x store bl m0 bs d \<and> N + sum_list (map weight (fst d)) \<le> sum_list (map weight (fst c))"
  using assms(1,3)
proof induction
  case (runs_refl c)
  then show ?case by simp
next
  case (runs_worker N c d e)
  note IH = runs_worker.IH [OF runs_worker.prems]
  have "run_inv x store bl m0 bs (fst d, snd d)" using IH by simp
  moreover have "run_step ix store (all_keys x bl bs) (fst d, snd d) (fst e, snd e)" using runs_worker.hyps(2) by simp
  ultimately have "run_inv x store bl m0 bs (fst e, snd e) \<and> sum_list (map weight (fst e)) < sum_list (map weight (fst d))"
    by (rule run_step_inv [OF assms(2)])
  then show ?case using IH by auto
next
  case (runs_other N c ws s s')
  then show ?case using other_step_inv by auto
qed

text \<open>The fewer keys the rest of the program leaves alone, the more runs there are.\<close>

lemma runs_mono: "runs ix store K N c d \<Longrightarrow> K' \<subseteq> K \<Longrightarrow> runs ix store K' N c d"
proof (induction rule: runs.induct)
  case (runs_worker N c d e)
  have "run_step ix store K' d e"
    using runs_worker.hyps(2) by (cases rule: run_step.cases) (auto intro: r_worker)
  then show ?case using runs.runs_worker runs_worker.IH [OF runs_worker.prems] by blast
next
  case (runs_other N c ws s s')
  have "other_step store K' s s'"
    using runs_other.hyps(2) runs_other.prems by (cases rule: other_step.cases) (auto intro: other_step.intros)
  then show ?case using runs.runs_other runs_other.IH [OF runs_other.prems] by blast
qed (rule runs_refl)

text \<open>A worker that has not stopped can go on.\<close>

lemma worker_progress:
  assumes set: "batch_setting x api store ix bl bs" and ok: "worker_ok bl b0 w" "set (pending w) \<subseteq> todo_blocks bs"
    and run: "\<And>b. w \<noteq> Stopped b"
  shows "\<exists>w' s'. worker_step ix w s w' s'"
proof (cases w)
  case (AtTop i b)
  show ?thesis
  proof (cases "batch_todo b")
    case Nil
    then show ?thesis using AtTop ok(1) batch_finished w_done by fastforce
  next
    case (Cons n rest)
    note nx = batch_next [OF _ Cons]
    obtain r e' where f: "FetchABlock (idxClient ix) (Some n) (env s) = (Ret r, e')"
      using FetchABlock_world [of "idxClient ix" "Some n" "env s"] by (metis prod.collapse)
    then have "on_env (FetchABlock (idxClient ix) (Some n)) s = (Ret r, s\<lparr>env := e'\<rparr>)"
      by (simp add: on_env_def)
    then show ?thesis
      using AtTop ok(1) nx(1,2) w_fetch w_fetch_fails by (cases r) fastforce+
  qed
next
  case (Fetched i b n bd)
  then have "bd_ok x bd" using ok settingD(7) [OF set] by simp
  then obtain t where "ProcessBlock ix bd True s = (Ret None, t)"
    using ProcessBlock_batch [OF settingD(1,2,3) [OF set], of bd s] by metis
  then show ?thesis using Fetched w_process by blast
next
  case (Processed i b n)
  then show ?thesis using Processed_run [OF set, of b0 i b n s] ok(1) w_update by metis
next
  case (Stopped b)
  then show ?thesis using run by simp
next
  case (Crashed e)
  then show ?thesis using ok(1) by simp
qed

lemma run_progress:
  assumes set: "batch_setting x api store ix bl bs" and inv: "run_inv x store bl m0 bs (ws, s)"
    and k: "k < length ws" "\<And>b. ws ! k \<noteq> Stopped b"
  shows "\<exists>c. run_step ix store K (ws, s) c"
proof -
  have kb: "k < length bs" "worker_inv x store bl m0 (bs ! k) (ws ! k) s"
    using inv k(1) by (auto simp: run_inv_def)
  then have "set (pending (ws ! k)) \<subseteq> todo_blocks bs"
    using worker_inv_pending [OF kb(2)] kb(1) todo_blocks_nth by blast
  then obtain w' t where "worker_step ix (ws ! k) s w' t"
    using worker_progress [OF set _ _ k(2), of "bs ! k" s] kb(2) by (auto simp: worker_inv_def)
  moreover have "\<forall>e. Crashed e \<notin> set ws"
    using inv by (fastforce simp: run_inv_def worker_inv_def in_set_conv_nth)
  ultimately show ?thesis using r_worker [OF k(1)] by blast
qed

text \<open>A worker at its loop condition can run a whole iteration while the others wait.\<close>

lemma worker_iteration:
  assumes "k < length ws" "ws ! k = AtTop i b" "\<forall>e. Crashed e \<notin> set ws" "bt_ok b" "batch_todo b = n # rest"
    and "batch_iter ix tag i b s = (Ret (Some b2), s2)"
  shows "runs ix store K 3 (ws, s) (ws[k := AtTop (i + 1) b2], s2)"
proof -
  obtain b1 m bd sa sb where st: "worker_step ix (AtTop i b) s (Fetched i b1 m bd) sa"
    "worker_step ix (Fetched i b1 m bd) sa (Processed i b1 m) sb"
    "worker_step ix (Processed i b1 m) sb (AtTop (i + 1) b2) s2"
    by (rule batch_iter_steps [OF batch_next(1) [OF assms(4,5)] assms(6)])
  have ok: "\<forall>e. Crashed e \<notin> set (ws[k := w])" if "\<And>e. w \<noteq> Crashed e" for w
    using assms(3) that set_update_subset_insert [of ws k w] by blast
  have upd: "runs ix store K (Suc N) c (ws[k := w'], t')"
    if "runs ix store K N c (ws[k := w], t)" "\<And>e. w \<noteq> Crashed e" "worker_step ix w t w' t'" for N c w t w' t'
    using runs_worker [OF that(1) r_worker [of k "ws[k := w]"]] that(3) ok [OF that(2)] assms(1) by simp
  have "runs ix store K 0 (ws, s) (ws[k := AtTop i b], s)" using runs_refl assms(2) by (metis list_update_id)
  then have "runs ix store K (Suc (Suc (Suc 0))) (ws, s) (ws[k := AtTop (i + 1) b2], s2)"
    using upd [OF upd [OF upd [OF _ _ st(1)] _ st(2)] _ st(3)] by blast
  then show ?thesis by (simp add: numeral_3_eq_3)
qed

text \<open>Every run can be continued to one in which all workers have stopped.\<close>

lemma full_run:
  assumes set: "batch_setting x api store ix bl bs" and K: "all_keys x bl bs \<subseteq> K"
    and "runs ix store K N (init_workers bs, s) (ws, t)"
  shows "\<exists>M us u. runs ix store K M (init_workers bs, s) (us, u) \<and> (\<forall>w \<in> set us. \<exists>b. w = Stopped b)"
  using assms(3)
proof (induction "sum_list (map weight ws)" arbitrary: N ws t rule: less_induct)
  case less
  have inv: "run_inv x store bl (store (batchDB s)) bs (ws, t)"
    using runs_inv [OF runs_mono [OF less.prems K] set init_inv [OF set]] by simp
  show ?case
  proof (cases "\<forall>w \<in> set ws. \<exists>b. w = Stopped b")
    case True
    then show ?thesis using less.prems by blast
  next
    case False
    then obtain k where k: "k < length ws" "\<And>b. ws ! k \<noteq> Stopped b" by (auto simp: in_set_conv_nth)
    obtain vs v where st: "run_step ix store K (ws, t) (vs, v)" using run_progress [OF set inv k] by fastforce
    then have "sum_list (map weight vs) < sum_list (map weight ws)" using run_step_inv [OF set inv st] by simp
    then show ?thesis using less.hyps runs_worker [OF less.prems st] by blast
  qed
qed

lemma step_to_Stopped: "worker_step ix w s (Stopped b) s' \<Longrightarrow> \<exists>i. w = AtTop i b"
  by (erule worker_step.cases) simp_all

text \<open>On a node that serves the blocks a worker stops only when its batch is done.\<close>

lemma provides_stop:
  assumes "runs ix store K N c d" "run_inv x store bl m0 bs c" "batch_setting x api store ix bl bs"
    and "all_keys x bl bs \<subseteq> K" "provides (idxClient ix) bl (todo_blocks bs)"
    and "\<forall>w \<in> set (fst c). \<forall>b. w = Stopped b \<longrightarrow> batch_todo b = []"
  shows "\<forall>w \<in> set (fst d). \<forall>b. w = Stopped b \<longrightarrow> batch_todo b = []"
  using assms(1,2,6)
proof induction
  case (runs_worker N c d e)
  obtain ws s ws' s' where ds: "d = (ws, s)" "e = (ws', s')" by fastforce
  obtain k w where k: "k < length ws" "worker_step ix (ws ! k) s w s'" "ws' = ws[k := w]"
    using runs_worker.hyps(2) ds by (auto elim: run_step.cases)
  have inv: "run_inv x store bl m0 bs (ws, s)"
    using runs_inv [OF runs_mono [OF runs_worker.hyps(1) assms(4)] assms(3) runs_worker.prems(1)] ds by simp
  then have kb: "k < length bs" "worker_inv x store bl m0 (bs ! k) (ws ! k) s" using k(1) by (simp_all add: run_inv_def)
  have "batch_todo b = []" if stop: "w = Stopped b" for b
  proof (rule ccontr)
    assume "batch_todo b \<noteq> []"
    then obtain n rest where b: "batch_todo b = n # rest" by (cases "batch_todo b") auto
    obtain i where i: "ws ! k = AtTop i b" using step_to_Stopped [of ix "ws ! k" s b s'] k(2) stop by blast
    then have w: "ws ! k = AtTop i b" "bt_ok b" using kb(2) by (simp_all add: worker_inv_def)
    have "n \<in> todo_blocks bs"
      using worker_inv_pending [OF kb(2)] w(1) b kb(1) todo_blocks_nth [of n bs] by auto
    then obtain v where "FetchABlock (idxClient ix) (Some n) (env s) = (Ret (Inr (bl n)), (env s)\<lparr>world := v\<rparr>)"
      using assms(5) by (auto simp: provides_def)
    then show False
      using k(2) batch_next(1,2) [OF w(2) b] w(1) stop by (auto elim!: AtTop_stepE simp: on_env_def)
  qed
  then have "\<forall>b. w = Stopped b \<longrightarrow> batch_todo b = []" by blast
  moreover have "\<forall>w \<in> set ws. \<forall>b. w = Stopped b \<longrightarrow> batch_todo b = []"
    using runs_worker ds by simp
  ultimately show ?case using ds k(3) by (auto dest!: set_update_subset_insert [THEN subsetD])
qed simp_all

end
