(* ===== verification/SampleNode.thy ===== *)
theory SampleNode
  imports BatchRun
begin

text \<open>
  A node, a runtime and an indexer on the reference store, on which the properties are instantiated: a chain
  of 21 blocks, 15 seconds apart, with one transfer each, behind an IPC connection that always answers.
\<close>

definition sGeth :: "int \<Rightarrow> GethBlock" where
  "sGeth n =
     \<lparr>gbNumber = Some n, gbTime = word_of_int (1500000000 + 15 * n), gbHash = replicate 32 5,
      gbTransactions =
        [\<lparr>gtTo = Some (replicate 20 2), gtHash = replicate 32 9, gtValue = Some 70, gtData = [], gtGas = 21000,
          gtGasPrice = Some 1\<rparr>]\<rparr>"

definition sClient :: "unit EthClient" where
  "sClient =
     \<lparr>ethDial = (\<lambda>path w. (None, w)),
      BlockByNumber = (\<lambda>n w. (case n of
          Some k \<Rightarrow> (if 0 \<le> k \<and> k \<le> 20 then Inr (sGeth k) else Inl ''not found'') | None \<Rightarrow> Inr (sGeth 20), w)),
      TransactionSender = (\<lambda>tx bh i w. (Inr (replicate 20 1), w)),
      HeaderByNumber = (\<lambda>n w. (Inr (Some 20), w)),
      TransactionReceipt = (\<lambda>h w. (Inr None, w)),
      ethTransactionByHash = (\<lambda>h w. (Inl ''not found'', w)),
      addressString = hexEncode refExt, hashString = hexEncode refExt, BytesToHash = (\<lambda>b. b),
      SubscribeNewHead = (\<lambda>w. (None, w)), ethClose = (\<lambda>w. ((), w))\<rparr>"

definition sRuntime :: "unit Runtime" where
  "sRuntime = \<lparr>timeNow = (\<lambda>w. (time_Unix 1550000000, w)), mapOrder = (\<lambda>w. (rev, w)), stopClosed = (\<lambda>w. (False, w))\<rparr>"

definition sIndexer :: "(refdb, unit) Indexer" where
  "sIndexer =
     \<lparr>idxRepo = levelRepo refExt refLevel, idxBatchRepo = levelBatchRepo refExt refLevel, idxClient = sClient,
      idxRuntime = sRuntime, idxExt = refExt, idxNumBatch = 4\<rparr>"

definition sSys :: "(refdb, unit) Sys" where
  "sSys = \<lparr>addressDB = RBT.empty, blockDB = RBT.empty, batchDB = RBT.empty,
           env = \<lparr>world = (), ipcManager = newIpcManager, switchRequests = 0\<rparr>\<rparr>"

text \<open>Block \<open>n\<close> as the fetcher gives it.\<close>

definition sBd :: "int \<Rightarrow> BLockDetail" where
  "sBd n = \<lparr>bdBlockNumber = Some n, bdTime = Some (1500000000 + 15 * n),
            bdTransactions = [\<lparr>txFrom = sAddr 1, txTo = sAddr 2, txTxHash = sHash 9, txValue = Some 70\<rparr>]\<rparr>"

lemma sRuntime_ok [simp]: "runtime_ok sRuntime"
  by (simp add: runtime_ok_def sRuntime_def)

lemma sIndexer_level [simp]: "level_indexer refExt refLevel sIndexer"
  by (simp add: level_indexer_def sIndexer_def)

lemma sIndexer_batch [simp]: "level_batch_indexer refExt refLevel sIndexer"
  by (simp add: level_batch_indexer_def) (simp add: sIndexer_def)

lemma sIndexer_client [simp]: "idxClient sIndexer = sClient"
  by (simp add: sIndexer_def)

lemma sBd_ok [simp]: "0 \<le> n \<Longrightarrow> n \<le> 20 \<Longrightarrow> bd_ok refExt (sBd n)"
  by (simp add: bd_ok_def sBd_def tx_ok_def end_ok_def time_ok_def)

lemma sClient_blocks: "0 \<le> n \<Longrightarrow> n \<le> 20 \<Longrightarrow> FetchABlock sClient (Some n) e = (Ret (Inr (sBd n)), e)"
proof -
  assume n: "0 \<le> n" "n \<le> 20"
  have "uint (word_of_int (1500000000 + 15 * n) :: 64 word) = 1500000000 + 15 * n"
    using n by (simp only: uint_word_of_int) simp
  then show ?thesis
    using n by (simp add: FetchABlock_def sClient_def sGeth_def on_world_def bnd_apply transaction_of_def
        creates_contract_def sBd_def sAddr_def sHash_def)
qed

lemma sClient_provides: "S \<subseteq> {0..20} \<Longrightarrow> provides sClient sBd S"
  unfolding provides_def
proof (intro ballI allI)
  fix n and e :: "unit Env"
  assume "S \<subseteq> {0..20}" "n \<in> S"
  then have "FetchABlock sClient (Some n) e = (Ret (Inr (sBd n)), e\<lparr>world := world e\<rparr>)"
    using sClient_blocks [of n e] by auto
  then show "\<exists>w. FetchABlock sClient (Some n) e = (Ret (Inr (sBd n)), e\<lparr>world := w\<rparr>)" by blast
qed

lemma sSys_maps [simp]:
  "block_map_ok refExt (RBT.lookup (blockDB sSys))" "RBT.lookup (blockDB sSys) k = None"
  "RBT.lookup (addressDB sSys) k = None"
  by (simp_all add: sSys_def block_map_ok_def)

section \<open>Witnesses on the sample node\<close>

lemma sBd_at_most [simp]: "at_most 254 (sBd n)"
  by (auto simp: at_most_def block_entries_def sBd_def tx_entries_def occ_def)

theorem reprocessing_replaces_witness:
  "\<exists>s1 s2 s3. ProcessBlock sIndexer (sBd 7) False sSys = (Ret None, s1) \<and>
    ProcessBlock sIndexer ((sBd 8)\<lparr>bdBlockNumber := Some 7\<rparr>) False s1 = (Ret None, s2) \<and>
    ProcessBlock sIndexer ((sBd 8)\<lparr>bdBlockNumber := Some 7\<rparr>) False sSys = (Ret None, s3) \<and>
    RBT.lookup (addressDB s2) = RBT.lookup (addressDB s3)"
proof (rule reprocessing_replaces [OF ref_level_laws level_writes_ref sIndexer_level])
  show "bd_ok refExt ((sBd 8)\<lparr>bdBlockNumber := Some 7\<rparr>)"
    using sBd_ok [of 8] by (simp add: bd_ok_def)
  show "bdBlockNumber ((sBd 8)\<lparr>bdBlockNumber := Some 7\<rparr>) = bdBlockNumber (sBd 7)" by (simp add: sBd_def)
qed simp_all

end
