(* ===== verification/WorkerProps.thy ===== *)
theory WorkerProps
  imports WorkerRun SampleNode
begin

text \<open>
  The properties of the batch goroutines running side by side: no block is lost by a crash, the initial batches
  partition the chain, and a run of them ends with every block of the chain stored.
\<close>

section \<open>Properties\<close>

text \<open>
  C3. Nothing is lost by a crash. However the batch goroutines interleave, with each other and with the rest
  of the program, and however often the node fails: no goroutine panics; and whenever the program is killed,
  for every batch whose stored record was written by this run, every block that the record counts as
  processed is in the address database, so that going on from the record misses none.
\<close>

theorem batches_crash_safe:
  assumes "batch_setting x api store ix bl bs"
    and "runs ix store (all_keys x bl bs) N (init_workers bs, s) (ws, s')"
  shows "(\<forall>e. Crashed e \<notin> set ws) \<and>
    (\<forall>b0 \<in> set bs. \<forall>b. batch_valid b \<longrightarrow> batch_id b = batch_id b0 \<longrightarrow>
       store (batchDB s') (batch_key b0) = Some (batch_value b) \<longrightarrow>
       store (batchDB s) (batch_key b0) \<noteq> Some (batch_value b) \<longrightarrow>
       (\<forall>n \<in> set (batch_todo b0) - set (batch_todo b). block_in x (bl n) (store (addressDB s'))))"
proof -
  have inv: "run_inv x store bl (store (batchDB s)) bs (ws, s')"
    using runs_inv [OF assms(2,1) init_inv [OF assms(1)]] by simp
  have "Crashed e \<notin> set ws" for e
    using inv by (fastforce simp: run_inv_def worker_inv_def in_set_conv_nth)
  moreover have "block_in x (bl n) (store (addressDB s'))"
    if b0: "b0 \<in> set bs" and b: "batch_valid b" "batch_id b = batch_id b0"
      "store (batchDB s') (batch_key b0) = Some (batch_value b)"
      "store (batchDB s) (batch_key b0) \<noteq> Some (batch_value b)"
      and n: "n \<in> set (batch_todo b0)" "n \<notin> set (batch_todo b)" for b0 b n
  proof -
    obtain k where k: "k < length bs" "bs ! k = b0" using b0 by (auto simp: in_set_conv_nth)
    then have w: "worker_inv x store bl (store (batchDB s)) b0 (ws ! k) s'" using inv by (auto simp: run_inv_def)
    then obtain b' where b': "batch_id b' = batch_id b0" "batch_valid b'" "batch_todo b' = unsaved (ws ! k)"
      "store (batchDB s') (batch_key b0) = Some (batch_value b')"
      using b(3,4) by (auto simp: worker_inv_def recorded_ok_def)
    have "batch_key b = batch_key b'" using batch_key_id b(2) b'(1) by metis
    moreover have "batch_value b = batch_value b'" using b(3) b'(4) by simp
    ultimately have "b = b'" by (rule batch_eqI [OF b(1) b'(2)])
    then have "n \<notin> set (pending (ws ! k))" using n(2) b'(3) pending_unsaved [of "ws ! k"] by auto
    then show ?thesis using w n(1) by (simp add: worker_inv_def)
  qed
  ultimately show ?thesis by blast
qed

text \<open>
  The batch goroutines end: a run has at most three steps for each block and one for each batch, it never gets
  stuck before all goroutines have returned, and then, on a node that serves the blocks, every block of every
  batch is in the address database.
\<close>

lemma batches_done:
  assumes "batch_setting x api store ix bl bs"
    and "runs ix store (all_keys x bl bs) N (init_workers bs, s) (ws, s')"
  shows "N \<le> (\<Sum>b \<leftarrow> bs. 3 * length (batch_todo b) + 1) \<and>
    ((\<exists>c. run_step ix store (all_keys x bl bs) (ws, s') c) \<or> (\<forall>w \<in> set ws. \<exists>b. w = Stopped b)) \<and>
    ((\<forall>w \<in> set ws. \<exists>b. w = Stopped b) \<longrightarrow> provides (idxClient ix) bl (todo_blocks bs) \<longrightarrow>
       (\<forall>n \<in> todo_blocks bs. block_in x (bl n) (store (addressDB s'))))"
proof -
  note init = init_inv [OF assms(1), of s]
  have inv: "run_inv x store bl (store (batchDB s)) bs (ws, s')"
    and le: "N + sum_list (map weight ws) \<le> sum_list (map weight (init_workers bs))"
    using runs_inv [OF assms(2,1) init] by simp_all
  have "sum_list (map weight (init_workers bs)) = (\<Sum>b \<leftarrow> bs. 3 * length (batch_todo b) + 1)"
    by (simp add: init_workers_def comp_def)
  then have "N \<le> (\<Sum>b \<leftarrow> bs. 3 * length (batch_todo b) + 1)" using le by linarith
  moreover have "\<exists>c. run_step ix store (all_keys x bl bs) (ws, s') c" if w: "w \<in> set ws" "\<And>b. w \<noteq> Stopped b" for w
  proof -
    obtain k where k: "k < length ws" "ws ! k = w" using w(1) by (auto simp: in_set_conv_nth)
    then show ?thesis using run_progress [OF assms(1) inv k(1)] w(2) by simp
  qed
  moreover have "block_in x (bl n) (store (addressDB s'))"
    if stop: "\<forall>w \<in> set ws. \<exists>b. w = Stopped b" and prov: "provides (idxClient ix) bl (todo_blocks bs)"
      and n: "n \<in> todo_blocks bs" for n
  proof -
    obtain k where k: "k < length bs" "n \<in> set (batch_todo (bs ! k))"
      using n todo_blocks_nth by blast
    then have w: "k < length ws" "worker_inv x store bl (store (batchDB s)) (bs ! k) (ws ! k) s'"
      using inv by (simp_all add: run_inv_def)
    then obtain b where b: "ws ! k = Stopped b" using stop nth_mem by blast
    have "\<forall>w \<in> set ws. \<forall>b. w = Stopped b \<longrightarrow> batch_todo b = []"
      using provides_stop [OF assms(2) init assms(1) subset_refl prov] by (simp add: init_workers_def)
    then have "pending (ws ! k) = []" using nth_mem [OF w(1)] b by simp
    then show ?thesis using w(2) k(2) by (simp add: worker_inv_def)
  qed
  ultimately show ?thesis by blast
qed

section \<open>The initial batches\<close>

lemma init_batch_nth:
  "k < nat N \<Longrightarrow> GetInitBatches t N g l ! k = \<lparr>bsFrom = Some (g + int k), bsTo = l, bsCreatedAt = Some (tUnix t),
     bsStep = word_of_int N, bsCurrent = None, bsUpdatedAt = None\<rparr>"
  by (simp add: GetInitBatches_def)

lemma length_init_batches [simp]: "length (GetInitBatches t N g l) = nat N"
  by (simp add: GetInitBatches_def)

lemma init_batch_todo:
  assumes "0 < N" "N < 256" "N \<le> L + 1" "k < nat N"
  shows "n \<in> set (batch_todo (GetInitBatches t N 0 (Some L) ! k)) \<longleftrightarrow> 0 \<le> n \<and> n \<le> L \<and> n mod N = int k"
proof -
  have step: "uint (word_of_int N :: 8 word) = N" using assms(1,2) by (simp add: uint_word_of_int)
  have k: "int k < N" "int k \<le> L" using assms(3,4) by linarith+
  have "n \<in> set (batch_todo (GetInitBatches t N 0 (Some L) ! k)) \<longleftrightarrow>
      n = int k \<or> int k < n \<and> n \<le> L \<and> (n - int k) mod N = 0"
    using in_todo_after [OF assms(1)] by (auto simp: init_batch_nth [OF assms(4)] batch_todo_def Let_def step)
  also have "\<dots> \<longleftrightarrow> 0 \<le> n \<and> n \<le> L \<and> n mod N = int k"
  proof (cases "n = int k")
    case True
    then show ?thesis using k by simp
  next
    case False
    have "(n - int k) mod N = 0 \<longleftrightarrow> n mod N = int k mod N" by (simp add: mod_eq_dvd_iff mod_eq_0_iff_dvd)
    moreover have "int k mod N = int k" using k by simp
    moreover have "int k < n" if "0 \<le> n" "n mod N = int k"
      using False that assms(1) by (metis order_le_less zmod_le_nonneg_dividend)
    ultimately show ?thesis using False by auto
  qed
  finally show ?thesis .
qed

lemma init_batch_sorted:
  assumes "0 < N" "N < 256" "k < nat N"
  shows "sorted_wrt (<) (batch_todo (GetInitBatches t N 0 (Some L) ! k))"
proof -
  have step: "0 < uint (word_of_int N :: 8 word)" using assms(1,2) by (simp add: uint_word_of_int)
  show ?thesis
    using sorted_todo_after [OF step] in_todo_after [OF step]
    by (auto simp: init_batch_nth [OF assms(3)] batch_todo_def Let_def)
qed

lemma init_batch_ok:
  assumes "0 < N" "N < 256" "N \<le> L + 1" "blocknum_ok L" "b \<in> set (GetInitBatches t N 0 (Some L))"
  shows "bt_ok b"
proof -
  have "(word_of_int N :: 8 word) \<noteq> 0"
  proof
    assume "(word_of_int N :: 8 word) = 0"
    then have "uint (word_of_int N :: 8 word) = 0" by simp
    then show False using assms(1,2) by (simp only: uint_word_of_int) simp
  qed
  moreover obtain k where k: "k < nat N" "b = GetInitBatches t N 0 (Some L) ! k"
    using assms(5) by (auto simp: in_set_conv_nth)
  moreover have "blocknum_ok (int k)" using k(1) assms(3,4) by (auto simp: blocknum_ok_def)
  ultimately show ?thesis using assms(4) by (simp add: bt_ok_def init_batch_nth)
qed

lemma init_todo_blocks:
  assumes "0 < N" "N < 256" "N \<le> L + 1"
  shows "todo_blocks (GetInitBatches t N 0 (Some L)) = {0 .. L}"
proof (intro set_eqI)
  fix n
  have "n \<in> todo_blocks (GetInitBatches t N 0 (Some L)) \<longleftrightarrow> (\<exists>k < nat N. 0 \<le> n \<and> n \<le> L \<and> n mod N = int k)"
    unfolding todo_blocks_nth using init_batch_todo [OF assms] by (simp cong: conj_cong)
  also have "\<dots> \<longleftrightarrow> n \<in> {0 .. L}"
    using assms(1) by (auto intro!: exI [of _ "nat (n mod N)"] simp: nat_less_iff zless_nat_eq_int_zless)
  finally show "n \<in> todo_blocks (GetInitBatches t N 0 (Some L)) \<longleftrightarrow> n \<in> {0 .. L}" .
qed

lemma batch_key_bt:
  assumes "bt_ok a" "bt_ok b" "batch_key a = batch_key b"
  shows "batch_id a = batch_id b"
proof -
  let ?v = "\<lambda>b :: BatchStatus. b\<lparr>bsCurrent := Some 0, bsUpdatedAt := Some 1500000000\<rparr>"
  have valid: "batch_valid (?v b)" if "bt_ok b" for b
    using that by (auto simp: bt_ok_def batch_valid_def)
  have "batch_key (?v c) = batch_key c" for c by (simp add: batch_key_def)
  then have "batch_key (?v a) = batch_key (?v b)" using assms(3) by simp
  then have "batch_id (?v a) = batch_id (?v b)" using batch_key_inject [OF valid valid] assms by blast
  then show ?thesis by (simp add: batch_id_def)
qed

lemma init_batch_keys:
  assumes "0 < N" "N < 256" "N \<le> L + 1" "blocknum_ok L"
  shows "distinct (map batch_key (GetInitBatches t N 0 (Some L)))"
  unfolding distinct_map
proof
  let ?bs = "GetInitBatches t N 0 (Some L)"
  have from_eq: "bsFrom a = bsFrom b" if "a \<in> set ?bs" "b \<in> set ?bs" "batch_key a = batch_key b" for a b
    using batch_key_bt [OF _ _ that(3)] init_batch_ok [OF assms] that(1,2) by (simp add: batch_id_def)
  show "inj_on batch_key (set ?bs)"
  proof (rule inj_onI)
    fix a b assume ab: "a \<in> set ?bs" "b \<in> set ?bs" "batch_key a = batch_key b"
    then obtain i j where "i < nat N" "a = ?bs ! i" "j < nat N" "b = ?bs ! j"
      by (auto simp: in_set_conv_nth)
    then show "a = b" using from_eq [OF ab] by (simp add: init_batch_nth)
  qed
  show "distinct ?bs"
    unfolding distinct_conv_nth by (auto simp: init_batch_nth)
qed

lemma init_partition:
  assumes "0 < N" "N < 256" "N \<le> L + 1" "L < 1000000000"
  shows "distinct (concat (map batch_todo (GetInitBatches t N 0 (Some L)))) \<and>
    set (concat (map batch_todo (GetInitBatches t N 0 (Some L)))) = {0 .. L} \<and>
    (\<forall>b \<in> set (GetInitBatches t N 0 (Some L)). sorted_wrt (<) (batch_todo b)) \<and>
    distinct (map batch_key (GetInitBatches t N 0 (Some L)))"
proof -
  let ?bs = "GetInitBatches t N 0 (Some L)"
  have bn: "blocknum_ok L" using assms by (simp add: blocknum_ok_def)
  have sorted: "\<forall>b \<in> set ?bs. sorted_wrt (<) (batch_todo b)"
    using init_batch_sorted [OF assms(1,2)] by (auto simp: in_set_conv_nth)
  have todo: "n \<in> set (batch_todo (?bs ! k)) \<longleftrightarrow> 0 \<le> n \<and> n \<le> L \<and> n mod N = int k" if "k < nat N" for k n
    by (rule init_batch_todo [OF assms(1-3) that])
  have "set (concat (map batch_todo ?bs)) = {0 .. L}"
    using init_todo_blocks [OF assms(1-3), of t] by (simp add: todo_blocks_def)
  moreover have "distinct (concat (map batch_todo ?bs))"
    unfolding distinct_concat_iff
  proof (intro conjI allI impI)
    have "batch_todo (?bs ! i) \<noteq> batch_todo (?bs ! j)" if "i < nat N" "j < nat N" "i \<noteq> j" for i j
    proof
      assume "batch_todo (?bs ! i) = batch_todo (?bs ! j)"
      moreover have "int i \<in> set (batch_todo (?bs ! i))" using todo [OF that(1)] assms(3) that(1) by auto
      ultimately show False using todo [OF that(2), of "int i"] todo [OF that(1), of "int i"] that(3) by simp
    qed
    then show "distinct (removeAll [] (map batch_todo ?bs))"
      by (intro distinct_removeAll) (simp add: distinct_conv_nth)
  next
    fix ys assume "ys \<in> set (map batch_todo ?bs)"
    then show "distinct ys" using sorted strict_sorted_iff by auto
  next
    fix ys zs assume y: "ys \<in> set (map batch_todo ?bs) \<and> zs \<in> set (map batch_todo ?bs) \<and> ys \<noteq> zs"
    then obtain i j where "i < nat N" "ys = batch_todo (?bs ! i)" "j < nat N" "zs = batch_todo (?bs ! j)"
      by (auto simp: in_set_conv_nth)
    then show "set ys \<inter> set zs = {}" using todo y by fastforce
  qed
  ultimately show ?thesis using sorted init_batch_keys [OF assms(1-3) bn] by blast
qed



section \<open>The whole chain\<close>

definition chain_ok :: "ext \<Rightarrow> (int \<Rightarrow> BLockDetail) \<Rightarrow> int \<Rightarrow> bool" where
  "chain_ok x bl L \<longleftrightarrow>
     (\<forall>n \<in> {0 .. L}. bd_ok x (bl n)) \<and>
     (\<forall>m \<in> {0 .. L}. \<forall>n \<in> {0 .. L}. m < n \<longrightarrow> the (bdTime (bl m)) < the (bdTime (bl n)))"

lemma init_setting:
  assumes "leveldb_laws x api store" "level_writes api" "level_batch_indexer x api ix"
    and "0 < N" "N < 256" "N \<le> L + 1" "L < 1000000000" "chain_ok x bl L" "provides (idxClient ix) bl {0 .. L}"
  shows "batch_setting x api store ix bl (GetInitBatches t N 0 (Some L))"
proof -
  have bn: "blocknum_ok L" using assms(4,6,7) by (simp add: blocknum_ok_def)
  note todo = init_todo_blocks [OF assms(4-6), of t]
  have "bdTime (bl m) \<noteq> bdTime (bl n)" if "m \<in> {0 .. L}" "n \<in> {0 .. L}" "m \<noteq> n" for m n
  proof -
    have "the (bdTime (bl m)) < the (bdTime (bl n)) \<or> the (bdTime (bl n)) < the (bdTime (bl m))"
      using assms(8) that unfolding chain_ok_def by (meson linorder_neq_iff)
    then show ?thesis by auto
  qed
  then show ?thesis
    unfolding batch_setting_def todo
    using assms(1-3,8) provides_honest [OF assms(9)] init_batch_ok [OF assms(4-6) bn] init_batch_keys [OF assms(4-6) bn]
    by (simp add: chain_ok_def)
qed

lemma sum_init_todo:
  assumes "0 < N" "N < 256" "N \<le> L + 1" "L < 1000000000"
  shows "int (\<Sum>b \<leftarrow> GetInitBatches t N 0 (Some L). 3 * length (batch_todo b) + 1) = 3 * (L + 1) + N"
proof -
  let ?bs = "GetInitBatches t N 0 (Some L)"
  have "distinct (concat (map batch_todo ?bs))" "set (concat (map batch_todo ?bs)) = {0 .. L}"
    using init_partition [OF assms, of t] by blast+
  then have "length (concat (map batch_todo ?bs)) = nat (L + 1)"
    by (metis card_atLeastAtMost_int diff_zero distinct_card)
  then have "(\<Sum>b \<leftarrow> ?bs. length (batch_todo b)) = nat (L + 1)" by (simp add: length_concat comp_def)
  moreover have "(\<Sum>b \<leftarrow> l. 3 * length (batch_todo b) + 1) = 3 * (\<Sum>b \<leftarrow> l. length (batch_todo b)) + length l"
    for l :: "BatchStatus list" by (induction l) simp_all
  ultimately show ?thesis using assms(1,3) by simp
qed



lemma sample_setting: "batch_setting refExt refLevel RBT.lookup sIndexer sBd (GetInitBatches (time_Unix 1550000000) 4 0 (Some 20))"
proof -
  have chain: "chain_ok refExt sBd 20" by (simp add: chain_ok_def) (simp add: sBd_def)
  have prov: "provides (idxClient sIndexer) sBd {0 .. 20}" using sClient_provides by simp
  show ?thesis
    by (rule init_setting [OF ref_level_laws level_writes_ref sIndexer_batch _ _ _ _ chain prov]) simp_all
qed

theorem batches_crash_safe_witness:
  "\<exists>N ws s' b b0. runs sIndexer RBT.lookup (all_keys refExt sBd (GetInitBatches (time_Unix 1550000000) 4 0 (Some 20))) N
      (init_workers (GetInitBatches (time_Unix 1550000000) 4 0 (Some 20)), sSys) (ws, s') \<and>
    RBT.lookup (batchDB s') (batch_key b0) = Some (batch_value b) \<and>
    set (batch_todo b0) = {0, 4, 8, 12, 16, 20} \<and> batch_todo b = [] \<and>
    {0, 4, 8, 12, 16, 20} \<subseteq> {n. block_in refExt (sBd n) (RBT.lookup (addressDB s'))}"
proof -
  let ?bs = "GetInitBatches (time_Unix 1550000000) 4 0 (Some 20)"
  let ?b0 = "?bs ! 0"
  have todo: "set (batch_todo ?b0) = {0, 4, 8, 12, 16, 20}"
    using init_batch_todo [of 4 20 0] by (auto simp: set_eq_iff)
  have b0: "?b0 \<in> set ?bs" by simp
  obtain N ws s' where run: "runs sIndexer RBT.lookup (all_keys refExt sBd ?bs) N (init_workers ?bs, sSys) (ws, s')"
    "\<forall>w \<in> set ws. \<exists>b. w = Stopped b"
    using full_run [OF sample_setting subset_refl runs_refl] by blast
  have "run_inv refExt RBT.lookup sBd (RBT.lookup (batchDB sSys)) ?bs (ws, s')"
    using runs_inv [OF run(1) sample_setting init_inv [OF sample_setting]] by simp
  then have inv: "ws \<noteq> []" "worker_inv refExt RBT.lookup sBd (RBT.lookup (batchDB sSys)) ?b0 (ws ! 0) s'"
    by (auto simp: run_inv_def)
  obtain c where c: "ws ! 0 = Stopped c" "ws ! 0 \<in> set ws" using run(2) inv(1) by (metis length_greater_0_conv nth_mem)
  have "provides (idxClient sIndexer) sBd (todo_blocks ?bs)"
    using sClient_provides [of "{0 .. 20}"] init_todo_blocks [of 4 20] by simp
  then have "batch_todo c = []"
    using provides_stop [OF run(1) init_inv [OF sample_setting] sample_setting subset_refl] c by (auto simp: init_workers_def)
  then obtain b where b: "batch_id b = batch_id ?b0" "batch_valid b" "batch_todo b = []"
    "RBT.lookup (batchDB s') (batch_key ?b0) = Some (batch_value b)"
    using inv(2) c(1) todo by (auto simp: worker_inv_def recorded_ok_def)
  have "RBT.lookup (batchDB sSys) (batch_key ?b0) \<noteq> Some (batch_value b)" by (simp add: sSys_def)
  then have "\<forall>n \<in> set (batch_todo ?b0) - set (batch_todo b). block_in refExt (sBd n) (RBT.lookup (addressDB s'))"
    using batches_crash_safe [OF sample_setting run(1)] b0 b by blast
  then have "runs sIndexer RBT.lookup (all_keys refExt sBd ?bs) N (init_workers ?bs, sSys) (ws, s') \<and>
    RBT.lookup (batchDB s') (batch_key ?b0) = Some (batch_value b) \<and>
    set (batch_todo ?b0) = {0, 4, 8, 12, 16, 20} \<and> batch_todo b = [] \<and>
    {0, 4, 8, 12, 16, 20} \<subseteq> {n. block_in refExt (sBd n) (RBT.lookup (addressDB s'))}"
    using run(1) b(3,4) todo by auto
  then show ?thesis by (intro exI)
qed

end
