(* ===== verification/ResumeProps.thy ===== *)
theory ResumeProps
  imports WorkerProps
begin

text \<open>
  A batch goroutine always returns; the batches that a restarted indexer goes on with; and what a restart loses
  when not every batch has a record yet.
\<close>

section \<open>A batch goroutine returns\<close>

lemma ends_on_batch: "ends (on_batch f)"
  by (simp add: ends_def on_batch_def split_beta Let_def)

lemma MarshallBatchValue_ends: "MarshallBatchValue u c \<noteq> Diverge"
  unfolding MarshallBatchValue_def by (intro obind_ends) simp_all

lemma ends_UpdateBatch: "ends (UpdateBatch repo b)"
  unfolding UpdateBatch_def by (intro ends_intros ends_on_batch MarshallBatchValue_ends)

lemma Next_ends: "Next b \<noteq> Diverge"
  unfolding Next_def by (cases "bsCurrent b") (simp_all add: obind_ends Let_def)

lemma IsDone_ends: "IsDone b \<noteq> Diverge"
  unfolding IsDone_def by (cases "bsCurrent b") (simp_all add: obind_ends Let_def)

lemma ends_now: "ends (now ix)"
  unfolding now_def by (intro ends_on_env ends_on_world)

lemma ends_batch_iter: "ends (batch_iter ix tag i b)"
  unfolding batch_iter_def
  by (intro ends_intros Next_ends ends_on_env ends_FetchABlock ends_ProcessBlock_batch ends_now ends_on_batchDB
      ends_UpdateBatch ends_on_world outcome.distinct)

lemma batch_loop_ends:
  assumes "bt_ok b"
  shows "\<exists>r s'. batch_loop ix tag i b s = Some (r, s') \<and> r \<noteq> Diverge"
  using assms
proof (induction "batch_todo b" arbitrary: b i s)
  case Nil
  then show ?case using batch_finished [OF Nil.prems] by (simp add: batch_loop.simps)
next
  case (Cons n rest)
  note nx = batch_next [OF Cons.prems Cons.hyps(2) [symmetric]]
  obtain r s1 where it: "batch_iter ix tag i b s = (r, s1)" by fastforce
  show ?case
  proof (cases "\<exists>b1. r = Ret (Some b1)")
    case True
    then obtain b1 where r: "r = Ret (Some b1)" by blast
    then obtain u where b1: "b1 = b\<lparr>bsCurrent := Some n, bsUpdatedAt := Some u\<rparr>"
      using batch_iter_Some [of ix tag i b s b1 s1] it nx(2) by auto
    have "batch_todo b1 = rest" using nx(3) by (simp add: b1)
    moreover have "bt_ok b1" using Cons.prems nx(4) by (simp add: b1 bt_ok_def)
    ultimately have "\<exists>r s'. batch_loop ix tag (i + 1) b1 s1 = Some (r, s') \<and> r \<noteq> Diverge" using Cons.hyps(1) by simp
    then show ?thesis using nx(1) it r by (simp add: batch_loop.simps [of ix tag i b s])
  next
    case False
    then have "r = Ret None \<or> (\<exists>e. r = Panic e)"
      using ends_batch_iter [of ix tag i b] it unfolding ends_def
      by (cases r) (auto, metis fst_conv not_None_eq)
    then show ?thesis
      using nx(1) it by (auto simp: batch_loop.simps [of ix tag i b s])
  qed
qed

lemma ends_NewChainFetch: "ends (NewChainFetch cl)"
  by (simp add: ends_def NewChainFetch_def bnd_apply on_world_def switchIPC_def split: prod.split option.split)

text \<open>
  C13. A batch goroutine always returns or panics: whatever the node, the clock and the databases do, the loop
  of \<open>batchIndex\<close> over a batch whose ends have at most nine digits ends.
\<close>

theorem batch_index_ends:
  assumes "bt_ok b"
  shows "fst (batchIndex ix b tag s) \<noteq> Diverge"
proof -
  have "ends (run_loop (batch_loop ix tag 0 b))"
    unfolding ends_def run_loop_def
  proof
    fix s
    obtain r s' where "batch_loop ix tag 0 b s = Some (r, s')" "r \<noteq> Diverge" using batch_loop_ends [OF assms] by blast
    then show "fst (case batch_loop ix tag 0 b s of None \<Rightarrow> (Diverge, s) | Some r \<Rightarrow> r) \<noteq> Diverge" by simp
  qed
  then have "ends (batchIndex ix b tag)"
    unfolding batchIndex_def by (intro ends_intros ends_now ends_on_env ends_NewChainFetch)
  then show ?thesis by (simp add: ends_def)
qed

theorem batch_index_ends_witness:
  "fst (batchIndex sIndexer sBatch ''t'' sSys) \<noteq> Diverge"
  by (rule batch_index_ends) (simp add: bt_ok_def sBatch_def blocknum_ok_def)

section \<open>Restarting\<close>

definition unfinished :: "BatchStatus \<Rightarrow> bool" where
  "unfinished b \<longleftrightarrow> batch_todo b \<noteq> []"

definition extended :: "int \<Rightarrow> int option \<Rightarrow> BatchStatus \<Rightarrow> BatchStatus" where
  "extended n L b = (if bsFrom b = Some n then b\<lparr>bsTo := L\<rparr> else b)"

lemma GetAll_single:
  assumes "batch_repo repo store" "batch_valid b" "store d = [batch_key b \<mapsto> batch_value b]"
  shows "batch_map_ok (store d)" "GetAllBatchStatuses repo d = Ret [b]"
proof -
  show ok: "batch_map_ok (store d)" using assms(2,3) by (auto simp: batch_map_ok_def split: if_splits)
  obtain bs where bs: "GetAllBatchStatuses repo d = Ret bs" by (rule batch_repo.GetAll_Ret [OF assms(1) ok])
  have "dom (store d) = {batch_key b}" using assms(3) by simp
  then have "length bs = 1" using batch_repo.GetAll_length [OF assms(1) ok bs] by (simp del: fun_upd_apply)
  moreover have "c = b" if "c \<in> set bs" for c
    using batch_repo.GetAll_set [OF assms(1) ok bs, of c] that assms(2,3) by (auto intro: batch_eqI split: if_splits)
  ultimately have "bs = [b]" by (cases bs) auto
  then show "GetAllBatchStatuses repo d = Ret [b]" using bs by simp
qed

lemma IsDone_unfinished: "bt_ok b \<Longrightarrow> IsDone b = Ret (\<not> unfinished b)"
  using batch_finished batch_next(1) by (cases "batch_todo b") (auto simp: unfinished_def)

lemma resume_batches_eq:
  assumes "\<And>f t d. ReplaceBatch (idxBatchRepo ix) f t d = (Ret None, d)" "\<forall>b \<in> set bs. bt_ok b"
  shows "resume_batches ix n L bs acc found s =
    (Ret (acc @ map (extended n L) (filter unfinished bs),
       found \<or> (\<exists>b \<in> set bs. unfinished b \<and> bsFrom b = Some n)), s)"
  using assms(2)
proof (induction bs arbitrary: acc found)
  case (Cons b bs)
  obtain f where f: "bsFrom b = Some f" using Cons.prems by (auto simp: bt_ok_def)
  have "on_batchDB (ReplaceBatch (idxBatchRepo ix) (Some f) L) s = (Ret None, s)"
    by (simp add: on_batchDB_def assms(1))
  then show ?case
    using Cons f IsDone_unfinished [of b] by (auto simp: bnd_apply extended_def)
qed simp

lemma resumed_batches:
  assumes "leveldb_laws x api store" "level_batch_indexer x api ix" "batch_map_ok (store (batchDB s))"
    and "GetAllBatchStatuses (levelBatchRepo x api) (batchDB s) = Ret bs" "bs \<noteq> []" "\<forall>b \<in> set bs. bt_ok b"
    and "GetLastBlock x (levelRepo x api) s = Ret lastBlock" "n = last_block_num lastBlock"
  shows "\<exists>s' t. getBatches ix L s = (Ret (map (extended n L) (filter unfinished bs) @
      (if \<exists>b \<in> set bs. unfinished b \<and> bsFrom b = Some n then []
       else [\<lparr>bsFrom = Some n, bsTo = L, bsCreatedAt = Some t, bsStep = 1, bsCurrent = None, bsUpdatedAt = None\<rparr>])), s') \<and>
    addressDB s' = addressDB s \<and> blockDB s' = blockDB s \<and> batchDB s' = batchDB s"
proof -
  have ix: "idxExt ix = x" "idxRepo ix = levelRepo x api" "idxBatchRepo ix = levelBatchRepo x api"
    using assms(2) by (simp_all add: level_batch_indexer_def level_indexer_def)
  have repl: "ReplaceBatch (idxBatchRepo ix) f t d = (Ret None, d)" for f t d
    unfolding ix using kv_dao.FindByKeyPrefix_eq [OF leveldb_laws.level_dao [OF assms(1)]]
    by (simp add: ReplaceBatch_def NewKVBatchRepo_def find_spec_def Let_def)
  obtain t s1 where t: "now ix s = (Ret t, s1)" "addressDB s1 = addressDB s" "blockDB s1 = blockDB s" "batchDB s1 = batchDB s"
    by (simp add: now_def on_env_def on_world_def split_beta Let_def)
  have last: "GetLastBlock x (levelRepo x api) s1 = Ret lastBlock"
    using assms(7) t(3) by (simp add: GetLastBlock_def)
  show ?thesis
    using t assms(4,5,8) last
    by (auto simp: getBatches_def bnd_apply ix resume_batches_eq [OF repl assms(6)] Let_def)
qed

text \<open>
  C10. A restarted indexer goes on exactly where the stored records say: from a batch database that is not
  empty, \<open>getBatches\<close> returns the stored batches that are not done, unchanged except that the one that starts
  at the last stored block (0 when there is none) now ends at the latest block, and, when there is no such
  batch, a new one from the last stored block on; it writes nothing. A batch without a record is not among them.
\<close>

theorem restart_resumes:
  assumes "leveldb_laws x api store" "level_batch_indexer x api ix" "batch_map_ok (store (batchDB s))"
    and "GetAllBatchStatuses (levelBatchRepo x api) (batchDB s) = Ret bs" "bs \<noteq> []" "\<forall>b \<in> set bs. bt_ok b"
    and "GetLastBlock x (levelRepo x api) s = Ret lastBlock" "n = last_block_num lastBlock"
  shows "\<exists>s' t. getBatches ix L s = (Ret (map (extended n L) (filter unfinished bs) @
      (if \<exists>b \<in> set bs. unfinished b \<and> bsFrom b = Some n then []
       else [\<lparr>bsFrom = Some n, bsTo = L, bsCreatedAt = Some t, bsStep = 1, bsCurrent = None, bsUpdatedAt = None\<rparr>])), s') \<and>
    addressDB s' = addressDB s \<and> blockDB s' = blockDB s \<and> batchDB s' = batchDB s"
  using resumed_batches [OF assms] .

theorem restart_resumes_witness:
  "\<exists>s' t. getBatches sIndexer (Some 20)
      (sSys\<lparr>batchDB := RBT.insert (batch_key sBatch) (batch_value sBatch) RBT.empty\<rparr>) =
    (Ret [sBatch, \<lparr>bsFrom = Some 0, bsTo = Some 20, bsCreatedAt = Some t, bsStep = 1, bsCurrent = None,
                  bsUpdatedAt = None\<rparr>], s')"
proof -
  let ?d = "RBT.insert (batch_key sBatch) (batch_value sBatch) RBT.empty :: refdb"
  let ?s = "sSys\<lparr>batchDB := ?d\<rparr>"
  have one: "RBT.lookup (batchDB ?s) = [batch_key sBatch \<mapsto> batch_value sBatch]" by (simp add: fun_eq_iff)
  note single = GetAll_single [OF leveldb_laws.level_batch_repo [OF ref_level_laws] sBatch_valid one]
  have todo: "unfinished sBatch" by (simp add: unfinished_def batch_todo_def sBatch_def todo_after_def)
  have bt: "\<forall>b \<in> set [sBatch]. bt_ok b" by (simp add: bt_ok_def sBatch_def blocknum_ok_def)
  have last: "GetLastBlock refExt (levelRepo refExt refLevel) ?s = Ret (Inl ''no last record'')"
    by (rule index_repo.GetLastBlock_empty [OF leveldb_laws.level_repo [OF ref_level_laws]]) (simp add: sSys_def fun_eq_iff)
  have num: "last_block_num (Inl ''no last record'') = 0"
    by (simp add: last_block_num_def emptyBlockIndex_def big_SetString_def split_sign_def)
  have ext: "extended 0 (Some 20) sBatch = sBatch" and fr: "bsFrom sBatch = Some 5"
    by (simp_all add: extended_def sBatch_def)
  from restart_resumes [OF ref_level_laws sIndexer_batch single _ bt last refl, of "Some 20"] todo
  show ?thesis unfolding num by (auto simp: ext fr)
qed

section \<open>A restart before every batch has a record\<close>

lemma getBatches_first:
  assumes "leveldb_laws x api store" "level_batch_indexer x api ix" "store (batchDB s) = Map.empty"
  obtains t s1 where "getBatches ix L s = (Ret (GetInitBatches t (idxNumBatch ix) 0 L), s1)"
    "addressDB s1 = addressDB s" "blockDB s1 = blockDB s" "batchDB s1 = batchDB s"
proof -
  have "idxBatchRepo ix = levelBatchRepo x api" using assms(2) by (simp add: level_batch_indexer_def)
  moreover have "GetAllBatchStatuses (levelBatchRepo x api) (batchDB s) = Ret []"
    using kv_dao.GetAllRecords_eq [OF leveldb_laws.level_dao [OF assms(1)]] assms(3)
    by (simp add: GetAllBatchStatuses_def NewKVBatchRepo_def kvs_def)
  ultimately show ?thesis
    using that by (auto simp: getBatches_def bnd_apply now_def on_env_def on_world_def split_beta Let_def)
qed

text \<open>
  C11. What the stored records do not cover is lost. The initial batches are not written to the batch database; only
  an iteration writes the record of its batch. From empty databases, \<open>getBatches\<close> cuts the chain into
  \<open>N\<close> > 1 batches that cover the blocks 0 to \<open>L\<close>; they can run for three steps, one iteration of
  the first goroutine, which stores block 0; if the program is restarted then, \<open>getBatches\<close> finds one record and
  returns only that batch, extended to the new latest block: the blocks left to its goroutine are the multiples
  of \<open>N\<close>, and no batch has the other blocks up to \<open>L'\<close> any more.
\<close>

theorem restart_can_lose_blocks:
  assumes "leveldb_laws x api store" "level_writes api" "level_batch_indexer x api ix" "idxNumBatch ix = N"
    and "1 < N" "N < 256" "N \<le> L" "L \<le> L'" "L' < 1000000000" "provides (idxClient ix) bl {0}" "bd_ok x (bl 0)"
    and "store (addressDB s) = Map.empty" "store (blockDB s) = Map.empty" "store (batchDB s) = Map.empty"
  shows "\<exists>bs s1 ws s2 bs' s3. getBatches ix (Some L) s = (Ret bs, s1) \<and> todo_blocks bs = {0 .. L} \<and>
    runs ix store {} 3 (init_workers bs, s1) (ws, s2) \<and>
    store (addressDB s2) = put_all (block_kvs x (bl 0)) Map.empty \<and>
    getBatches ix (Some L') s2 = (Ret bs', s3) \<and> todo_blocks bs' = {n. 0 < n \<and> n \<le> L' \<and> N dvd n}"
proof -
  obtain t s1 where g: "getBatches ix (Some L) s = (Ret (GetInitBatches t N 0 (Some L)), s1)"
    "addressDB s1 = addressDB s" "blockDB s1 = blockDB s" "batchDB s1 = batchDB s"
    using getBatches_first [OF assms(1,3,14)] assms(4) by metis
  let ?bs = "GetInitBatches t N 0 (Some L)"
  have N: "0 < N" "N < 256" "N \<le> L + 1" and bn: "blocknum_ok L" "blocknum_ok L'"
    using assms(5-9) by (simp_all add: blocknum_ok_def)
  have step: "uint (word_of_int N :: 8 word) = N" using N(1,2) by (simp add: uint_word_of_int)
  have len: "0 < length ?bs" using N(1) by simp
  have b0: "?bs ! 0 = \<lparr>bsFrom = Some 0, bsTo = Some L, bsCreatedAt = Some (tUnix t), bsStep = word_of_int N,
      bsCurrent = None, bsUpdatedAt = None\<rparr>" "?bs ! 0 \<in> set ?bs"
    using init_batch_nth [of 0 N] N(1) nth_mem [OF len] by simp_all
  then have todo: "batch_todo (?bs ! 0) = 0 # todo_after 0 N L" by (simp add: batch_todo_def step)
  have ok: "bt_ok (?bs ! 0)" by (rule init_batch_ok [OF N bn(1) b0(2)])
  obtain b s2 where it: "batch_iter ix [] 0 (?bs ! 0) s1 = (Ret (Some b), s2)" and b: "bt_ok b"
    "batch_todo b = todo_after 0 N L" "bsCurrent b = Some 0" "batch_id b = batch_id (?bs ! 0)" "batch_valid b"
    and db: "store (addressDB s2) = put_all (block_kvs x (bl 0)) (store (addressDB s1))" "blockDB s2 = blockDB s1"
    "store (batchDB s2) = (store (batchDB s1))(batch_key b \<mapsto> batch_value b)"
    by (rule batch_iter_ok [OF assms(1-3) ok todo assms(10,11)])
  have run: "runs ix store {} 3 (init_workers ?bs, s1) ((init_workers ?bs)[0 := AtTop (0 + 1) b], s2)"
    by (rule worker_iteration [OF _ _ _ ok todo it]) (use len in \<open>auto simp: init_workers_def\<close>)
  note single = GetAll_single [OF leveldb_laws.level_batch_repo [OF assms(1)] b(5), of "batchDB s2"]
  have one: "store (batchDB s2) = [batch_key b \<mapsto> batch_value b]" using db(3) g(4) assms(14) by simp
  have frm: "bsFrom b = Some 0" "bsStep b = word_of_int N" using b(4) b0(1) by (simp_all add: batch_id_def)
  have unf: "unfinished b"
    using b(2) todo_after_step [of 0 N L] assms(5,7) by (simp add: unfinished_def)
  have last: "GetLastBlock x (levelRepo x api) s2 = Ret (Inl ''no last record'')"
    by (rule index_repo.GetLastBlock_empty [OF leveldb_laws.level_repo [OF assms(1)]])
      (simp add: db(2) g(3) assms(13))
  have num: "last_block_num (Inl ''no last record'') = 0"
    by (simp add: last_block_num_def emptyBlockIndex_def big_SetString_def split_sign_def)
  obtain s3 where r: "getBatches ix (Some L') s2 = (Ret [b\<lparr>bsTo := Some L'\<rparr>], s3)"
    using resumed_batches [OF assms(1,3) single(1) single(2) _ _ last refl, of "Some L'"] one unf b(1) frm num
    by (auto simp: extended_def)
  have "todo_blocks [b\<lparr>bsTo := Some L'\<rparr>] = {n. 0 < n \<and> n \<le> L' \<and> N dvd n}"
    using in_todo_after [OF N(1)] b(3) frm by (auto simp: todo_blocks_def batch_todo_def step)
  then show ?thesis using g run db(1) r init_todo_blocks [OF N] assms(12) by auto
qed

theorem restart_can_lose_blocks_witness:
  "\<exists>bs s1 ws s2 bs' s3. getBatches sIndexer (Some 20) sSys = (Ret bs, s1) \<and> todo_blocks bs = {0 .. 20} \<and>
    runs sIndexer RBT.lookup {} 3 (init_workers bs, s1) (ws, s2) \<and>
    getBatches sIndexer (Some 30) s2 = (Ret bs', s3) \<and> 5 \<notin> todo_blocks bs' \<and> 28 \<in> todo_blocks bs'"
proof -
  have prov: "provides (idxClient sIndexer) sBd {0}" using sClient_provides by simp
  have num: "idxNumBatch sIndexer = 4" by (simp add: sIndexer_def)
  have dbs: "RBT.lookup (addressDB sSys) = Map.empty" "RBT.lookup (blockDB sSys) = Map.empty"
    "RBT.lookup (batchDB sSys) = Map.empty" by (simp_all add: sSys_def fun_eq_iff)
  obtain bs s1 ws s2 bs' s3 where run: "getBatches sIndexer (Some 20) sSys = (Ret bs, s1)" "todo_blocks bs = {0 .. 20}"
    "runs sIndexer RBT.lookup {} 3 (init_workers bs, s1) (ws, s2)"
    "getBatches sIndexer (Some 30) s2 = (Ret bs', s3)" and todo: "todo_blocks bs' = {n. 0 < n \<and> n \<le> 30 \<and> 4 dvd n}"
    using restart_can_lose_blocks [OF ref_level_laws level_writes_ref sIndexer_batch num _ _ _ _ _ prov _ dbs, of 20 30]
    by auto
  have "5 \<notin> todo_blocks bs'" "28 \<in> todo_blocks bs'" by (simp_all add: todo)
  note conjI [OF run(1) conjI [OF run(2) conjI [OF run(3) conjI [OF run(4) conjI [OF this]]]]]
  then show ?thesis by (intro exI)
qed

end
