(* ===== verification/GoTime.thy ===== *)
theory GoTime
  imports Datetime "HOL-Library.Monad_Syntax"
begin

text \<open>
  The calendar part of Go's package \<open>time\<close> that the indexer uses (Go 1.12, the version the repository builds
  with), and \<open>StrToTime\<close> of \<open>common/datetime.go\<close>: \<open>time.Parse\<close> for the three layouts of \<open>StrToTime\<close>, \<open>time.Date\<close>,
  and \<open>Format\<close> with \<open>RFC3339\<close>. An instant is a number of nanoseconds, so that the zone of a parsed time only
  shifts it; the offset of the machine's local zone is a parameter of \<open>Format\<close>.
\<close>

section \<open>Dates\<close>

definition is_leap :: "int \<Rightarrow> bool" where
  "is_leap y \<longleftrightarrow> y mod 4 = 0 \<and> (y mod 100 \<noteq> 0 \<or> y mod 400 = 0)"

definition daysBefore :: "int list" where
  "daysBefore = [0, 31, 59, 90, 120, 151, 181, 212, 243, 273, 304, 334, 365]"

definition daysIn :: "int \<Rightarrow> int \<Rightarrow> int" where
  "daysIn month year =
     (if month = 2 \<and> is_leap year then 29
      else daysBefore ! nat month - daysBefore ! nat (month - 1))"

text \<open>Days from 0001-01-01 to the first day of a year; cycles of 400, 100, 4 years and 1 year.\<close>

definition days_to_year :: "int \<Rightarrow> int" where
  "days_to_year year =
     (let y = year - 1
      in 146097 * (y div 400) + 36524 * (y mod 400 div 100) + 1461 * (y mod 100 div 4) + 365 * (y mod 4))"

definition yday_of :: "bool \<Rightarrow> int \<Rightarrow> int \<Rightarrow> int" where
  "yday_of leap month day = daysBefore ! nat (month - 1) + (if leap \<and> 3 \<le> month then 1 else 0) + day - 1"

definition unixEpochDays :: int where "unixEpochDays = 719162"

definition unix_days :: "int \<Rightarrow> int \<Rightarrow> int \<Rightarrow> int" where
  "unix_days year month day = days_to_year year + yday_of (is_leap year) month day - unixEpochDays"

text \<open>\<open>time.Date\<close> in UTC, of fields in their ranges.\<close>

definition time_Date :: "int \<Rightarrow> int \<Rightarrow> int \<Rightarrow> int \<Rightarrow> int \<Rightarrow> int \<Rightarrow> int \<Rightarrow> gotime" where
  "time_Date year month day hour mi se nsec =
     (unix_days year month day * 86400 + hour * 3600 + mi * 60 + se) * Second + nsec"

text \<open>\<open>absDate\<close>: the date of a day since 0001-01-01. \<open>n - n div 4\<close> turns 4, the last day of a cycle, into 3.\<close>

definition month_day :: "bool \<Rightarrow> int \<Rightarrow> int \<times> int" where
  "month_day leap yday =
     (if leap \<and> yday = 59 then (2, 29)
      else let day = (if leap \<and> yday > 59 then yday - 1 else yday);
               month = day div 31;
               ende = daysBefore ! nat (month + 1)
           in if day \<ge> ende then (month + 2, day - ende + 1)
              else (month + 1, day - daysBefore ! nat month + 1))"

definition absDate :: "int \<Rightarrow> int \<times> int \<times> int" where
  "absDate days =
     (let n400 = days div 146097; d = days mod 146097;
          n100 = d div 36524 - d div 36524 div 4; d = d - 36524 * n100;
          n4 = d div 1461; d = d - 1461 * n4;
          n1 = d div 365 - d div 365 div 4; d = d - 365 * n1;
          year = 400 * n400 + 100 * n100 + 4 * n4 + n1 + 1;
          (month, day) = month_day (is_leap year) d
      in (year, month, day))"

section \<open>Format\<close>

definition appendInt :: "int \<Rightarrow> nat \<Rightarrow> string" where
  "appendInt x width =
     (let u = dec (nat \<bar>x\<bar>)
      in (if x < 0 then ''-'' else []) @ replicate (width - length u) (CHR ''0'') @ u)"

text \<open>\<open>t.Format(time.RFC3339)\<close>, with the offset of \<open>t\<close>'s zone in seconds.\<close>

definition format_zone :: "int \<Rightarrow> string" where
  "format_zone offset =
     (if offset = 0 then ''Z''
      else let zone = \<bar>offset\<bar> div 60
           in (if offset < 0 \<and> 0 < zone then ''-'' else ''+'') @ appendInt (zone div 60) 2 @ '':'' @ appendInt (zone mod 60) 2)"

definition Format_RFC3339 :: "int \<Rightarrow> gotime \<Rightarrow> string" where
  "Format_RFC3339 offset t =
     (let abs = tUnix t + offset + unixEpochDays * 86400;
          (year, month, day) = absDate (abs div 86400);
          s = abs mod 86400
      in appendInt year 4 @ ''-'' @ appendInt month 2 @ ''-'' @ appendInt day 2 @ ''T'' @
         appendInt (s div 3600) 2 @ '':'' @ appendInt (s mod 3600 div 60) 2 @ '':'' @ appendInt (s mod 60) 2 @
         format_zone offset)"

section \<open>Parse\<close>

definition digit_int :: "char \<Rightarrow> int" where
  "digit_int c = int (digit_val c)"

text \<open>\<open>atoi\<close> of package \<open>time\<close>: an optional sign and digits, of which there may be none.\<close>

definition time_atoi :: "string \<Rightarrow> int option" where
  "time_atoi s =
     (let (neg, r) = split_sign s
      in if list_all is_digit r then Some (if neg then - int (dec_val r) else int (dec_val r)) else None)"

fun getnum :: "string \<Rightarrow> bool \<Rightarrow> (int \<times> string) option" where
  "getnum [] fixed = None"
| "getnum [c] fixed = (if is_digit c \<and> \<not> fixed then Some (digit_int c, []) else None)"
| "getnum (c # d # s) fixed =
     (if \<not> is_digit c then None
      else if is_digit d then Some (10 * digit_int c + digit_int d, s)
      else if fixed then None else Some (digit_int c, d # s))"

definition skip_char :: "char \<Rightarrow> string \<Rightarrow> string option" where
  "skip_char c s = (case s of [] \<Rightarrow> None | d # r \<Rightarrow> if d = c then Some r else None)"

definition in_bounds :: "int \<Rightarrow> int \<Rightarrow> int \<times> string \<Rightarrow> (int \<times> string) option" where
  "in_bounds lo hi p = (if lo \<le> fst p \<and> fst p \<le> hi then Some p else None)"

definition parse_year :: "string \<Rightarrow> (int \<times> string) option" where
  "parse_year s =
     (if length s < 4 \<or> \<not> is_digit (hd s) then None
      else case time_atoi (take 4 s) of None \<Rightarrow> None | Some y \<Rightarrow> Some (y, drop 4 s))"

text \<open>A fraction after the seconds is read though no layout has one.\<close>

definition parse_frac :: "string \<Rightarrow> (int \<times> string) option" where
  "parse_frac s =
     (if 2 \<le> length s \<and> hd s = CHR ''.'' \<and> is_digit (s ! 1)
      then let ds = takeWhile is_digit (tl s); ns = int (dec_val ds)
           in if ns \<ge> 1000000000 then None
              else Some (ns * 10 ^ (9 - length ds), dropWhile is_digit (tl s))
      else Some (0, s))"

datatype tz_layout = NoTZ | NumTZ | ISO8601ColonTZ

definition zone_offset :: "char \<Rightarrow> string \<Rightarrow> string \<Rightarrow> int option" where
  "zone_offset sign hour mi =
     do { hr \<leftarrow> time_atoi hour; mm \<leftarrow> time_atoi mi;
          let offset = (hr * 60 + mm) * 60;
          if sign = CHR ''+'' then Some offset else if sign = CHR ''-'' then Some (- offset) else None }"

fun parse_tz :: "tz_layout \<Rightarrow> string \<Rightarrow> (int \<times> string) option" where
  "parse_tz NoTZ s = Some (0, s)"
| "parse_tz NumTZ s =
     (if length s < 5 then None
      else do { offset \<leftarrow> zone_offset (hd s) (take 2 (drop 1 s)) (take 2 (drop 3 s)); Some (offset, drop 5 s) })"
| "parse_tz ISO8601ColonTZ s =
     (if s \<noteq> [] \<and> hd s = CHR ''Z'' then Some (0, tl s)
      else if length s < 6 \<or> s ! 3 \<noteq> CHR '':'' then None
      else do { offset \<leftarrow> zone_offset (hd s) (take 2 (drop 1 s)) (take 2 (drop 4 s)); Some (offset, drop 6 s) })"

text \<open>
  \<open>time.Parse\<close> with the layout \<open>2006-01-02T15:04:05\<close> followed by the layout of a zone; \<open>None\<close> is an error.
\<close>

definition time_Parse :: "tz_layout \<Rightarrow> string \<Rightarrow> gotime option" where
  "time_Parse tz s0 =
     do { (year, s1) \<leftarrow> parse_year s0; s2 \<leftarrow> skip_char (CHR ''-'') s1;
          (month, s3) \<leftarrow> Option.bind (getnum s2 True) (in_bounds 1 12); s4 \<leftarrow> skip_char (CHR ''-'') s3;
          (day, s5) \<leftarrow> getnum s4 True; s6 \<leftarrow> skip_char (CHR ''T'') s5;
          (hour, s7) \<leftarrow> Option.bind (getnum s6 False) (in_bounds 0 23); s8 \<leftarrow> skip_char (CHR '':'') s7;
          (mi, s9) \<leftarrow> Option.bind (getnum s8 True) (in_bounds 0 59); s10 \<leftarrow> skip_char (CHR '':'') s9;
          (se, s11) \<leftarrow> Option.bind (getnum s10 True) (in_bounds 0 59);
          (nsec, s12) \<leftarrow> parse_frac s11;
          (offset, s13) \<leftarrow> parse_tz tz s12;
          if s13 \<noteq> [] \<or> day < 1 \<or> daysIn month year < day then None
          else Some (time_Date year month day hour mi se nsec - offset * Second) }"

text \<open>\<open>StrToTime\<close>: Unix seconds, or one of three ISO 8601 layouts; the error is the one of the last layout.\<close>

definition StrToTime :: "string \<Rightarrow> string + gotime" where
  "StrToTime str =
     (case ParseInt str of
        Inr i \<Rightarrow> Inr (time_Unix i)
      | Inl _ \<Rightarrow>
          (case time_Parse NumTZ str of
             Some tm \<Rightarrow> Inr tm
           | None \<Rightarrow>
               (case time_Parse NoTZ str of
                  Some tm \<Rightarrow> Inr tm
                | None \<Rightarrow>
                    (case time_Parse ISO8601ColonTZ str of
                       Some tm \<Rightarrow> Inr tm | None \<Rightarrow> Inl ''cannot parse''))))"

end
