(* ===== verification/GoStrings.thy ===== *)
theory GoStrings
  imports GoLib
begin

text \<open>
  The functions of Go's package \<open>strings\<close> that the indexer uses, on strings of ASCII characters, with a separator
  of one character, and \<open>Contains\<close> of \<open>common/collection.go\<close>.
\<close>

text \<open>\<open>strings.Split\<close>: always at least one part.\<close>

fun strings_Split :: "string \<Rightarrow> char \<Rightarrow> string list" where
  "strings_Split [] sep = [[]]"
| "strings_Split (c # s) sep =
     (if c = sep then [] # strings_Split s sep
      else case strings_Split s sep of [] \<Rightarrow> [[c]] | p # ps \<Rightarrow> (c # p) # ps)"

fun strings_Join :: "string list \<Rightarrow> char \<Rightarrow> string" where
  "strings_Join [] sep = []"
| "strings_Join [p] sep = p"
| "strings_Join (p # ps) sep = p @ sep # strings_Join ps sep"

definition upper_char :: "char \<Rightarrow> char" where
  "upper_char c = (if 97 \<le> (of_char c :: nat) \<and> (of_char c :: nat) \<le> 122 then char_of (of_char c - 32 :: nat) else c)"

definition lower_char :: "char \<Rightarrow> char" where
  "lower_char c = (if 65 \<le> (of_char c :: nat) \<and> (of_char c :: nat) \<le> 90 then char_of (of_char c + 32 :: nat) else c)"

definition strings_ToUpper :: "string \<Rightarrow> string" where
  "strings_ToUpper s = map upper_char s"

definition strings_ToLower :: "string \<Rightarrow> string" where
  "strings_ToLower s = map lower_char s"

fun Contains :: "string list \<Rightarrow> string \<Rightarrow> bool" where
  "Contains [] item = False"
| "Contains (a # arr) item = (if a = item then True else Contains arr item)"

lemma Contains_iff [simp]: "Contains arr item \<longleftrightarrow> item \<in> set arr"
  by (induction arr) auto

lemma Split_not_Nil [simp]: "strings_Split s sep \<noteq> []"
  by (cases s) (auto split: list.split)

lemma Split_no_sep: "sep \<notin> set s \<Longrightarrow> strings_Split s sep = [s]"
  by (induction s) auto

lemma Split_append:
  "sep \<notin> set p \<Longrightarrow> strings_Split (p @ sep # s) sep = p # strings_Split s sep"
  by (induction p) auto

lemma Split_Join:
  assumes "ps \<noteq> []" "\<forall>p \<in> set ps. sep \<notin> set p"
  shows "strings_Split (strings_Join ps sep) sep = ps"
  using assms
proof (induction ps rule: induct_list012)
  case (3 p q ps)
  then show ?case by (simp add: Split_append)
qed (simp_all add: Split_no_sep)

lemma Join_Split: "strings_Join (strings_Split s sep) sep = s"
proof (induction s)
  case (Cons c s)
  obtain p ps where "strings_Split s sep = p # ps" by (cases "strings_Split s sep") auto
  then show ?case using Cons by (cases ps) auto
qed simp

lemma Split_parts: "\<forall>p \<in> set (strings_Split s sep). sep \<notin> set p"
proof (induction s)
  case (Cons c s)
  obtain p ps where "strings_Split s sep = p # ps" by (cases "strings_Split s sep") auto
  then show ?case using Cons by auto
qed simp

lemma ToUpper_append [simp]: "strings_ToUpper (a @ b) = strings_ToUpper a @ strings_ToUpper b"
  by (simp add: strings_ToUpper_def)

end
