(* ===== verification/HttpServer.thy ===== *)
theory HttpServer
  imports Indexer GoTime GoStrings
begin

text \<open>
  The HTTP server (\<open>http/server.go\<close>, \<open>http/types/response.go\<close>).
  \<^item> gin is a parameter: a request is what the handlers ask of it (\<open>Param\<close> and \<open>Query\<close>, both the empty string
    when absent), a response is the list of the calls \<open>c.JSON(status, body)\<close> in their order. A handler may make
    more than one. A panic inside a handler is its outcome.
  \<^item> The printed time of an entry is in the machine's local zone; \<open>zone\<close> gives its offset at a time.
  \<^item> A server's fetcher is the IPC path it was connected to, none when it is nil, and \<open>clients\<close> gives the node
    behind a path. Servers are structs that pointers refer to: \<open>Http\<close> has a heap of them.
\<close>

section \<open>Response types\<close>

record EIAddress =
  eiAddress :: string
  eiTxHash :: string
  eiValue :: "int option"
  eiTime :: string
  eiCoupleAddress :: string
  eiData :: "bytes option"
  eiGas :: "64 word"
  eiGasPrice :: "int option"

record EITransactionsByAccount =
  etTotal :: string
  etStart :: int
  etIndexes :: "EIAddress list"

record EITotalTransaction =
  ettTotal :: int

record EIBlocks =
  ebTotal :: int
  ebStart :: int
  ebIndexes :: "BlockIndex list"

record EIBatchStatus =
  ebsFrom :: "int option"
  ebsTo :: "int option"
  ebsStep :: "8 word"
  ebsCurrent :: string
  ebsCreatedAt :: gotime
  ebsUpdatedAt :: gotime

record VersionInfo =
  viVersion :: string
  viBuildID :: string
  viGitHash :: string

definition AddressToEIAddress :: "(int \<Rightarrow> int) \<Rightarrow> AddressIndex \<Rightarrow> EIAddress outcome" where
  "AddressToEIAddress zone address =
     obind (UnmarshallIntToTime (aiTime address)) (\<lambda>t.
     Ret \<lparr>eiAddress = Address address, eiTxHash = aiTxHash address, eiValue = aiValue address,
          eiTime = Format_RFC3339 (zone (tUnix t)) t, eiCoupleAddress = CoupleAddress address,
          eiData = None, eiGas = 0, eiGasPrice = None\<rparr>)"

datatype body =
    Msg string
  | Transactions EITransactionsByAccount
  | Total EITotalTransaction
  | Blocks EIBlocks
  | Batches "EIBatchStatus list"
  | Version VersionInfo
  | Text string

type_synonym response = "(nat \<times> body) list"

section \<open>Query parameters\<close>

record Request =
  reqParam :: "string \<Rightarrow> string"
  reqQuery :: "string \<Rightarrow> string"

definition DefaultRows :: int where "DefaultRows = 10"

definition getPagingQueryParams :: "Request \<Rightarrow> int \<times> int" where
  "getPagingQueryParams c =
     (let rows = (case Atoi (reqQuery c ''rows'') of Inl err \<Rightarrow> DefaultRows | Inr n \<Rightarrow> n);
          start = (case Atoi (reqQuery c ''start'') of Inl err \<Rightarrow> 0 | Inr n \<Rightarrow> n)
      in (rows, start))"

text \<open>The result of \<open>getAccountParam\<close>: what it wrote, the account, the two times and the error.\<close>

definition getAccountParam :: "ext \<Rightarrow> Request \<Rightarrow> response \<times> string \<times> gotime \<times> gotime \<times> string option" where
  "getAccountParam x c =
     (let account = reqParam c ''accountNumber''; (accountByteArr, err) = hexDecode x account
      in if err \<noteq> None \<or> length accountByteArr = 0
         then ([(400, Msg (''invalid account '' @ account))], account, zeroTime, zeroTime, err)
         else
           (let fromTimeStr = reqQuery c ''from'';
                fromTime = (if length fromTimeStr > 0 then StrToTime fromTimeStr else Inr zeroTime)
            in case fromTime of
                 Inl err \<Rightarrow> ([(400, Msg (''invalid from '' @ fromTimeStr))], account, zeroTime, zeroTime, Some err)
               | Inr fromTime \<Rightarrow>
                   (let toTimeStr = reqQuery c ''to'';
                        toTime = (if length toTimeStr > 0 then StrToTime toTimeStr else Inr zeroTime)
                    in case toTime of
                         Inl err \<Rightarrow> ([(400, Msg (''invalid to '' @ toTimeStr))], account, fromTime, zeroTime, Some err)
                       | Inr toTime \<Rightarrow> ([], account, fromTime, toTime, None))))"

section \<open>Servers\<close>

record ('db, 'w) Server =
  srvIndexRepo :: "'db KVIndexRepo"
  srvBatchRepo :: "'db KVBatchRepo"
  srvIndexer :: "('db, 'w) Indexer"
  srvFetcher :: "string option"

record ('db, 'w) Http =
  httpEnv :: "'w Env"
  heap :: "nat \<Rightarrow> ('db, 'w) Server option"

text \<open>
  \<open>NewServer\<close> makes the server at the address \<open>a\<close>, subscribes that address and returns the struct, a copy.
\<close>

definition NewServer :: "('db, 'w) Indexer \<Rightarrow> nat \<Rightarrow> (('db, 'w) Http, ('db, 'w) Server) st" where
  "NewServer idx a =
     (\<lambda>h. let server = \<lparr>srvIndexRepo = idxRepo idx, srvBatchRepo = idxBatchRepo idx, srvIndexer = idx, srvFetcher = None\<rparr>;
              e1 = (httpEnv h)\<lparr>ipcManager := Subscribe a (ipcManager (httpEnv h))\<rparr>
          in case NewChainFetch (idxClient idx) e1 of
               (Ret err, e2) \<Rightarrow>
                 (let server1 = (if err \<noteq> None then server
                                 else server\<lparr>srvFetcher := Some (GetIPC (ipcManager e2))\<rparr>)
                  in (Ret server1, h\<lparr>httpEnv := e2, heap := (heap h)(a \<mapsto> server1)\<rparr>))
             | (Panic m, e2) \<Rightarrow> (Panic m, h\<lparr>httpEnv := e2\<rparr>)
             | (Diverge, e2) \<Rightarrow> (Diverge, h\<lparr>httpEnv := e2\<rparr>))"

text \<open>The method \<open>IpcUpdated\<close> on the server at the address \<open>a\<close>.\<close>

definition ServerIpcUpdated :: "nat \<Rightarrow> string \<Rightarrow> (('db, 'w) Http, unit) st" where
  "ServerIpcUpdated a ipcPath =
     (\<lambda>h. case heap h a of
            None \<Rightarrow> (Panic ''invalid memory address or nil pointer dereference'', h)
          | Some server \<Rightarrow>
              (case NewChainFetch (idxClient (srvIndexer server)) (httpEnv h) of
                 (Ret err, e2) \<Rightarrow>
                   (if err \<noteq> None then (Ret (), h\<lparr>httpEnv := e2\<rparr>)
                    else (Ret (), h\<lparr>httpEnv := e2,
                            heap := (heap h)(a \<mapsto> server\<lparr>srvFetcher := Some (GetIPC (ipcManager e2))\<rparr>)\<rparr>))
               | (Panic m, e2) \<Rightarrow> (Panic m, h\<lparr>httpEnv := e2\<rparr>)
               | (Diverge, e2) \<Rightarrow> (Diverge, h\<lparr>httpEnv := e2\<rparr>)))"

text \<open>\<open>server := http.NewServer(idx)\<close> in \<open>main\<close>: the variable is another place, \<open>b\<close>, and \<open>Start\<close> uses it.\<close>

definition main_server :: "('db, 'w) Indexer \<Rightarrow> nat \<Rightarrow> nat \<Rightarrow> (('db, 'w) Http, unit) st" where
  "main_server idx a b =
     bnd (NewServer idx a) (\<lambda>server. \<lambda>h. (Ret (), h\<lparr>heap := (heap h)(b \<mapsto> server)\<rparr>))"

text \<open>
  The switch of the IPC path while servers exist: \<open>ChangeIPC\<close>, allowed again by \<open>EnableSwitchIPC\<close>, and its
  notifications, each a call of \<open>IpcUpdated\<close>. A subscriber that is no server is the indexer.
\<close>

fun notify_all :: "(nat \<times> string) list \<Rightarrow> (('db, 'w) Http, unit) st" where
  "notify_all [] = ret ()"
| "notify_all ((sub, ipcPath) # rest) =
     (\<lambda>h. if heap h sub = None then notify_all rest h
          else bnd (ServerIpcUpdated sub ipcPath) (\<lambda>_. notify_all rest) h)"

definition switch_ipc :: "(('db, 'w) Http, unit) st" where
  "switch_ipc =
     (\<lambda>h. case ChangeIPC (EnableSwitchIPC (ipcManager (httpEnv h))) of
            Ret (notifications, im) \<Rightarrow> notify_all notifications (h\<lparr>httpEnv := (httpEnv h)\<lparr>ipcManager := im\<rparr>\<rparr>)
          | Panic e \<Rightarrow> (Panic e, h)
          | Diverge \<Rightarrow> (Diverge, h))"

fun switch_times :: "nat \<Rightarrow> (('db, 'w) Http, unit) st" where
  "switch_times 0 = ret ()"
| "switch_times (Suc n) = bnd (switch_times n) (\<lambda>_. switch_ipc)"

section \<open>Handlers\<close>

text \<open>A query of the repositories does not change the state.\<close>

definition query :: "('s \<Rightarrow> 'a outcome) \<Rightarrow> ('s, 'a) st" where
  "query f = (\<lambda>s. (f s, s))"

text \<open>The additional fields of an entry, from the node; an error leaves the entry as it is.\<close>

definition add_fields ::
  "(string \<Rightarrow> 'w EthClient) \<Rightarrow> ('db, 'w) Server \<Rightarrow> bool \<Rightarrow> bool \<Rightarrow> bool \<Rightarrow> EIAddress \<Rightarrow> ('db, 'w, EIAddress) sys_st" where
  "add_fields clients server needTxData needGas needGasPrice addr =
     (if needTxData \<or> needGas \<or> needGasPrice
      then bnd (lift (deref (srvFetcher server))) (\<lambda>path.
           bnd (on_env (TransactionByHash (idxExt (srvIndexer server)) (clients path) (eiTxHash addr))) (\<lambda>r.
           case r of
             Inl err \<Rightarrow> ret addr
           | Inr addl \<Rightarrow>
               (let a1 = (if needTxData then addr\<lparr>eiData := Some (exData addl)\<rparr> else addr);
                    a2 = (if needGas then a1\<lparr>eiGas := exGas addl\<rparr> else a1);
                    a3 = (if needGasPrice then a2\<lparr>eiGasPrice := exGasPrice addl\<rparr> else a2)
                in ret a3)))
      else ret addr)"

fun ei_addresses ::
  "(string \<Rightarrow> 'w EthClient) \<Rightarrow> (int \<Rightarrow> int) \<Rightarrow> ('db, 'w) Server \<Rightarrow> bool \<Rightarrow> bool \<Rightarrow> bool \<Rightarrow> AddressIndex list
   \<Rightarrow> ('db, 'w, EIAddress list) sys_st" where
  "ei_addresses clients zone server d g p [] = ret []"
| "ei_addresses clients zone server d g p (idx # rest) =
     bnd (lift (AddressToEIAddress zone idx)) (\<lambda>addr.
     bnd (add_fields clients server d g p addr) (\<lambda>addr1.
     bnd (ei_addresses clients zone server d g p rest) (\<lambda>addresses. ret (addr1 # addresses))))"

definition total_string :: "int \<Rightarrow> string" where
  "total_string tot =
     (if tot > NumMaxTransaction then ''+'' @ Itoa NumMaxTransaction else Itoa tot)"

definition getTransactionsByAccount ::
  "(string \<Rightarrow> 'w EthClient) \<Rightarrow> (int \<Rightarrow> int) \<Rightarrow> ('db, 'w) Server \<Rightarrow> Request \<Rightarrow> ('db, 'w, response) sys_st" where
  "getTransactionsByAccount clients zone server c =
     (let x = idxExt (srvIndexer server); (written, account, fromTime, toTime, err) = getAccountParam x c
      in if err \<noteq> None then ret written
         else
           let addlFields = strings_Split (reqQuery c ''fl'') CHR '','';
               needTxData = Contains addlFields ''data'';
               needGas = Contains addlFields ''gas'';
               needGasPrice = Contains addlFields ''gasPrice'';
               (rows, start) = getPagingQueryParams c
           in bnd (query (GetTransactionByAddress x (srvIndexRepo server) account rows start fromTime toTime))
                (\<lambda>(tot, addressIndexes).
              bnd (ei_addresses clients zone server needTxData needGas needGasPrice addressIndexes) (\<lambda>addresses.
              ret (written @ [(200, Transactions \<lparr>etTotal = total_string tot, etStart = start, etIndexes = addresses\<rparr>)]))))"

definition getTotalByAccount :: "('db, 'w) Server \<Rightarrow> Request \<Rightarrow> ('db, 'w, response) sys_st" where
  "getTotalByAccount server c =
     (let x = idxExt (srvIndexer server); (written, account, fromTime, toTime, err) = getAccountParam x c
      in if err \<noteq> None then ret written
         else bnd (query (GetTotalTransaction x (srvIndexRepo server) account fromTime toTime)) (\<lambda>tot.
              ret (written @ [(200, Total \<lparr>ettTotal = tot\<rparr>)])))"

definition getBlock :: "('db, 'w) Server \<Rightarrow> Request \<Rightarrow> ('db, 'w, response) sys_st" where
  "getBlock server c =
     (let x = idxExt (srvIndexer server); blockNumber = reqParam c ''blockNumber'';
          (rows, start) = getPagingQueryParams c
      in bnd (query (GetBlocks x (srvIndexRepo server) blockNumber rows start)) (\<lambda>(tot, blocks).
         ret [(200, Blocks \<lparr>ebTotal = tot, ebStart = start, ebIndexes = blocks\<rparr>)]))"

definition rerunBlock :: "('db, 'w) Server \<Rightarrow> Request \<Rightarrow> ('db, 'w, response) sys_st" where
  "rerunBlock server c =
     (let blockNumberStr = reqParam c ''blockNumber''; (blockNumber, ok) = big_SetString blockNumberStr
      in if \<not> ok then ret [(400, Msg (''invalid block nunmber '' @ blockNumberStr))]
         else bnd (FetchAndProcess (srvIndexer server) (Some blockNumber)) (\<lambda>err.
              case err of
                Some e \<Rightarrow> ret [(500, Msg (''internal server error '' @ e))]
              | None \<Rightarrow> ret [(200, Text (''Indexer processed block '' @ blockNumberStr @ '' successfully''))]))"

definition batch_status_of :: "BatchStatus \<Rightarrow> EIBatchStatus outcome" where
  "batch_status_of batch =
     obind (UnmarshallIntToTime (bsCreatedAt batch)) (\<lambda>created.
     obind (UnmarshallIntToTime (bsUpdatedAt batch)) (\<lambda>updated.
     Ret \<lparr>ebsFrom = bsFrom batch, ebsTo = bsTo batch, ebsStep = bsStep batch,
          ebsCurrent = (case bsCurrent batch of None \<Rightarrow> [] | Some n \<Rightarrow> big_String (Some n)),
          ebsCreatedAt = created, ebsUpdatedAt = updated\<rparr>))"

definition getBatchStatusHandler :: "('db, 'w) Server \<Rightarrow> Request \<Rightarrow> ('db, 'w, response) sys_st" where
  "getBatchStatusHandler server c =
     bnd (query (\<lambda>s. GetAllBatchStatuses (srvBatchRepo server) (batchDB s))) (\<lambda>batchStatuses.
     bnd (lift (omap batch_status_of batchStatuses)) (\<lambda>response. ret [(200, Batches response)]))"

definition GetVersion :: VersionInfo where
  "GetVersion = \<lparr>viVersion = ''1.0.3-alpha'', viBuildID = ''55'', viGitHash = ''0''\<rparr>"

definition getVersion :: "('db, 'w) Server \<Rightarrow> Request \<Rightarrow> ('db, 'w, response) sys_st" where
  "getVersion server c = ret [(200, Version GetVersion)]"

end
