(* ===== verification/GoTimeFacts.thy ===== *)
theory GoTimeFacts
  imports GoTime
begin

text \<open>
  Facts about dates and printed times: \<open>absDate\<close> inverts the day count, printed numbers are parsed back, and a
  time that \<open>Format\<close> prints is read back by \<open>StrToTime\<close>.
\<close>

section \<open>Dates\<close>

lemma daysBefore_nth [simp]:
  "daysBefore ! 0 = 0" "daysBefore ! Suc 0 = 31" "daysBefore ! 2 = 59" "daysBefore ! 3 = 90" "daysBefore ! 4 = 120"
  "daysBefore ! 5 = 151" "daysBefore ! 6 = 181" "daysBefore ! 7 = 212" "daysBefore ! 8 = 243" "daysBefore ! 9 = 273"
  "daysBefore ! 10 = 304" "daysBefore ! 11 = 334" "daysBefore ! 12 = 365"
  by (simp_all add: daysBefore_def)

definition month_ok :: "bool \<Rightarrow> int \<Rightarrow> bool" where
  "month_ok leap yday =
     (let (m, d) = month_day leap yday
      in yday_of leap m d = yday \<and> 1 \<le> m \<and> m \<le> 12 \<and> 1 \<le> d \<and>
         d \<le> (if m = 2 \<and> leap then 29 else daysBefore ! nat m - daysBefore ! nat (m - 1)))"

lemma month_day_365:
  assumes "0 \<le> day" "day < 365"
  shows "let month = day div 31; ende = daysBefore ! nat (month + 1);
      (m, d) = (if day \<ge> ende then (month + 2, day - ende + 1) else (month + 1, day - daysBefore ! nat month + 1))
    in daysBefore ! nat (m - 1) + d - 1 = day \<and> 1 \<le> m \<and> m \<le> 12 \<and> 1 \<le> d \<and>
       d \<le> daysBefore ! nat m - daysBefore ! nat (m - 1) \<and> (m \<le> 2 \<longleftrightarrow> day < 59)"
proof -
  define q where "q = day div 31"
  have day: "31 * q \<le> day" "day < 31 * q + 31" by (simp_all add: q_def)
  have "0 \<le> q" "q \<le> 11" using assms day by linarith+
  then have "q = 0 \<or> q = 1 \<or> q = 2 \<or> q = 3 \<or> q = 4 \<or> q = 5 \<or> q = 6 \<or> q = 7 \<or> q = 8 \<or> q = 9 \<or> q = 10 \<or> q = 11"
    by presburger
  then show ?thesis
    unfolding q_def [symmetric] Let_def by (elim disjE) (use assms day in simp_all)
qed

definition core_day :: "int \<Rightarrow> int \<times> int" where
  "core_day day =
     (let month = day div 31; ende = daysBefore ! nat (month + 1)
      in if day \<ge> ende then (month + 2, day - ende + 1) else (month + 1, day - daysBefore ! nat month + 1))"

lemma core_day:
  assumes "0 \<le> day" "day < 365" "core_day day = (m, d)"
  shows "daysBefore ! nat (m - 1) + d - 1 = day \<and> 1 \<le> m \<and> m \<le> 12 \<and> 1 \<le> d \<and>
    d \<le> daysBefore ! nat m - daysBefore ! nat (m - 1) \<and> (m \<le> 2 \<longleftrightarrow> day < 59)"
  using month_day_365 [OF assms(1,2)] assms(3) unfolding core_day_def Let_def by (simp only: prod.case)

lemma month_day_core:
  "month_day leap yday = (if leap \<and> yday = 59 then (2, 29) else core_day (if leap \<and> yday > 59 then yday - 1 else yday))"
  by (simp only: month_day_def core_day_def Let_def)

lemma month_ok:
  assumes "0 \<le> yday" "yday < (if leap then 366 else 365)"
  shows "month_ok leap yday"
proof -
  obtain m d where md: "month_day leap yday = (m, d)" by fastforce
  consider "leap" "yday = 59" | "leap" "yday > 59" | "\<not> leap \<or> yday < 59" by linarith
  then show ?thesis
  proof cases
    case 1
    then show ?thesis by (simp add: month_ok_def month_day_def yday_of_def)
  next
    case 2
    then have "core_day (yday - 1) = (m, d)" using md by (simp add: month_day_core)
    from core_day [OF _ _ this] show ?thesis
      using 2 assms md by (auto simp: month_ok_def yday_of_def)
  next
    case 3
    then have "core_day yday = (m, d)" using md by (auto simp: month_day_core)
    from core_day [OF _ _ this] show ?thesis
      using 3 assms md by (auto simp: month_ok_def yday_of_def)
  qed
qed

text \<open>The four numbers of \<open>absDate\<close> are the digits of the year in the cycles of 400, 100, 4 and 1 years.\<close>

lemma quot_cycle:
  fixes d c e :: int
  assumes "0 \<le> d" "d < 4 * c + e" "0 \<le> e" "e < c"
  defines "n \<equiv> d div c - d div c div 4"
  shows "0 \<le> n \<and> n \<le> 3 \<and> 0 \<le> d - c * n \<and> d - c * n < (if n = 3 then c + e else c)"
proof -
  define q r where "q = d div c" and "r = d mod c"
  have c: "0 < c" using assms by linarith
  have d: "d = c * q + r" "0 \<le> r" "r < c" using c by (simp_all add: q_def r_def)
  have "0 \<le> q" unfolding q_def using c assms by (simp add: pos_imp_zdiv_nonneg_iff)
  moreover have "q < 5"
  proof (rule ccontr)
    assume "\<not> q < 5"
    then have "c * 5 \<le> c * q" using assms by (intro mult_left_mono) simp_all
    then show False using d assms by linarith
  qed
  ultimately consider "q = 0" | "q = 1" | "q = 2" | "q = 3" | "q = 4" by linarith
  then show ?thesis
    unfolding n_def q_def [symmetric] using d assms(2,3) by cases simp_all
qed

lemma mod_last: "1 \<le> n \<Longrightarrow> n \<le> (k :: int) \<Longrightarrow> (q * k + n) mod k = 0 \<longleftrightarrow> n = k"
  by (cases "n = k") (simp_all add: mod_mult_self3)

lemma cycles_of:
  fixes a b c e :: int
  assumes "0 \<le> b" "b \<le> 3" "0 \<le> c" "c \<le> 24" "0 \<le> e" "e \<le> 3"
  defines "y \<equiv> 400 * a + 100 * b + 4 * c + e + 1"
  shows "days_to_year y = 146097 * a + 36524 * b + 1461 * c + 365 * e"
    and "is_leap y \<longleftrightarrow> e = 3 \<and> (c \<noteq> 24 \<or> b = 3)"
proof -
  let ?z = "y - 1"
  have z: "?z = a * 400 + (100 * b + 4 * c + e)" "?z = (4 * a + b) * 100 + (4 * c + e)"
    "?z = (100 * a + 25 * b + c) * 4 + e" by (simp_all add: y_def)
  have lt: "0 \<le> 100 * b + 4 * c + e" "100 * b + 4 * c + e < 400" "0 \<le> 4 * c + e" "4 * c + e < 100" "e < 4"
    using assms by linarith+
  have m400: "?z div 400 = a" "?z mod 400 = 100 * b + 4 * c + e" unfolding z(1) using lt by simp_all
  have m100: "?z mod 100 = 4 * c + e" unfolding z(2) mod_mult_self3 using lt(3,4) by (rule mod_pos_pos_trivial)
  have m4: "?z mod 4 = e" unfolding z(3) mod_mult_self3 using assms(5) lt(5) by (rule mod_pos_pos_trivial)
  have d: "(100 * b + 4 * c + e) div 100 = b" "(4 * c + e) div 4 = c" using lt assms(5) by linarith+
  show "days_to_year y = 146097 * a + 36524 * b + 1461 * c + 365 * e"
    by (simp only: days_to_year_def Let_def m400 m100 m4 d)
  have y: "y = a * 400 + (100 * b + 4 * c + e + 1)" "y = (4 * a + b) * 100 + (4 * c + e + 1)"
    "y = (100 * a + 25 * b + c) * 4 + (e + 1)" by (simp_all add: y_def)
  have y4: "y mod 4 = 0 \<longleftrightarrow> e = 3" unfolding y(3) using mod_last [of "e + 1" 4 "100 * a + 25 * b + c"] assms(5,6) by linarith
  have y100: "y mod 100 = 0 \<longleftrightarrow> c = 24 \<and> e = 3"
    unfolding y(2) using mod_last [of "4 * c + e + 1" 100 "4 * a + b"] assms(3-6) by linarith
  have y400: "y mod 400 = 0 \<longleftrightarrow> b = 3 \<and> c = 24 \<and> e = 3"
    unfolding y(1) using mod_last [of "100 * b + 4 * c + e + 1" 400 a] assms(1-6) by linarith
  show "is_leap y \<longleftrightarrow> e = 3 \<and> (c \<noteq> 24 \<or> b = 3)" unfolding is_leap_def y4 y100 y400 by blast
qed

lemma absDate_ok:
  assumes "absDate days = (y, m, d)"
  shows "unix_days y m d = days - unixEpochDays \<and> 1 \<le> m \<and> m \<le> 12 \<and> 1 \<le> d \<and> d \<le> daysIn m y \<and>
    (0 \<le> days \<and> days < 3652059 \<longrightarrow> 1 \<le> y \<and> y \<le> 9999)"
proof -
  define a d4 where "a = days div 146097" and "d4 = days mod 146097"
  define b d3 where "b = d4 div 36524 - d4 div 36524 div 4" and "d3 = d4 - 36524 * b"
  define c d2 where "c = d3 div 1461" and "d2 = d3 - 1461 * c"
  define e yd where "e = d2 div 365 - d2 div 365 div 4" and "yd = d2 - 365 * e"
  have days: "days = 146097 * a + 36524 * b + 1461 * c + 365 * e + yd"
    by (simp add: a_def d4_def d3_def d2_def yd_def)
  have d4: "0 \<le> d4" "d4 < 146097" by (simp_all add: d4_def)
  then have b: "0 \<le> b" "b \<le> 3" "0 \<le> d3" "d3 < (if b = 3 then 36525 else 36524)"
    using quot_cycle [of d4 36524 1, folded b_def, folded d3_def] by (auto split: if_splits)
  have d3: "d3 < 36525" using b(4) by (auto split: if_splits)
  have c: "0 \<le> c" "0 \<le> d2" "d2 < 1461"
    using b(3) by (simp_all add: c_def d2_def pos_imp_zdiv_nonneg_iff minus_mult_div_eq_mod)
  have c24: "c \<le> 24" using d3 c(2) by (simp add: d2_def)
  have e: "0 \<le> e" "e \<le> 3" "0 \<le> yd" "yd < (if e = 3 then 366 else 365)"
    using quot_cycle [of d2 365 1, folded e_def, folded yd_def] c(2,3) by (auto split: if_splits)
  let ?y = "400 * a + 100 * b + 4 * c + e + 1"
  note cyc = cycles_of [OF b(1,2) c(1) c24 e(1,2), of a]
  have "yd < 365" if "e = 3" "c = 24" "b \<noteq> 3"
    using that b(4) d2_def yd_def by simp
  then have "yd < (if is_leap ?y then 366 else 365)"
    using e(4) unfolding cyc(2) by (auto split: if_splits)
  then have ok: "month_ok (is_leap ?y) yd" using e(3) by (rule month_ok [rotated])
  have abs: "absDate days = (case month_day (is_leap ?y) yd of (month, day) \<Rightarrow> (?y, month, day))"
    by (simp only: absDate_def Let_def a_def b_def c_def e_def d4_def d3_def d2_def yd_def)
  then have md: "month_day (is_leap ?y) yd = (m, d)" "y = ?y" using assms by (simp_all split: prod.splits)
  have "1 \<le> y \<and> y \<le> 9999" if "0 \<le> days" "days < 3652059"
  proof -
    have "0 \<le> a" using that(1) by (simp add: a_def pos_imp_zdiv_nonneg_iff)
    moreover have "a \<le> 24" using that(2) d4 by (simp add: a_def)
    moreover have "?y \<noteq> 10000"
    proof
      assume "?y = 10000"
      then have "a = 24" "b = 3" "c = 24" "e = 3" using \<open>a \<le> 24\<close> b(2) c24 e(2) by linarith+
      then show False using that(2) days e(3) by simp
    qed
    ultimately show ?thesis using md(2) b(1,2) c(1) c24 e(1,2) by linarith
  qed
  moreover have "unix_days y m d = days - unixEpochDays"
    using ok md days cyc(1) by (simp add: month_ok_def unix_days_def)
  ultimately show ?thesis
    using ok md by (simp add: month_ok_def daysIn_def split: if_splits)
qed

section \<open>Printed numbers\<close>

lemma digit_zero: "digit_char 0 = CHR ''0''"
  by code_simp

lemma appendInt_2: "0 \<le> x \<Longrightarrow> x < 100 \<Longrightarrow> appendInt x 2 = [digit_char (nat x div 10), digit_char (nat x mod 10)]"
proof (cases "nat x < 10")
  case True
  assume "0 \<le> x" "x < 100"
  then show ?thesis using True by (simp add: appendInt_def dec.simps [of "nat x"] digit_zero)
next
  case False
  assume x: "0 \<le> x" "x < 100"
  then have "nat x div 10 < 10" by auto
  then have "dec (nat x) = [digit_char (nat x div 10), digit_char (nat x mod 10)]"
    using False by (simp add: dec.simps [of "nat x"] dec.simps [of "nat x div 10"])
  then show ?thesis using x by (simp add: appendInt_def Let_def)
qed

lemma digit_int_char [simp]: "d < 10 \<Longrightarrow> digit_int (digit_char d) = int d"
  by (simp add: digit_int_def)

lemma getnum_appendInt [simp]: "0 \<le> x \<Longrightarrow> x < 100 \<Longrightarrow> getnum (appendInt x 2 @ s) fixed = Some (x, s)"
proof -
  assume x: "0 \<le> x" "x < 100"
  then have "nat x div 10 < 10" by auto
  moreover have "10 * int (nat x div 10) + int (nat x mod 10) = x"
    using x of_nat_add [of "10 * (nat x div 10)" "nat x mod 10", where 'a = int] by (simp del: of_nat_add)
  ultimately show ?thesis using x by (simp add: appendInt_2)
qed

lemma time_atoi_digits: "\<forall>c \<in> set s. is_digit c \<Longrightarrow> time_atoi s = Some (int (dec_val s))"
proof -
  assume d: "\<forall>c \<in> set s. is_digit c"
  then have "split_sign s = (False, s)" using digit_not_sign by (cases s) (auto simp: split_sign_def)
  then show ?thesis using d by (simp add: time_atoi_def list_all_iff)
qed

lemma dec_val_zeros: "dec_val (replicate k (CHR ''0'') @ s) = dec_val s"
proof -
  have "dec_val (replicate k (CHR ''0'')) = 0"
    by (induction k) (simp_all add: horner_Cons digit_val_def)
  then show ?thesis by (simp add: horner_append)
qed

lemma appendInt_digits:
  assumes "0 \<le> x"
  shows "\<forall>c \<in> set (appendInt x w). is_digit c" and "dec_val (appendInt x w) = nat x"
  using assms dec_digits [of "nat x"] by (auto simp: appendInt_def Let_def dec_val_zeros is_digit_def [of "CHR ''0''"])

lemma length_appendInt: "0 \<le> x \<Longrightarrow> x < 10 ^ Suc k \<Longrightarrow> length (appendInt x (Suc k)) = Suc k"
  using length_dec_le [of "nat x" k] by (simp add: appendInt_def Let_def nat_less_iff)

lemma time_atoi_appendInt: "0 \<le> x \<Longrightarrow> time_atoi (appendInt x w) = Some x"
  using time_atoi_digits [OF appendInt_digits(1), of x w] by (simp add: appendInt_digits)

lemma parse_year_appendInt: "0 \<le> y \<Longrightarrow> y < 10000 \<Longrightarrow> parse_year (appendInt y 4 @ s) = Some (y, s)"
proof -
  assume y: "0 \<le> y" "y < 10000"
  have len: "length (appendInt y 4) = 4" using length_appendInt [of y 3] y by simp
  then have "hd (appendInt y 4 @ s) \<in> set (appendInt y 4)" by (cases "appendInt y 4") auto
  then have "is_digit (hd (appendInt y 4 @ s))" using appendInt_digits(1) [OF y(1)] by blast
  then show ?thesis using len y time_atoi_appendInt [of y 4] by (simp add: parse_year_def)
qed

section \<open>Printed times\<close>

lemma appendInt_2_obtain:
  assumes "0 \<le> x" "x < 100"
  obtains c d where "appendInt x 2 = [c, d]" "is_digit c" "is_digit d" "time_atoi [c, d] = Some x"
proof -
  have "nat x div 10 < 10" using assms by auto
  then show ?thesis
    using that [OF appendInt_2 [OF assms]] time_atoi_appendInt [OF assms(1), of 2] appendInt_2 [OF assms] by simp
qed

definition zone_ok :: "int \<Rightarrow> bool" where
  "zone_ok offset \<longleftrightarrow> offset mod 60 = 0 \<and> \<bar>offset\<bar> < 360000"

lemma zone_parts:
  assumes "zone_ok offset" "offset \<noteq> 0"
  obtains sg a b where "format_zone offset = sg # appendInt a 2 @ '':'' @ appendInt b 2" "0 \<le> a" "a < 100" "0 \<le> b" "b < 60"
    "sg = CHR ''+'' \<and> offset = (a * 60 + b) * 60 \<or> sg = CHR ''-'' \<and> offset = - ((a * 60 + b) * 60)"
proof -
  define z where "z = \<bar>offset\<bar> div 60"
  have "\<bar>offset\<bar> mod 60 = 0" using assms(1) by (auto simp: zone_ok_def abs_if mod_eq_0_iff_dvd)
  then have abs: "\<bar>offset\<bar> = z * 60" using div_mult_mod_eq [of "\<bar>offset\<bar>" 60] by (simp add: z_def)
  have z: "0 < z" "z < 6000" using assms abs by (auto simp: zone_ok_def)
  have eq: "z div 60 * 60 + z mod 60 = z" by simp
  show ?thesis
  proof (rule that [of "if offset < 0 then CHR ''-'' else CHR ''+''" "z div 60" "z mod 60"])
    show "format_zone offset = (if offset < 0 then CHR ''-'' else CHR ''+'') # appendInt (z div 60) 2 @ '':'' @ appendInt (z mod 60) 2"
      using assms(2) z(1) by (simp add: format_zone_def z_def [symmetric] Let_def)
    show "z div 60 < 100" using z(2) by linarith
    show "(if offset < 0 then CHR ''-'' else CHR ''+'') = CHR ''+'' \<and> offset = (z div 60 * 60 + z mod 60) * 60 \<or>
        (if offset < 0 then CHR ''-'' else CHR ''+'') = CHR ''-'' \<and> offset = - ((z div 60 * 60 + z mod 60) * 60)"
      unfolding eq using abs by (auto simp: abs_if split: if_splits)
  qed (use z in \<open>simp_all add: pos_imp_zdiv_nonneg_iff\<close>)
qed

lemma parse_zone:
  assumes "zone_ok offset"
  shows "parse_tz NumTZ (format_zone offset) = None" "parse_tz NoTZ (format_zone offset) = Some (0, format_zone offset)"
    "parse_tz ISO8601ColonTZ (format_zone offset) = Some (offset, [])"
    "parse_frac (format_zone offset) = Some (0, format_zone offset)" "format_zone offset \<noteq> []"
proof -
  have "parse_tz NumTZ (format_zone offset) = None \<and> parse_tz ISO8601ColonTZ (format_zone offset) = Some (offset, []) \<and>
      parse_frac (format_zone offset) = Some (0, format_zone offset) \<and> format_zone offset \<noteq> []"
  proof (cases "offset = 0")
    case True
    then show ?thesis by (simp add: format_zone_def parse_frac_def)
  next
    case False
    obtain sg a b where z: "format_zone offset = sg # appendInt a 2 @ '':'' @ appendInt b 2" "0 \<le> a" "a < 100" "0 \<le> b" "b < 60"
      "sg = CHR ''+'' \<and> offset = (a * 60 + b) * 60 \<or> sg = CHR ''-'' \<and> offset = - ((a * 60 + b) * 60)"
      by (rule zone_parts [OF assms False])
    obtain c d where a: "appendInt a 2 = [c, d]" "time_atoi [c, d] = Some a"
      by (rule appendInt_2_obtain [OF z(2,3)])
    obtain e f where b: "appendInt b 2 = [e, f]" "time_atoi [e, f] = Some b"
      by (rule appendInt_2_obtain [of b]) (use z(4,5) in auto)
    have colon: "time_atoi [CHR '':'', e] = None"
      by (simp add: time_atoi_def split_sign_def is_digit_def)
    have fz: "format_zone offset = [sg, c, d, CHR '':'', e, f]" by (simp add: z(1) a(1) b(1))
    have "zone_offset sg [c, d] [CHR '':'', e] = None" using a(2) colon by (simp add: zone_offset_def)
    moreover have "zone_offset sg [c, d] [e, f] = Some offset" "sg \<noteq> CHR ''Z''" "sg \<noteq> CHR ''.''"
      using z(6) a(2) b(2) by (auto simp: zone_offset_def)
    ultimately show ?thesis by (simp add: fz parse_frac_def)
  qed
  then show "parse_tz NumTZ (format_zone offset) = None" "parse_tz NoTZ (format_zone offset) = Some (0, format_zone offset)"
    "parse_tz ISO8601ColonTZ (format_zone offset) = Some (offset, [])"
    "parse_frac (format_zone offset) = Some (0, format_zone offset)" "format_zone offset \<noteq> []"
    by (blast, simp, blast+)
qed

lemma daysIn_le: "1 \<le> m \<Longrightarrow> m \<le> 12 \<Longrightarrow> daysIn m y \<le> 31"
proof -
  assume "1 \<le> m" "m \<le> 12"
  then have "m = 1 \<or> m = 2 \<or> m = 3 \<or> m = 4 \<or> m = 5 \<or> m = 6 \<or> m = 7 \<or> m = 8 \<or> m = 9 \<or> m = 10 \<or> m = 11 \<or> m = 12"
    by presburger
  then show ?thesis by (elim disjE) (simp_all add: daysIn_def)
qed

lemma clock_sum: "(s :: int) div 3600 * 3600 + s mod 3600 div 60 * 60 + s mod 60 = s"
proof -
  have "s mod 60 = s mod 3600 mod 60" by (simp add: mod_mod_cancel)
  moreover have "s mod 3600 div 60 * 60 + s mod 3600 mod 60 = s mod 3600" by (rule div_mult_mod_eq)
  moreover have "s div 3600 * 3600 + s mod 3600 = s" by (rule div_mult_mod_eq)
  ultimately show ?thesis by linarith
qed

lemma time_Parse_printed:
  assumes "1 \<le> y" "y \<le> 9999" "1 \<le> m" "m \<le> 12" "1 \<le> d" "d \<le> daysIn m y"
    and "0 \<le> hh" "hh < 24" "0 \<le> mi" "mi < 60" "0 \<le> se" "se < 60" "parse_frac z = Some (0, z)"
  shows "time_Parse tz (appendInt y 4 @ ''-'' @ appendInt m 2 @ ''-'' @ appendInt d 2 @ ''T'' @ appendInt hh 2 @ '':'' @
      appendInt mi 2 @ '':'' @ appendInt se 2 @ z) =
    (case parse_tz tz z of
       None \<Rightarrow> None
     | Some (o2, rest) \<Rightarrow> if rest \<noteq> [] then None else Some (time_Date y m d hh mi se 0 - o2 * Second))"
proof -
  have "d < 100" using assms(6) daysIn_le [OF assms(3,4), of y] by linarith
  then show ?thesis
    using assms
    by (simp add: time_Parse_def parse_year_appendInt skip_char_def in_bounds_def split: option.split)
qed

lemma time_Parse_Format:
  assumes "zone_ok offset" "0 \<le> tUnix t + offset + unixEpochDays * 86400"
    and "tUnix t + offset + unixEpochDays * 86400 < 3652059 * 86400"
  shows "time_Parse tz (Format_RFC3339 offset t) =
    (case parse_tz tz (format_zone offset) of
       None \<Rightarrow> None
     | Some (o2, rest) \<Rightarrow> if rest \<noteq> [] then None else Some (time_Unix (tUnix t + offset - o2)))"
proof -
  define n where "n = tUnix t + offset + unixEpochDays * 86400"
  define days s where "days = n div 86400" and "s = n mod 86400"
  obtain y m d where date: "absDate days = (y, m, d)" by (metis prod_cases3)
  have "0 \<le> days" "days < 3652059" using assms(2,3) unfolding days_def n_def by linarith+
  then have ok: "unix_days y m d = days - unixEpochDays" "1 \<le> m" "m \<le> 12" "1 \<le> d" "d \<le> daysIn m y" "1 \<le> y" "y \<le> 9999"
    using absDate_ok [OF date] by blast+
  have s: "0 \<le> s" "s < 86400" by (simp_all add: s_def)
  let ?hh = "s div 3600" and ?mi = "s mod 3600 div 60" and ?se = "s mod 60"
  have hms: "0 \<le> ?hh" "?hh < 24" "0 \<le> ?mi" "?mi < 60" "0 \<le> ?se" "?se < 60" using s by linarith+
  have "days * 86400 + s = n" by (simp add: days_def s_def)
  then have "unix_days y m d * 86400 + ?hh * 3600 + ?mi * 60 + ?se = tUnix t + offset"
    using clock_sum [of s] ok(1) n_def by (simp add: left_diff_distrib)
  then have val: "time_Date y m d ?hh ?mi ?se 0 - o2 * Second = time_Unix (tUnix t + offset - o2)" for o2
    by (simp add: time_Date_def time_Unix_def left_diff_distrib)
  have "Format_RFC3339 offset t = appendInt y 4 @ ''-'' @ appendInt m 2 @ ''-'' @ appendInt d 2 @ ''T'' @ appendInt ?hh 2 @ '':'' @
      appendInt ?mi 2 @ '':'' @ appendInt ?se 2 @ format_zone offset"
    unfolding Format_RFC3339_def Let_def n_def [symmetric] days_def [symmetric] s_def [symmetric] date by simp
  then show ?thesis
    unfolding time_Parse_printed [OF ok(6,7,2-5) hms parse_zone(4) [OF assms(1)], symmetric] val [symmetric] by simp
qed

lemma ParseInt_Format: "\<exists>e. ParseInt (Format_RFC3339 offset t) = Inl e"
proof -
  obtain y m d where date: "absDate ((tUnix t + offset + unixEpochDays * 86400) div 86400) = (y, m, d)" by (metis prod_cases3)
  let ?f = "Format_RFC3339 offset t"
  have colon: "CHR '':'' \<in> set ?f" unfolding Format_RFC3339_def Let_def date by simp
  have "CHR '':'' \<in> set (snd (split_sign ?f))"
    using colon by (cases ?f) (auto simp: split_sign_def)
  then have "\<not> list_all is_digit (snd (split_sign ?f))" by (auto simp: list_all_iff is_digit_def intro!: bexI [of _ "CHR '':''"])
  then show ?thesis by (auto simp: ParseInt_def split_beta Let_def)
qed

text \<open>
  A time that \<open>Format\<close> prints is read back as the same second, whatever the zone: for an offset in whole minutes
  of less than 100 hours and a local date in the years 1 to 9999.
\<close>

lemma StrToTime_Format:
  assumes "zone_ok offset" "0 \<le> tUnix t + offset + unixEpochDays * 86400"
    and "tUnix t + offset + unixEpochDays * 86400 < 3652059 * 86400"
  shows "StrToTime (Format_RFC3339 offset t) = Inr (time_Unix (tUnix t))"
proof -
  obtain e where "ParseInt (Format_RFC3339 offset t) = Inl e" using ParseInt_Format by blast
  moreover have "time_Parse NumTZ (Format_RFC3339 offset t) = None"
    "time_Parse NoTZ (Format_RFC3339 offset t) = None"
    "time_Parse ISO8601ColonTZ (Format_RFC3339 offset t) = Some (time_Unix (tUnix t))"
    unfolding time_Parse_Format [OF assms] parse_zone [OF assms(1)] using parse_zone(5) [OF assms(1)] by simp_all
  ultimately show ?thesis by (simp add: StrToTime_def)
qed

end
