(* ===== verification/HttpProps.thy ===== *)
theory HttpProps
  imports HttpServer GoTimeFacts QueryProps SampleNode
begin

text \<open>
  The properties of the HTTP server: an answer is the page of the repository, a printed time selects its
  entries when it is given back, an account without bytes is answered twice, and the running server keeps the
  connection it was started with.
\<close>

definition level_server :: "ext \<Rightarrow> ('db, 'it) leveldb \<Rightarrow> ('db, 'w) Server \<Rightarrow> bool" where
  "level_server x api server \<longleftrightarrow>
     idxExt (srvIndexer server) = x \<and> srvIndexRepo server = levelRepo x api \<and> srvBatchRepo server = levelBatchRepo x api"

text \<open>What the API shows of an entry.\<close>

definition shown :: "(int \<Rightarrow> int) \<Rightarrow> AddressIndex \<Rightarrow> EIAddress" where
  "shown zone i =
     \<lparr>eiAddress = Address i, eiTxHash = aiTxHash i, eiValue = aiValue i,
      eiTime = Format_RFC3339 (zone (the (aiTime i))) (time_Unix (the (aiTime i))), eiCoupleAddress = CoupleAddress i,
      eiData = None, eiGas = 0, eiGasPrice = None\<rparr>"

lemma AddressToEIAddress_shown:
  assumes "aiTime i = Some t" "0 \<le> t" "t < 2 ^ 63"
  shows "AddressToEIAddress zone i = Ret (shown zone i)"
  using assms by (simp add: AddressToEIAddress_def UnmarshallIntToTime_ok shown_def)

lemma ei_addresses_shown:
  assumes "\<forall>i \<in> set l. \<exists>t. aiTime i = Some t \<and> 0 \<le> t \<and> t < 2 ^ 63"
  shows "ei_addresses clients zone server False False False l s = (Ret (map (shown zone) l), s)"
  using assms
proof (induction l)
  case (Cons i l)
  then obtain t where "aiTime i = Some t" "0 \<le> t" "t < 2 ^ 63" by auto
  then show ?case
    using Cons by (simp add: bnd_apply add_fields_def AddressToEIAddress_shown)
qed simp

text \<open>The times of entries that come out of a well-formed address database.\<close>

lemma to_index_time:
  assumes "address_map_ok m" "finite (dom m)" "kv \<in> set (kvs m)"
  shows "\<exists>t. aiTime (to_index x kv) = Some t \<and> 0 \<le> t \<and> t < 2 ^ 63"
proof -
  obtain K where "key_ok K" "kvKey kv = enc_key K"
    by (rule kvs_keys [OF assms])
  then show ?thesis by (auto simp: to_index_def time_ok_def key_ok_def)
qed

lemma to_index_page_time:
  assumes "address_map_ok m" "finite (dom m)" "set l \<subseteq> set (kvs m)"
  shows "\<forall>i \<in> set (map (to_index x) l). \<exists>t. aiTime i = Some t \<and> 0 \<le> t \<and> t < 2 ^ 63"
  using to_index_time [OF assms(1,2)] assms(3) by auto

section \<open>Pages\<close>

text \<open>The bound that a query parameter gives; the empty string is no bound.\<close>

definition bound_of :: "string \<Rightarrow> string + gotime" where
  "bound_of q = (if q = [] then Inr zeroTime else StrToTime q)"

lemma getAccountParam_ok:
  assumes "hexDecode x (reqParam c ''accountNumber'') = (a, None)" "a \<noteq> []"
    and "bound_of (reqQuery c ''from'') = Inr f" "bound_of (reqQuery c ''to'') = Inr t"
  shows "getAccountParam x c = ([], reqParam c ''accountNumber'', f, t, None)"
proof -
  have "(if length (reqQuery c ''from'') > 0 then StrToTime (reqQuery c ''from'') else Inr zeroTime) = Inr f"
    "(if length (reqQuery c ''to'') > 0 then StrToTime (reqQuery c ''to'') else Inr zeroTime) = Inr t"
    using assms(3,4) by (auto simp: bound_of_def split: if_splits)
  then show ?thesis using assms(1,2) by (simp add: getAccountParam_def Let_def)
qed

text \<open>The page of an answer: newest entries first without bounds, oldest first with a bound.\<close>

definition answer_page :: "gotime \<Rightarrow> gotime \<Rightarrow> int \<Rightarrow> int \<Rightarrow> KeyValue list \<Rightarrow> KeyValue list" where
  "answer_page f t rows start es =
     take (nat rows) (drop (nat start) (take 10001 (if tIsZero f \<and> tIsZero t then rev es else es)))"

definition plain_request :: "Request \<Rightarrow> bool" where
  "plain_request c \<longleftrightarrow> {''data'', ''gas'', ''gasPrice''} \<inter> set (strings_Split (reqQuery c ''fl'') CHR '','') = {}"

lemma GetTransactionByAddress_page:
  assumes "leveldb_laws x api store" "address_map_ok (store (addressDB s))" "addr_ok x a" "times_ok f t"
  defines "es \<equiv> entries x (store (addressDB s)) a (in_times f t)"
  shows "GetTransactionByAddress x (levelRepo x api) a rows start f t s =
    Ret (int (min 10001 (length es)), map (to_index x) (answer_page f t rows start es))"
proof (cases "tIsZero f \<and> tIsZero t")
  case True
  then have "in_times f t = (\<lambda>_. True)" by (simp add: in_times_def fun_eq_iff)
  then show ?thesis
    using index_repo.GetTransactionByAddress_all [OF leveldb_laws.level_repo [OF assms(1)] assms(2,3)] True
    by (simp add: find_spec_def NumMaxTransaction_def es_def answer_page_def Let_def min.commute)
next
  case False
  then have no: "(tIsZero f \<and> tIsZero t) = False" and b: "\<not> tIsZero f \<or> \<not> tIsZero t" by simp_all
  show ?thesis
    using index_repo.GetTransactionByAddress_time [OF leveldb_laws.level_repo [OF assms(1)] assms(2-4) b]
    unfolding answer_page_def no if_False
    by (simp add: find_spec_def NumMaxTransaction_def es_def Let_def min.commute)
qed

lemma set_answer_page: "set (answer_page f t rows start es) \<subseteq> set es"
  unfolding answer_page_def by (auto dest!: in_set_takeD in_set_dropD split: if_splits)

lemma total_string_min:
  "total_string (int (min 10001 n)) = (if n > 10000 then ''+10000'' else Itoa (int n))"
proof (cases "n > 10000")
  case True
  then have "int (min 10001 n) = 10001" by linarith
  moreover have "total_string 10001 = ''+10000''"
  proof -
    have "digit_char 1 = CHR ''1''" by code_simp
    then have "dec 10000 = ''10000''" by (simp add: dec_last_digit dec_one_digit digit_zero)
    then show ?thesis by (simp add: total_string_def NumMaxTransaction_def Itoa_def big_String_nonneg)
  qed
  ultimately show ?thesis using True by simp
next
  case False
  then have "min 10001 n = n" by linarith
  then show ?thesis using False by (simp add: total_string_def NumMaxTransaction_def)
qed

lemma account_answer:
  assumes "leveldb_laws x api store" "level_server x api server" "address_map_ok (store (addressDB s))"
    and acc: "hexDecode x (reqParam c ''accountNumber'') = (a, None)" "length a = 20"
    and times: "bound_of (reqQuery c ''from'') = Inr f" "bound_of (reqQuery c ''to'') = Inr t" "times_ok f t"
    and "plain_request c" "getPagingQueryParams c = (rows, start)"
  defines "es \<equiv> entries x (store (addressDB s)) (reqParam c ''accountNumber'') (in_times f t)"
  shows "getTransactionsByAccount clients zone server c s =
    (Ret [(200, Transactions \<lparr>etTotal = (if length es > 10000 then ''+10000'' else Itoa (int (length es))), etStart = start,
                 etIndexes = map (\<lambda>kv. shown zone (to_index x kv)) (answer_page f t rows start es)\<rparr>)], s)"
proof -
  have ok: "addr_ok x (reqParam c ''accountNumber'')" using acc by (simp add: addr_ok_def addr_bytes_def)
  have fin: "finite (dom (store (addressDB s)))"
    by (rule kv_dao.dao_finite [OF leveldb_laws.level_dao [OF assms(1)]])
  have q: "GetTransactionByAddress x (levelRepo x api) (reqParam c ''accountNumber'') rows start f t s =
      Ret (int (min 10001 (length es)), map (to_index x) (answer_page f t rows start es))"
    unfolding es_def by (rule GetTransactionByAddress_page [OF assms(1,3) ok times(3)])
  have "set (answer_page f t rows start es) \<subseteq> set (kvs (store (addressDB s)))"
    using set_answer_page [of f t rows start es] by (auto simp: es_def entries_def)
  then have shown: "ei_addresses clients zone server False False False (map (to_index x) (answer_page f t rows start es)) s =
      (Ret (map (shown zone) (map (to_index x) (answer_page f t rows start es))), s)"
    by (intro ei_addresses_shown to_index_page_time [OF assms(3) fin])
  have "total_string (int (min 10001 (length es))) = (if length es > 10000 then ''+10000'' else Itoa (int (length es)))"
    by (rule total_string_min)
  moreover have "a \<noteq> []" using acc(2) by auto
  moreover have "idxExt (srvIndexer server) = x" "srvIndexRepo server = levelRepo x api"
    using assms(2) by (simp_all add: level_server_def)
  moreover have "\<not> Contains (strings_Split (reqQuery c ''fl'') CHR '','') ''data''"
    "\<not> Contains (strings_Split (reqQuery c ''fl'') CHR '','') ''gas''"
    "\<not> Contains (strings_Split (reqQuery c ''fl'') CHR '','') ''gasPrice''"
    using assms(9) by (auto simp: plain_request_def)
  ultimately show ?thesis
    using getAccountParam_ok [OF acc(1) _ times(1,2)] q shown assms(10)
    by (simp add: getTransactionsByAccount_def bnd_apply query_def Let_def comp_def)
qed

section \<open>Properties\<close>

text \<open>
  C27. What the account query of the API answers, as a function of the address database: for an account of 20
  bytes, valid bounds and no additional fields, exactly one response with status 200; it lists the page of the
  account's entries inside the bounds that \<open>rows\<close> and \<open>start\<close> (10 and 0 unless they are numbers) ask for, the
  newest first without a bound and the oldest first with one, reports their number up to 10000 and \<open>+10000\<close>
  above, and changes nothing.
\<close>

theorem account_page:
  assumes "leveldb_laws x api store" "level_server x api server" "address_map_ok (store (addressDB s))"
    and "hexDecode x (reqParam c ''accountNumber'') = (a, None)" "length a = 20"
    and "bound_of (reqQuery c ''from'') = Inr f" "bound_of (reqQuery c ''to'') = Inr t" "times_ok f t" "plain_request c"
    and "rows = (case Atoi (reqQuery c ''rows'') of Inl _ \<Rightarrow> 10 | Inr n \<Rightarrow> n)"
      "start = (case Atoi (reqQuery c ''start'') of Inl _ \<Rightarrow> 0 | Inr n \<Rightarrow> n)"
    and "es = entries x (store (addressDB s)) (reqParam c ''accountNumber'') (in_times f t)"
  shows "getTransactionsByAccount clients zone server c s =
    (Ret [(200, Transactions \<lparr>etTotal = (if length es > 10000 then ''+10000'' else Itoa (int (length es))), etStart = start,
       etIndexes = map (\<lambda>kv. shown zone (to_index x kv))
         (take (nat rows) (drop (nat start) (take 10001 (if tIsZero f \<and> tIsZero t then rev es else es))))\<rparr>)], s)"
proof -
  have "getPagingQueryParams c = (rows, start)"
    by (simp add: getPagingQueryParams_def assms(10,11) DefaultRows_def split: sum.split)
  from account_answer [OF assms(1-9) this, of clients zone] show ?thesis
    unfolding assms(12) answer_page_def .
qed

definition sRequest :: "(string \<times> string) list \<Rightarrow> Request" where
  "sRequest q = \<lparr>reqParam = (\<lambda>p. if p = ''accountNumber'' then sAddr 1 else []),
     reqQuery = (\<lambda>k. case map_of q k of None \<Rightarrow> [] | Some v \<Rightarrow> v)\<rparr>"

definition sServer :: "(refdb, unit) Server" where
  "sServer = \<lparr>srvIndexRepo = levelRepo refExt refLevel, srvBatchRepo = levelBatchRepo refExt refLevel,
     srvIndexer = sIndexer, srvFetcher = None\<rparr>"

lemma sServer_level [simp]: "level_server refExt refLevel sServer"
  by (simp add: level_server_def sServer_def sIndexer_def)

lemma sAddr_decode: "hexDecode refExt (sAddr b) = (replicate 20 b, None)"
  by (simp add: sAddr_def external.decode_encode [OF ref_ext.external_axioms])

lemma sSys_address_ok [simp]: "address_map_ok (RBT.lookup (addressDB sSys))"
  by (simp add: address_map_ok_def)

theorem account_page_witness:
  "getTransactionsByAccount (\<lambda>_. sClient) (\<lambda>_. 3600) sServer (sRequest [(''rows'', ''5''), (''from'', ''1500000000'')]) sSys =
   (Ret [(200, Transactions \<lparr>etTotal = ''0'', etStart = 0, etIndexes = []\<rparr>)], sSys)"
proof -
  let ?c = "sRequest [(''rows'', ''5''), (''from'', ''1500000000'')]"
  have p: "bound_of (reqQuery ?c ''from'') = Inr (time_Unix 1500000000)"
  proof -
    have "ParseInt ''1500000000'' = Inr 1500000000"
      by (simp add: ParseInt_def split_sign_def is_digit_def horner_def digit_val_def)
    then show ?thesis by (simp add: sRequest_def bound_of_def StrToTime_def)
  qed
  have q: "hexDecode refExt (reqParam ?c ''accountNumber'') = (replicate 20 1, None)" "bound_of (reqQuery ?c ''to'') = Inr zeroTime"
    by (simp_all add: sRequest_def sAddr_decode bound_of_def)
  have t: "times_ok (time_Unix 1500000000) zeroTime" by (simp add: times_ok_def tIsZero_def)
  have pl: "plain_request ?c" by (simp add: plain_request_def sRequest_def)
  have st: "(case Atoi (reqQuery ?c ''start'') of Inl _ \<Rightarrow> 0 | Inr n \<Rightarrow> n) = 0"
    by (simp add: sRequest_def Atoi_def ParseInt_def split_sign_def)
  have es: "entries refExt (\<lambda>k. None) a P = []" for a P
    by (simp add: entries_def kvs_def)
  have lk: "RBT.lookup (addressDB sSys) = (\<lambda>k. None)" by (simp add: fun_eq_iff)
  have "Itoa 0 = ''0''" by code_simp
  then show ?thesis
    using account_page [OF ref_level_laws sServer_level sSys_address_ok q(1) _ p q(2) t pl refl refl refl] st
    unfolding lk es by simp
qed

text \<open>
  C28. A time that an answer shows selects the entries of that time when it is given back as both bounds,
  whatever the zone of the machine that printed it (a whole number of minutes from UTC).
\<close>

theorem printed_time_selects:
  assumes "leveldb_laws x api store" "level_server x api server" "address_map_ok (store (addressDB s))"
    and "hexDecode x (reqParam c ''accountNumber'') = (a, None)" "length a = 20" "plain_request c"
    and "getPagingQueryParams c = (rows, start)"
    and "zone_ok offset" "\<bar>offset\<bar> \<le> 50400" "time_ok u" "time_ok (u + 1)"
    and "reqQuery c ''from'' = Format_RFC3339 offset (time_Unix u)" "reqQuery c ''to'' = Format_RFC3339 offset (time_Unix u)"
    and "es = entries x (store (addressDB s)) (reqParam c ''accountNumber'') (\<lambda>v. v = u)"
  shows "getTransactionsByAccount clients zone server c s =
    (Ret [(200, Transactions \<lparr>etTotal = (if length es > 10000 then ''+10000'' else Itoa (int (length es))), etStart = start,
       etIndexes = map (\<lambda>kv. shown zone (to_index x kv)) (take (nat rows) (drop (nat start) (take 10001 es)))\<rparr>)], s)"
proof -
  let ?t = "time_Unix u"
  have u: "16777216 \<le> u" "u < 4294967296" using assms(10) by (simp_all add: time_ok_def)
  have o: "- 50400 \<le> offset" "offset \<le> 50400" using assms(9) by linarith+
  have "0 \<le> tUnix ?t + offset + unixEpochDays * 86400" "tUnix ?t + offset + unixEpochDays * 86400 < 3652059 * 86400"
    using u o by (simp_all add: unixEpochDays_def)
  from StrToTime_Format [OF assms(8) this] have parse: "StrToTime (Format_RFC3339 offset ?t) = Inr ?t" by simp
  have ne: "Format_RFC3339 offset ?t \<noteq> []"
  proof
    assume "Format_RFC3339 offset ?t = []"
    then have "StrToTime [] = Inr ?t" using parse by simp
    moreover have "StrToTime [] = Inl ''cannot parse''" by code_simp
    ultimately show False by simp
  qed
  have nz: "\<not> tIsZero ?t" using u by (simp add: tIsZero_def zeroTime_def time_Unix_def Second_def)
  have bounds: "bound_of (reqQuery c ''from'') = Inr ?t" "bound_of (reqQuery c ''to'') = Inr ?t"
    using assms(12,13) parse ne by (simp_all add: bound_of_def)
  have times: "times_ok ?t ?t" using assms(10,11) by (simp add: times_ok_def)
  have "in_times ?t ?t = (\<lambda>v. v = u)" using nz by (auto simp: in_times_def fun_eq_iff)
  then show ?thesis
    using account_answer [OF assms(1-5) bounds times assms(6,7), of clients zone] nz
    by (simp only: assms(14) answer_page_def simp_thms if_False)
qed

text \<open>On the sample node: the printed form of a time, with no entries of that time.\<close>

definition sPrinted :: Request where
  "sPrinted = sRequest [(''from'', Format_RFC3339 3600 (time_Unix 1500000000)), (''to'', Format_RFC3339 3600 (time_Unix 1500000000))]"

theorem printed_time_selects_witness:
  "getTransactionsByAccount (\<lambda>_. sClient) (\<lambda>_. 3600) sServer sPrinted sSys =
   (Ret [(200, Transactions \<lparr>etTotal = ''0'', etStart = 0, etIndexes = []\<rparr>)], sSys)"
proof -
  have q: "hexDecode refExt (reqParam sPrinted ''accountNumber'') = (replicate 20 1, None)" "length (replicate 20 (1 :: byte)) = 20"
    by (simp_all add: sPrinted_def sRequest_def sAddr_decode)
  have pl: "plain_request sPrinted" by (simp add: plain_request_def sPrinted_def sRequest_def)
  have pg: "getPagingQueryParams sPrinted = (10, 0)"
    by (simp add: getPagingQueryParams_def sPrinted_def sRequest_def Atoi_def ParseInt_def split_sign_def DefaultRows_def)
  have z: "zone_ok 3600" by (simp add: zone_ok_def)
  have tm: "time_ok 1500000000" "time_ok (1500000000 + 1)" by (simp_all add: time_ok_def)
  have fr: "reqQuery sPrinted ''from'' = Format_RFC3339 3600 (time_Unix 1500000000)"
    "reqQuery sPrinted ''to'' = Format_RFC3339 3600 (time_Unix 1500000000)"
    by (simp_all add: sPrinted_def sRequest_def)
  have es: "entries refExt (\<lambda>k. None) a P = []" for a P
    by (simp add: entries_def kvs_def)
  have lk: "RBT.lookup (addressDB sSys) = (\<lambda>k. None)" by (simp add: fun_eq_iff)
  have "Itoa 0 = ''0''" by code_simp
  then show ?thesis
    using printed_time_selects [OF ref_level_laws sServer_level sSys_address_ok q pl pg z _ tm fr refl]
    unfolding lk es by simp
qed

section \<open>Errors\<close>

text \<open>
  An account that decodes to no bytes, such as \<open>0x\<close>, is refused and answered: \<open>getAccountParam\<close> writes
  the status 400 and returns the error of the decoding, which is nil, so that the handler goes on and writes a
  second response, with status 200 and the total 0.
\<close>

lemma empty_account_answered_twice:
  assumes "hexDecode (idxExt (srvIndexer server)) (reqParam c ''accountNumber'') = ([], None)"
  shows "getTotalByAccount server c s =
    (Ret [(400, Msg (''invalid account '' @ reqParam c ''accountNumber'')), (200, Total \<lparr>ettTotal = 0\<rparr>)], s)"
  using assms
  by (simp add: getTotalByAccount_def getAccountParam_def GetTotalTransaction_def MarshallAddressKeyPrefix_def
      tIsZero_def query_def bnd_apply Let_def)

section \<open>The connection of the server\<close>

definition always_dials :: "'w EthClient \<Rightarrow> bool" where
  "always_dials cl \<longleftrightarrow> (\<forall>path w. fst (ethDial cl path w) = None)"

lemma NewChainFetch_dials:
  assumes "always_dials cl"
  obtains w where "NewChainFetch cl e = (Ret None, e\<lparr>world := w\<rparr>)"
proof -
  have "fst (ethDial cl (curIPC (ipcManager e)) (world e)) = None" using assms by (simp add: always_dials_def)
  then obtain w where "ethDial cl (curIPC (ipcManager e)) (world e) = (None, w)" by (metis prod.collapse)
  then show ?thesis by (intro that [of w]) (simp add: NewChainFetch_def GetIPC_def on_world_def bnd_apply)
qed

text \<open>
  The server at \<open>a\<close> is subscribed and has the current connection; the one at \<open>b\<close>, which answers the requests,
  has the connection to \<open>path\<close>.
\<close>

definition servers_at :: "('db, 'w) Indexer \<Rightarrow> nat \<Rightarrow> nat \<Rightarrow> string list \<Rightarrow> string \<Rightarrow> nat \<Rightarrow> ('db, 'w) Http \<Rightarrow> bool" where
  "servers_at idx a b ipcs path n h \<longleftrightarrow>
     dom (heap h) = {a, b} \<and> map_option srvIndexer (heap h a) = Some idx \<and>
     map_option srvFetcher (heap h a) = Some (Some (GetIPC (ipcManager (httpEnv h)))) \<and>
     map_option srvFetcher (heap h b) = Some (Some path) \<and>
     a \<in> set (subscribers (ipcManager (httpEnv h))) \<and> b \<notin> set (subscribers (ipcManager (httpEnv h))) \<and>
     ipcList (ipcManager (httpEnv h)) = ipcs \<and> GetIPC (ipcManager (httpEnv h)) = ipcs ! (n mod length ipcs)"

lemma notify_all_servers:
  assumes "always_dials (idxClient idx)" "a \<noteq> b" "b \<notin> set subs"
    and "dom (heap h) = {a, b}" "map_option srvIndexer (heap h a) = Some idx"
  shows "\<exists>h'. notify_all (map (\<lambda>sub. (sub, p)) subs) h = (Ret (), h') \<and>
    ipcManager (httpEnv h') = ipcManager (httpEnv h) \<and> dom (heap h') = {a, b} \<and>
    map_option srvIndexer (heap h' a) = Some idx \<and> heap h' b = heap h b \<and>
    map_option srvFetcher (heap h' a) =
      (if a \<in> set subs then Some (Some (GetIPC (ipcManager (httpEnv h)))) else map_option srvFetcher (heap h a))"
  using assms(3-5)
proof (induction subs arbitrary: h)
  case (Cons sub subs)
  show ?case
  proof (cases "sub = a")
    case False
    then have "heap h sub = None" using Cons.prems(1,2) by (auto simp: domIff set_eq_iff)
    then show ?thesis using False Cons.IH [of h] Cons.prems by (auto split: if_splits)
  next
    case True
    from Cons.prems(3) obtain server where server: "heap h a = Some server" "srvIndexer server = idx" by auto
    obtain w where w: "NewChainFetch (idxClient idx) (httpEnv h) = (Ret None, (httpEnv h)\<lparr>world := w\<rparr>)"
      by (rule NewChainFetch_dials [OF assms(1)])
    let ?h = "h\<lparr>httpEnv := (httpEnv h)\<lparr>world := w\<rparr>,
        heap := (heap h)(a \<mapsto> server\<lparr>srvFetcher := Some (GetIPC (ipcManager (httpEnv h)))\<rparr>)\<rparr>"
    have upd: "ServerIpcUpdated a p h = (Ret (), ?h)"
      using server w by (simp add: ServerIpcUpdated_def)
    have "dom (heap ?h) = {a, b}" "map_option srvIndexer (heap ?h a) = Some idx" "b \<notin> set subs"
      using Cons.prems server by auto
    from Cons.IH [OF this(3,1,2)] obtain h' where h': "notify_all (map (\<lambda>sub. (sub, p)) subs) ?h = (Ret (), h')"
      "ipcManager (httpEnv h') = ipcManager (httpEnv h)" "dom (heap h') = {a, b}"
      "map_option srvIndexer (heap h' a) = Some idx" "heap h' b = heap h b"
      "map_option srvFetcher (heap h' a) = Some (Some (GetIPC (ipcManager (httpEnv h))))"
      using assms(2) by (auto split: if_splits)
    have "notify_all (map (\<lambda>sub. (sub, p)) (sub # subs)) h = (Ret (), h')"
      using True server h'(1) by (simp add: bnd_apply upd)
    then show ?thesis using True h'(2-6) by (intro exI [of _ h']) simp
  qed
qed simp

lemma switch_ipc_servers:
  assumes "always_dials (idxClient idx)" "a \<noteq> b" "ipcs \<noteq> []" "distinct ipcs" "servers_at idx a b ipcs path n h"
  shows "\<exists>h'. switch_ipc h = (Ret (), h') \<and> servers_at idx a b ipcs path (Suc n) h'"
proof (cases "length ipcs \<le> 1")
  case True
  then have one: "Suc n mod length ipcs = n mod length ipcs" using assms(3) by (cases ipcs) auto
  show ?thesis
    using True assms(5) one
    by (auto simp: switch_ipc_def ChangeIPC_def EnableSwitchIPC_def servers_at_def GetIPC_def Let_def)
next
  case False
  let ?im = "ipcManager (httpEnv h)" and ?p = "ipcs ! (Suc n mod length ipcs)"
  let ?im1 = "?im\<lparr>switchIPCCounter := 1, curIPC := ?p\<rparr>"
  have cur: "curIPC ?im = ipcs ! (n mod length ipcs)" "ipcList ?im = ipcs"
    using assms(5) by (simp_all add: servers_at_def GetIPC_def)
  have "n mod length ipcs < length ipcs" using assms(3) by simp
  from NextIPC_nth [OF assms(4) this] have "NextIPC (curIPC ?im) ipcs = Ret ?p"
    by (simp add: cur mod_Suc_eq)
  then have ch: "ChangeIPC (EnableSwitchIPC ?im) = Ret (map (\<lambda>sub. (sub, ?p)) (subscribers ?im), ?im1)"
    using False cur(2) by (simp add: ChangeIPC_def EnableSwitchIPC_def Let_def)
  let ?h = "h\<lparr>httpEnv := (httpEnv h)\<lparr>ipcManager := ?im1\<rparr>\<rparr>"
  have pre: "b \<notin> set (subscribers ?im)" "dom (heap ?h) = {a, b}" "map_option srvIndexer (heap ?h a) = Some idx"
    using assms(5) by (simp_all add: servers_at_def)
  from notify_all_servers [OF assms(1,2) pre, of ?p] obtain h' where
    "notify_all (map (\<lambda>sub. (sub, ?p)) (subscribers ?im)) ?h = (Ret (), h')"
    "ipcManager (httpEnv h') = ?im1" "dom (heap h') = {a, b}" "map_option srvIndexer (heap h' a) = Some idx"
    "heap h' b = heap h b" "map_option srvFetcher (heap h' a) = Some (Some ?p)"
    using assms(5) by (auto simp: servers_at_def GetIPC_def)
  then show ?thesis
    using ch assms(5) by (auto simp: switch_ipc_def servers_at_def GetIPC_def)
qed

lemma switch_times_servers:
  assumes "always_dials (idxClient idx)" "a \<noteq> b" "ipcs \<noteq> []" "distinct ipcs" "servers_at idx a b ipcs path 0 h"
  shows "\<exists>h'. switch_times n h = (Ret (), h') \<and> servers_at idx a b ipcs path n h'"
proof (induction n)
  case (Suc n)
  then show ?case using switch_ipc_servers [OF assms(1-4)] by (fastforce simp: bnd_apply)
qed (use assms(5) in simp)



end
