(* ===== verification/ChainProps.thy ===== *)
theory ChainProps
  imports ResumeProps HttpProps
begin

text \<open>
  From the chain to the answers: what the address database holds when the initial indexing is over, listed in the
  order of its keys, is the list of the transfers of each account in the order of the chain, and the answers of the
  API are its pages.
\<close>

section \<open>What a run leaves in the address database\<close>

lemma put_all_keys: "dom (put_all l m) \<subseteq> dom m \<union> kvKey ` set l"
  using put_all_other by fastforce

lemma run_step_keys:
  assumes "batch_setting x api store ix bl bs" "run_inv x store bl m0 bs (ws, s)" "run_step ix store K (ws, s) (ws', s')"
  shows "dom (store (addressDB s')) \<subseteq> dom (store (addressDB s)) \<union> all_keys x bl bs"
proof -
  obtain k w where k: "k < length ws" "worker_step ix (ws ! k) s w s'"
    using assms(3) by (auto elim: run_step.cases)
  then have kb: "k < length bs" "worker_inv x store bl m0 (bs ! k) (ws ! k) s"
    using assms(2) by (simp_all add: run_inv_def)
  then have pend: "set (pending (ws ! k)) \<subseteq> todo_blocks bs"
    using worker_inv_pending [OF kb(2)] todo_blocks_nth by blast
  then have "step_effect x store bl (bs ! k) (ws ! k) s w s'"
    using worker_step_ok [OF assms(1) _ _ k(2), of "bs ! k"] kb(2) by (simp add: worker_inv_def)
  then consider "addressDB s' = addressDB s"
    | n where "store (addressDB s') = put_all (block_kvs x (bl n)) (store (addressDB s))" "n \<in> set (pending (ws ! k))"
    unfolding step_effect_def by fastforce
  then show ?thesis
  proof cases
    case (2 n)
    then have "block_keys_of x (bl n) \<subseteq> all_keys x bl bs" using pend by (auto simp: all_keys_def)
    then show ?thesis
      using put_all_keys [of "block_kvs x (bl n)" "store (addressDB s)"] unfolding 2(1) block_keys_of_def by blast
  qed simp
qed

text \<open>When the rest of the program does not touch the address database, it gets no keys but those of the blocks.\<close>

lemma runs_keys:
  assumes "runs ix store UNIV N c d" "batch_setting x api store ix bl bs" "run_inv x store bl m0 bs c"
  shows "dom (store (addressDB (snd d))) \<subseteq> dom (store (addressDB (snd c))) \<union> all_keys x bl bs"
  using assms(1,3)
proof induction
  case (runs_worker N c d e)
  have "run_inv x store bl m0 bs (fst d, snd d)"
    using runs_inv [OF runs_mono [OF runs_worker.hyps(1)] assms(2) runs_worker.prems] by simp
  then have "dom (store (addressDB (snd e))) \<subseteq> dom (store (addressDB (snd d))) \<union> all_keys x bl bs"
    using run_step_keys [OF assms(2), of m0 "fst d" "snd d" UNIV "fst e" "snd e"] runs_worker.hyps(2) by simp
  then show ?case using runs_worker.IH [OF runs_worker.prems] by blast
next
  case (runs_other N c ws s s')
  then have "store (addressDB s') = store (addressDB s)" by (auto elim!: other_step.cases)
  then show ?case using runs_other.IH [OF runs_other.prems] by simp
qed simp

text \<open>The blocks that are in the database, and nothing else.\<close>

definition holds_blocks :: "ext \<Rightarrow> (int \<Rightarrow> BLockDetail) \<Rightarrow> int \<Rightarrow> (bytes \<rightharpoonup> bytes) \<Rightarrow> bool" where
  "holds_blocks x bl L m \<longleftrightarrow>
     (\<forall>n \<in> {0 .. L}. block_in x (bl n) m) \<and> dom m \<subseteq> (\<Union>n \<in> {0 .. L}. block_keys_of x (bl n))"

lemma indexed_holds:
  assumes "leveldb_laws x api store" "level_writes api" "level_batch_indexer x api ix"
    and N: "0 < N" "N < 256" "N \<le> L + 1" "L < 1000000000" and "chain_ok x bl L" "provides (idxClient ix) bl {0 .. L}"
    and "store (addressDB s) = Map.empty"
    and run: "runs ix store UNIV M (init_workers (GetInitBatches t N 0 (Some L)), s) (ws, s')" "\<forall>w \<in> set ws. \<exists>b. w = Stopped b"
  shows "holds_blocks x bl L (store (addressDB s'))"
proof -
  let ?bs = "GetInitBatches t N 0 (Some L)"
  note set = init_setting [OF assms(1-9), of t]
  note todo = init_todo_blocks [OF N(1-3), of t]
  have K: "all_keys x bl ?bs = (\<Union>n \<in> {0 .. L}. block_keys_of x (bl n))" by (simp add: all_keys_def todo)
  have "\<forall>n \<in> {0 .. L}. block_in x (bl n) (store (addressDB s'))"
    using batches_done [OF set runs_mono [OF run(1) subset_UNIV]] run(2) assms(9) by (simp add: todo)
  then show ?thesis
    using runs_keys [OF run(1) set init_inv [OF set]] assms(10) by (simp add: holds_blocks_def K)
qed

section \<open>The entries of an account\<close>

text \<open>The index entries of one account that the blocks 0 to \<open>L\<close> give, in the order of the chain.\<close>

definition account_kvs :: "ext \<Rightarrow> (int \<Rightarrow> BLockDetail) \<Rightarrow> int \<Rightarrow> string \<Rightarrow> KeyValue list" where
  "account_kvs x bl L a =
     concat (map (\<lambda>n. map (entry_of x) (filter (\<lambda>i. Address i = a) (numbered (block_entries (bl n))))) [0 .. L])"

lemma at_most_mono: "at_most m bd \<Longrightarrow> m \<le> n \<Longrightarrow> at_most n bd"
  by (meson at_most_def le_trans)

lemma numbered_increasing:
  assumes "at_most 255 bd"
  shows "sorted_wrt (\<lambda>i j. Address i = Address j \<longrightarrow> Sequence i < Sequence j) (numbered (block_entries bd))"
  unfolding sorted_wrt_iff_nth_less length_numbered
proof (intro allI impI)
  fix j k
  let ?es = "block_entries bd"
  assume jk: "j < k" "k < length ?es" and eq: "Address (numbered ?es ! j) = Address (numbered ?es ! k)"
  then have a: "Address (?es ! j) = Address (?es ! k)" by (simp add: numbered_nth)
  let ?p = "occ (Address (?es ! j)) (take (Suc j) ?es)" and ?q = "occ (Address (?es ! k)) (take (Suc k) ?es)"
  have "?p < ?q" by (rule occ_take_less [OF jk a])
  moreover have "?q \<le> 255" using occ_take_le [of _ "Suc k" ?es] assms by (meson at_most_def le_trans)
  ultimately have "(of_nat ?p :: 8 word) < of_nat ?q" by (simp add: word_less_nat_alt unat_of_nat)
  then show "Sequence (numbered ?es ! j) < Sequence (numbered ?es ! k)" using jk by (simp add: numbered_nth)
qed

text \<open>The keys of the entries of one account increase along the chain.\<close>

lemma entry_key:
  assumes "bd_ok x bd" "i \<in> set (numbered (block_entries bd))"
  shows "ai_ok x i" "norm_hex x (Address i) = Address i" "aiTime i = bdTime bd" "kvKey (entry_of x i) = enc_key (ai_key x i)"
    "key_ok (ai_key x i)"
proof -
  show ok: "ai_ok x i" by (rule numbered_ok [OF assms])
  show "norm_hex x (Address i) = Address i" "aiTime i = bdTime bd"
    using block_entry_ok [OF assms(1)] assms(2) by (fastforce simp: set_numbered)+
  show "kvKey (entry_of x i) = enc_key (ai_key x i)" "key_ok (ai_key x i)"
    using kvKey_entry [OF ok] ai_key_ok [OF ok] by blast+
qed

lemma account_kvs_sorted:
  assumes "chain_ok x bl L" "\<forall>n \<in> {0 .. L}. at_most 255 (bl n)"
  shows "sorted_wrt (\<lambda>v w. kvKey v < kvKey w) (account_kvs x bl L a)"
  unfolding account_kvs_def
proof (rule sorted_wrt_concat)
  let ?is = "\<lambda>n. filter (\<lambda>i. Address i = a) (numbered (block_entries (bl n)))"
  have bd: "bd_ok x (bl n)" if "n \<in> {0 .. L}" for n using assms(1) that by (simp add: chain_ok_def)
  show "sorted_wrt (\<lambda>v w. kvKey v < kvKey w) kvl" if kvl: "kvl \<in> set (map (\<lambda>n. map (entry_of x) (?is n)) [0 .. L])" for kvl
  proof -
    obtain n where n: "n \<in> {0 .. L}" "kvl = map (entry_of x) (?is n)" using kvl by auto
    have "sorted_wrt (\<lambda>i j. Address i = Address j \<longrightarrow> Sequence i < Sequence j) (?is n)"
      by (intro sorted_wrt_filter numbered_increasing) (use assms(2) n(1) in blast)
    then have "sorted_wrt (\<lambda>i j. kvKey (entry_of x i) < kvKey (entry_of x j)) (?is n)"
    proof (rule sorted_wrt_mono_rel [rotated])
      fix i j assume ij: "i \<in> set (?is n)" "j \<in> set (?is n)" "Address i = Address j \<longrightarrow> Sequence i < Sequence j"
      then have mem: "i \<in> set (numbered (block_entries (bl n)))" "j \<in> set (numbered (block_entries (bl n)))" by simp_all
      note ki = entry_key [OF bd [OF n(1)] mem(1)] and kj = entry_key [OF bd [OF n(1)] mem(2)]
      have "ai_key x i < ai_key x j" using ij ki(3) kj(3) by (simp add: ai_key_def less_AddrKey_def)
      then show "kvKey (entry_of x i) < kvKey (entry_of x j)"
        using ki kj by (simp add: enc_key_less_iff)
    qed
    then show ?thesis by (simp add: n(2) sorted_wrt_map)
  qed
  have "sorted_wrt (\<lambda>m n. \<forall>i \<in> set (?is m). \<forall>j \<in> set (?is n). kvKey (entry_of x i) < kvKey (entry_of x j)) [0 .. L]"
  proof (rule sorted_wrt_mono_rel [OF _ sorted_wrt_upto], intro ballI)
    fix m n i j
    assume mn: "m \<in> set [0 .. L]" "n \<in> set [0 .. L]" "m < n" and ij: "i \<in> set (?is m)" "j \<in> set (?is n)"
    then have m: "m \<in> {0 .. L}" and n: "n \<in> {0 .. L}" by simp_all
    have i: "i \<in> set (numbered (block_entries (bl m)))" and j: "j \<in> set (numbered (block_entries (bl n)))" using ij by simp_all
    note ki = entry_key [OF bd [OF m] i] and kj = entry_key [OF bd [OF n] j]
    have "the (bdTime (bl m)) < the (bdTime (bl n))" using assms(1) m n mn(3) by (simp add: chain_ok_def)
    then have "ai_key x i < ai_key x j" using ij ki(3) kj(3) by (simp add: ai_key_def less_AddrKey_def)
    then show "kvKey (entry_of x i) < kvKey (entry_of x j)" using ki kj by (simp add: enc_key_less_iff)
  qed
  then show "sorted_wrt (\<lambda>xs ys. \<forall>v \<in> set xs. \<forall>w \<in> set ys. kvKey v < kvKey w) (map (\<lambda>n. map (entry_of x) (?is n)) [0 .. L])"
    by (simp add: sorted_wrt_map)
qed

lemma in_account_kvs:
  "kv \<in> set (account_kvs x bl L a) \<longleftrightarrow>
   (\<exists>n \<in> {0 .. L}. \<exists>i \<in> set (numbered (block_entries (bl n))). Address i = a \<and> kv = entry_of x i)"
  by (auto simp: account_kvs_def)

text \<open>Every entry of the blocks is in the database under its key, and there is no other.\<close>

lemma held_entry:
  assumes "holds_blocks x bl L m" "chain_ok x bl L" "\<forall>n \<in> {0 .. L}. at_most 255 (bl n)"
    and n: "n \<in> {0 .. L}" and i: "i \<in> set (numbered (block_entries (bl n)))"
  shows "m (kvKey (entry_of x i)) = Some (kvValue (entry_of x i))"
proof -
  have bd: "bd_ok x (bl n)" using assms(2) n by (simp add: chain_ok_def)
  have "at_most 256 (bl n)" using at_most_mono [of 255 "bl n" 256] assms(3) n by simp
  then have "distinct (map (ai_key x) (numbered (block_entries (bl n))))" by (rule distinct_keys [OF bd])
  then have "distinct (map kvKey (block_kvs x (bl n)))"
    using entry_key(4,5) [OF bd] by (simp add: block_kvs_def distinct_map inj_on_def enc_key_inject comp_def)
  then have "put_all (block_kvs x (bl n)) Map.empty (kvKey (entry_of x i)) = Some (kvValue (entry_of x i))"
    using i by (intro put_all_lookup) (simp_all add: block_kvs_def)
  then show ?thesis
    using assms(1) n i by (auto simp: holds_blocks_def block_in_def block_keys_of_def block_kvs_def)
qed

lemma held_only:
  assumes "holds_blocks x bl L m" "chain_ok x bl L" "\<forall>n \<in> {0 .. L}. at_most 255 (bl n)" "m (kvKey kv) = Some (kvValue kv)"
  obtains n i where "n \<in> {0 .. L}" "i \<in> set (numbered (block_entries (bl n)))" "kv = entry_of x i"
proof -
  have "kvKey kv \<in> dom m" using assms(4) by blast
  then obtain n i where ni: "n \<in> {0 .. L}" "i \<in> set (numbered (block_entries (bl n)))" "kvKey kv = kvKey (entry_of x i)"
  proof -
    have "kvKey kv \<in> (\<Union>n \<in> {0 .. L}. block_keys_of x (bl n))"
      using \<open>kvKey kv \<in> dom m\<close> assms(1) unfolding holds_blocks_def by blast
    then show ?thesis using that by (auto simp: block_keys_of_def block_kvs_def)
  qed
  then have "kv = entry_of x i" using held_entry [OF assms(1-3) ni(1,2)] assms(4) by simp
  then show ?thesis using that ni by blast
qed

lemma entries_account:
  assumes "external x" "holds_blocks x bl L m" "chain_ok x bl L" "\<forall>n \<in> {0 .. L}. at_most 255 (bl n)" "finite (dom m)"
  shows "entries x m acct (\<lambda>_. True) = account_kvs x bl L (norm_hex x acct)"
proof (rule sorted_key_unique [where f = kvKey])
  show "sorted_wrt (\<lambda>v w. kvKey v < kvKey w) (entries x m acct (\<lambda>_. True))"
    unfolding entries_def by (rule sorted_wrt_filter) (rule sorted_kvs)
  show "sorted_wrt (\<lambda>v w. kvKey v < kvKey w) (account_kvs x bl L (norm_hex x acct))"
    by (rule account_kvs_sorted [OF assms(3,4)])
  have bd: "bd_ok x (bl n)" if "n \<in> {0 .. L}" for n using assms(3) that by (simp add: chain_ok_def)
  note held = held_entry [OF assms(2-4)]
  have addr: "akAddr (dec_key (kvKey (entry_of x i))) = addr_bytes x acct \<longleftrightarrow> Address i = norm_hex x acct"
    if n: "n \<in> {0 .. L}" and i: "i \<in> set (numbered (block_entries (bl n)))" for n i
  proof -
    note k = entry_key [OF bd [OF n] i]
    have "addr_bytes x (norm_hex x acct) = addr_bytes x acct"
      by (simp add: norm_hex_def addr_bytes_def external.decode_encode [OF assms(1)])
    then have "addr_bytes x (Address i) = addr_bytes x acct \<longleftrightarrow> Address i = norm_hex x acct"
      using k(2) by (metis norm_hex_def)
    then show ?thesis using k(4,5) by (simp add: ai_key_def)
  qed
  show "set (entries x m acct (\<lambda>_. True)) = set (account_kvs x bl L (norm_hex x acct))"
  proof (intro set_eqI iffI)
    fix kv assume "kv \<in> set (entries x m acct (\<lambda>_. True))"
    then have kv: "m (kvKey kv) = Some (kvValue kv)" "akAddr (dec_key (kvKey kv)) = addr_bytes x acct"
      by (simp_all add: entries_def set_kvs [OF assms(5)])
    from kv(1) obtain n i where ni: "n \<in> {0 .. L}" "i \<in> set (numbered (block_entries (bl n)))" "kv = entry_of x i"
      by (rule held_only [OF assms(2-4)])
    then show "kv \<in> set (account_kvs x bl L (norm_hex x acct))"
      using addr [OF ni(1,2)] kv(2) ni by (auto simp: in_account_kvs)
  next
    fix kv assume "kv \<in> set (account_kvs x bl L (norm_hex x acct))"
    then show "kv \<in> set (entries x m acct (\<lambda>_. True))"
      using held addr by (auto simp: in_account_kvs entries_def set_kvs [OF assms(5)])
  qed
qed

section \<open>The transfers of an account\<close>

text \<open>
  The specification of an answer: every transfer of the blocks 0 to \<open>L\<close> that the account sends or receives, in the
  order of the chain, the sender's side first.
\<close>

definition transfers :: "(int \<Rightarrow> BLockDetail) \<Rightarrow> int \<Rightarrow> string \<Rightarrow> AddressIndex list" where
  "transfers bl L a = concat (map (\<lambda>n. filter (\<lambda>i. Address i = a) (block_entries (bl n))) [0 .. L])"

lemma norm_numbered:
  assumes "\<And>i q. P (i\<lparr>Sequence := q\<rparr>) = P i"
  shows "map (norm_index x) (filter P (numbered es)) = map (norm_index x) (filter P es)"
  by (induction es rule: rev_induct) (simp_all add: assms norm_index_def)

lemma account_transfers:
  assumes "chain_ok x bl L"
  shows "map (to_index x) (filter (\<lambda>kv. P (akTime (dec_key (kvKey kv)))) (account_kvs x bl L a)) =
    map (norm_index x) (filter (\<lambda>i. P (the (aiTime i))) (transfers bl L a))"
proof -
  have block: "map (to_index x) (filter (\<lambda>kv. P (akTime (dec_key (kvKey kv))))
        (map (entry_of x) (filter (\<lambda>i. Address i = a) (numbered (block_entries (bl n)))))) =
      map (norm_index x) (filter (\<lambda>i. P (the (aiTime i))) (filter (\<lambda>i. Address i = a) (block_entries (bl n))))"
    if n: "n \<in> {0 .. L}" for n
  proof -
    let ?ns = "numbered (block_entries (bl n))"
    have bd: "bd_ok x (bl n)" using assms n by (simp add: chain_ok_def)
    have key: "akTime (dec_key (kvKey (entry_of x i))) = the (aiTime i)" "to_index x (entry_of x i) = norm_index x i"
      if "i \<in> set ?ns" for i
      using entry_key [OF bd that] to_index_entry by (simp_all add: ai_key_def)
    have "filter (\<lambda>kv. P (akTime (dec_key (kvKey kv)))) (map (entry_of x) (filter (\<lambda>i. Address i = a) ?ns)) =
        map (entry_of x) (filter (\<lambda>i. P (the (aiTime i)) \<and> Address i = a) ?ns)"
      using key(1) by (auto simp: filter_map comp_def intro!: arg_cong [where f = "map (entry_of x)"] filter_cong)
    moreover have "map (to_index x) (map (entry_of x) js) = map (norm_index x) js" if "set js \<subseteq> set ?ns" for js
      using key(2) that by auto
    ultimately have "map (to_index x) (filter (\<lambda>kv. P (akTime (dec_key (kvKey kv)))) (map (entry_of x) (filter (\<lambda>i. Address i = a) ?ns))) =
        map (norm_index x) (filter (\<lambda>i. P (the (aiTime i)) \<and> Address i = a) ?ns)"
      by (metis (no_types, lifting) filter_is_subset)
    also have "\<dots> = map (norm_index x) (filter (\<lambda>i. P (the (aiTime i)) \<and> Address i = a) (block_entries (bl n)))"
      by (rule norm_numbered) simp
    finally show ?thesis by (simp add: conj_commute)
  qed
  have "map (\<lambda>n. map (to_index x) (filter (\<lambda>kv. P (akTime (dec_key (kvKey kv))))
        (map (entry_of x) (filter (\<lambda>i. Address i = a) (numbered (block_entries (bl n))))))) [0 .. L] =
      map (\<lambda>n. map (norm_index x) (filter (\<lambda>i. P (the (aiTime i))) (filter (\<lambda>i. Address i = a) (block_entries (bl n))))) [0 .. L]"
    by (rule map_cong [OF refl block]) simp
  then show ?thesis
    unfolding account_kvs_def transfers_def filter_concat map_concat map_map comp_def by (rule arg_cong)
qed

lemma entries_filter: "entries x m a P = filter (\<lambda>kv. P (akTime (dec_key (kvKey kv)))) (entries x m a (\<lambda>_. True))"
  by (simp add: entries_def conj_commute)

lemma holds_map_ok:
  assumes "holds_blocks x bl L m" "chain_ok x bl L" "\<forall>n \<in> {0 .. L}. at_most 255 (bl n)"
  shows "address_map_ok m"
  unfolding address_map_ok_def
proof (intro allI impI)
  fix k v assume "m k = Some v"
  then have "m (kvKey \<lparr>kvKey = k, kvValue = v\<rparr>) = Some (kvValue \<lparr>kvKey = k, kvValue = v\<rparr>)" by simp
  then obtain n i where ni: "n \<in> {0 .. L}" "i \<in> set (numbered (block_entries (bl n)))" "\<lparr>kvKey = k, kvValue = v\<rparr> = entry_of x i"
    by (rule held_only [OF assms])
  have bd: "bd_ok x (bl n)" using assms(2) ni(1) by (simp add: chain_ok_def)
  have i: "ai_ok x i" "k = enc_key (ai_key x i)" "key_ok (ai_key x i)"
    using entry_key [OF bd ni(2)] by (simp_all flip: ni(3))
  moreover have "v = kvValue (entry_of x i)" by (simp flip: ni(3))
  then have "52 \<le> length v" using i(1) by (simp add: entry_of_def ai_ok_def addr_ok_def hash_ok_def)
  ultimately show "(\<exists>K. key_ok K \<and> k = enc_key K) \<and> 52 \<le> length v" by blast
qed

section \<open>The answers\<close>

text \<open>
  C2. From the chain to the answers of the API. From empty databases \<open>getBatches\<close> makes the initial batches of the
  chain up to \<open>L\<close>; however their goroutines interleave, when all have returned the API answers the query of an
  account with the transfers of the blocks 0 to \<open>L\<close> that the account takes part in, and with nothing else: those
  inside the bounds, the newest block first without a bound and the oldest first with one, from \<open>start\<close> on and at
  most \<open>rows\<close>, with the absolute amount, and with their number as total. The rest of the program may act in any way
  that leaves the address database alone, and no address may have more than 255 entries in a block.
\<close>

theorem chain_answered:
  assumes "leveldb_laws x api store" "level_writes api" "level_batch_indexer x api ix"
    and N: "0 < idxNumBatch ix" "idxNumBatch ix < 256" "idxNumBatch ix \<le> L + 1" "L < 1000000000"
    and chain: "chain_ok x bl L" "\<forall>n \<in> {0 .. L}. at_most 255 (bl n)" "provides (idxClient ix) bl {0 .. L}"
    and fresh: "store (addressDB s) = Map.empty" "store (batchDB s) = Map.empty"
    and run: "getBatches ix (Some L) s = (Ret bs, s1)" "runs ix store UNIV M (init_workers bs, s1) (ws, s')"
      "\<forall>w \<in> set ws. \<exists>b. w = Stopped b"
    and server: "level_server x api server"
    and req: "hexDecode x (reqParam c ''accountNumber'') = (a, None)" "length a = 20"
      "bound_of (reqQuery c ''from'') = Inr f" "bound_of (reqQuery c ''to'') = Inr t" "times_ok f t" "plain_request c"
      "getPagingQueryParams c = (rows, start)"
    and ts: "ts = filter (\<lambda>i. in_times f t (the (aiTime i))) (transfers bl L (hexEncode x a))"
  shows "getTransactionsByAccount clients zone server c s' =
    (Ret [(200, Transactions \<lparr>etTotal = (if length ts > 10000 then ''+10000'' else Itoa (int (length ts))), etStart = start,
       etIndexes = map (\<lambda>i. shown zone (norm_index x i))
         (take (nat rows) (drop (nat start) (take 10001 (if tIsZero f \<and> tIsZero t then rev ts else ts))))\<rparr>)], s')"
proof -
  obtain u s2 where "getBatches ix (Some L) s = (Ret (GetInitBatches u (idxNumBatch ix) 0 (Some L)), s2)"
    "addressDB s2 = addressDB s"
    by (rule getBatches_first [OF assms(1,3) fresh(2), of "Some L"])
  then have bs: "bs = GetInitBatches u (idxNumBatch ix) 0 (Some L)" "addressDB s1 = addressDB s" using run(1) by simp_all
  have holds: "holds_blocks x bl L (store (addressDB s'))"
    using indexed_holds [OF assms(1-3) N chain(1,3) _ _ run(3), of s1 M u] run(2) fresh(1) bs by simp
  have fin: "finite (dom (store (addressDB s')))"
    by (rule kv_dao.dao_finite [OF leveldb_laws.level_dao [OF assms(1)]])
  have acct: "norm_hex x (reqParam c ''accountNumber'') = hexEncode x a"
    using req(1) by (simp add: norm_hex_def addr_bytes_def)
  let ?es = "entries x (store (addressDB s')) (reqParam c ''accountNumber'') (in_times f t)"
  have es: "map (to_index x) ?es = map (norm_index x) ts"
    unfolding entries_filter [of _ _ _ "in_times f t"] ts
      entries_account [OF leveldb_laws.axioms(1) [OF assms(1)] holds chain(1,2) fin] acct
    by (rule account_transfers [OF chain(1)])
  then have len: "length ?es = length ts" by (metis length_map)
  have page: "map (to_index x) (answer_page f t rows start ?es) =
      map (norm_index x) (take (nat rows) (drop (nat start) (take 10001 (if tIsZero f \<and> tIsZero t then rev ts else ts))))"
    by (simp add: answer_page_def es flip: take_map drop_map rev_map)
  have "map (\<lambda>kv. shown zone (to_index x kv)) (answer_page f t rows start ?es) =
      map (\<lambda>i. shown zone (norm_index x i))
        (take (nat rows) (drop (nat start) (take 10001 (if tIsZero f \<and> tIsZero t then rev ts else ts))))"
    using arg_cong [OF page, of "map (shown zone)"] by (simp add: comp_def)
  then show ?thesis
    using account_answer [OF assms(1) server holds_map_ok [OF holds chain(1,2)] req, of clients zone] unfolding len by simp
qed

lemma sBd_transfers: "transfers sBd 20 (sAddr 1) = map (\<lambda>n. \<lparr>Address = sAddr 1, Sequence = 0, aiTxHash = sHash 9, aiValue = Some (- 70),
    aiTime = Some (1500000000 + 15 * n), CoupleAddress = sAddr 2\<rparr>) [0 .. 20]"
proof -
  have ne: "sAddr 2 \<noteq> sAddr 1" "sAddr 1 \<noteq> []" "sAddr 2 \<noteq> []"
  proof -
    have "addr_bytes refExt (sAddr 2) \<noteq> addr_bytes refExt (sAddr 1)" by simp
    then show "sAddr 2 \<noteq> sAddr 1" by metis
    show "sAddr 1 \<noteq> []" "sAddr 2 \<noteq> []" by (simp_all add: sAddr_def refExt_def refEncode_def)
  qed
  then have "filter (\<lambda>i. Address i = sAddr 1) (block_entries (sBd n)) = [\<lparr>Address = sAddr 1, Sequence = 0, aiTxHash = sHash 9,
      aiValue = Some (- 70), aiTime = Some (1500000000 + 15 * n), CoupleAddress = sAddr 2\<rparr>]" for n
    by (simp add: block_entries_def sBd_def tx_entries_def or_zero_def)
  then show ?thesis unfolding transfers_def by (simp add: concat_map_singleton)
qed

text \<open>The chain of the sample node: the three newest of the 21 transfers of the first account.\<close>

theorem chain_answered_witness:
  "\<exists>bs s1 M ws s'. getBatches sIndexer (Some 20) sSys = (Ret bs, s1) \<and>
    runs sIndexer RBT.lookup UNIV M (init_workers bs, s1) (ws, s') \<and>
    getTransactionsByAccount (\<lambda>_. sClient) (\<lambda>_. 3600) sServer (sRequest [(''rows'', ''3'')]) s' =
      (Ret [(200, Transactions \<lparr>etTotal = ''21'', etStart = 0, etIndexes = map (\<lambda>n.
          \<lparr>eiAddress = sAddr 1, eiTxHash = sHash 9, eiValue = Some 70, eiTime = Format_RFC3339 3600 (time_Unix (1500000000 + 15 * n)),
           eiCoupleAddress = sAddr 2, eiData = None, eiGas = 0, eiGasPrice = None\<rparr>) [20, 19, 18]\<rparr>)], s')"
proof -
  let ?c = "sRequest [(''rows'', ''3'')]"
  have num: "idxNumBatch sIndexer = 4" by (simp add: sIndexer_def)
  have dbs: "RBT.lookup (addressDB sSys) = Map.empty" "RBT.lookup (batchDB sSys) = Map.empty"
    by (simp_all add: sSys_def fun_eq_iff)
  have chain: "chain_ok refExt sBd 20" by (simp add: chain_ok_def) (simp add: sBd_def)
  have few: "\<forall>n \<in> {0 .. 20}. at_most 255 (sBd n)" using at_most_mono [OF sBd_at_most, of 255] by simp
  have prov: "provides (idxClient sIndexer) sBd {0 .. 20}" using sClient_provides by simp
  note laws = ref_level_laws level_writes_ref sIndexer_batch
  obtain t s1 where g: "getBatches sIndexer (Some 20) sSys = (Ret (GetInitBatches t 4 0 (Some 20)), s1)"
    using getBatches_first [OF ref_level_laws sIndexer_batch dbs(2), of "Some 20"] num by metis
  have "batch_setting refExt refLevel RBT.lookup sIndexer sBd (GetInitBatches t 4 0 (Some 20))"
    by (rule init_setting [OF laws _ _ _ _ chain prov]) simp_all
  from full_run [OF this subset_UNIV runs_refl] obtain M ws s' where run:
    "runs sIndexer RBT.lookup UNIV M (init_workers (GetInitBatches t 4 0 (Some 20)), s1) (ws, s')" "\<forall>w \<in> set ws. \<exists>b. w = Stopped b"
    by blast
  have req: "hexDecode refExt (reqParam ?c ''accountNumber'') = (replicate 20 1, None)" "length (replicate 20 (1 :: byte)) = 20"
    "bound_of (reqQuery ?c ''from'') = Inr zeroTime" "bound_of (reqQuery ?c ''to'') = Inr zeroTime" "times_ok zeroTime zeroTime"
    "plain_request ?c"
    by (simp_all add: sRequest_def sAddr_decode bound_of_def times_ok_def tIsZero_def plain_request_def)
  have pg: "getPagingQueryParams ?c = (3, 0)"
    by (simp add: getPagingQueryParams_def sRequest_def Atoi_def ParseInt_def split_sign_def is_digit_def horner_def digit_val_def)
  have ts: "map (\<lambda>n. \<lparr>Address = sAddr 1, Sequence = 0, aiTxHash = sHash 9, aiValue = Some (- 70),
      aiTime = Some (1500000000 + 15 * n), CoupleAddress = sAddr 2\<rparr>) [0 .. 20] =
    filter (\<lambda>i. in_times zeroTime zeroTime (the (aiTime i))) (transfers sBd 20 (hexEncode refExt (replicate 20 1)))"
    using sBd_transfers by (simp add: in_times_def tIsZero_def sAddr_def)
  have total: "Itoa 21 = ''21''" by code_simp
  have newest: "take 3 (rev [0 .. 20]) = [20, 19, 18 :: int]" by code_simp
  have page: "take 3 (rev (map h [0 .. 20])) = map h [20, 19, 18]" for h :: "int \<Rightarrow> AddressIndex"
  proof -
    have "take 3 (rev (map h [0 .. 20])) = map h (take 3 (rev [0 .. 20]))" by (simp only: rev_map take_map)
    then show ?thesis unfolding newest .
  qed
  from chain_answered [OF laws _ _ _ _ chain few prov dbs g run sServer_level req pg ts, of "\<lambda>_. sClient" "\<lambda>_. 3600"]
  have "getTransactionsByAccount (\<lambda>_. sClient) (\<lambda>_. 3600) sServer ?c s' =
      (Ret [(200, Transactions \<lparr>etTotal = ''21'', etStart = 0, etIndexes = map (\<lambda>i. shown (\<lambda>_. 3600) (norm_index refExt i))
         (map (\<lambda>n. \<lparr>Address = sAddr 1, Sequence = 0, aiTxHash = sHash 9, aiValue = Some (- 70),
            aiTime = Some (1500000000 + 15 * n), CoupleAddress = sAddr 2\<rparr>) [20, 19, 18])\<rparr>)], s')"
    by (simp add: num total page tIsZero_def)
  then show ?thesis using g run(1) by (auto simp: shown_def norm_index_def)
qed

end
