(* ===== verification/Config.thy ===== *)
theory Config
  imports Complex_Main GoTime
begin

text \<open>
  The configuration of the program (\<open>common/config/config.go\<close>) and how it is printed.
  \<^item> A \<open>time.Duration\<close> is an \<open>int64\<close> number of nanoseconds; the fields hold its value.
  \<^item> \<open>GetConfig\<close> is a singleton: its state is the pointer, \<open>None\<close> before the first call.
\<close>

section \<open>Printing a duration\<close>

text \<open>
  \<open>fmtFrac(buf, v, prec)\<close>: the last \<open>prec\<close> digits of \<open>v\<close> after a point, without trailing zeros and without the
  point when nothing is left, and the quotient.
\<close>

fun fmt_frac :: "nat \<Rightarrow> nat \<Rightarrow> bool \<Rightarrow> string \<Rightarrow> string \<times> nat" where
  "fmt_frac 0 v printed buf = ((if printed then CHR ''.'' # buf else buf), v)"
| "fmt_frac (Suc prec) v printed buf =
     (let digit = v mod 10; pr = (printed \<or> digit \<noteq> 0)
      in fmt_frac prec (v div 10) pr (if pr then digit_char digit # buf else buf))"

text \<open>\<open>Duration.String\<close>; the sign for microseconds takes two bytes.\<close>

definition Duration_String :: "duration \<Rightarrow> string" where
  "Duration_String d =
     (let u = nat \<bar>d\<bar>;
          small = (\<lambda>prec unit. let (frac, v) = fmt_frac prec u False [] in dec v @ frac @ unit);
          text =
            (if u = 0 then ''0s''
             else if u < 1000 then small 0 ''ns''
             else if u < 1000000 then small 3 [char_of (194 :: nat), char_of (181 :: nat), CHR ''s'']
             else if u < 1000000000 then small 6 ''ms''
             else let (frac, v) = fmt_frac 9 u False []; minutes = v div 60; hours = minutes div 60
                  in (if 0 < minutes then (if 0 < hours then dec hours @ ''h'' else []) @ dec (minutes mod 60) @ ''m'' else [])
                     @ dec (v mod 60) @ frac @ ''s'')
      in if d < 0 then CHR ''-'' # text else text)"

section \<open>The configuration\<close>

record Configuration =
  CleanInterval :: duration
  BlockTTL :: duration
  WatcherInterval :: duration
  OOSThreshold :: duration
  Port :: int
  NumBatch :: int
  DbPath :: string
  StartTime :: gotime

definition zeroConfiguration :: Configuration where
  "zeroConfiguration =
     \<lparr>CleanInterval = 0, BlockTTL = 0, WatcherInterval = 0, OOSThreshold = 0, Port = 0, NumBatch = 0, DbPath = [],
      StartTime = zeroTime\<rparr>"

definition GetConfig :: "Configuration option \<Rightarrow> Configuration \<times> Configuration option" where
  "GetConfig config =
     (case config of None \<Rightarrow> (zeroConfiguration, Some zeroConfiguration) | Some c \<Rightarrow> (c, Some c))"

text \<open>\<open>offset\<close> is that of the machine's zone at the start time.\<close>

definition Configuration_String :: "int \<Rightarrow> Configuration \<Rightarrow> string" where
  "Configuration_String offset con =
     ''CleanInterval='' @ Duration_String (CleanInterval con) @ '' BlockTTL='' @ Duration_String (BlockTTL con) @
     '' WatcherInterval='' @ Duration_String (WatcherInterval con) @ '' OOSThreshold='' @ Duration_String (OOSThreshold con) @
     '' Port='' @ Itoa (Port con) @ '' NumBatch='' @ Itoa (NumBatch con) @ '' DbPath='' @ DbPath con @
     '' StartTime='' @ Format_RFC3339 offset (StartTime con)"

section \<open>Durations that are whole units\<close>

lemma fmt_frac_zeros: "fmt_frac k (n * 10 ^ k) False [] = ([], n)"
  by (induction k) simp_all

lemma Duration_String_seconds:
  assumes "0 < n"
  shows "Duration_String (int n * Second) =
    (if 60 \<le> n then (if 3600 \<le> n then dec (n div 3600) @ ''h'' else []) @ dec (n div 60 mod 60) @ ''m'' else [])
    @ dec (n mod 60) @ ''s''"
proof -
  have u: "nat \<bar>int n * Second\<bar> = n * 10 ^ 9" by (simp add: Second_def nat_mult_distrib)
  have "fmt_frac 9 (n * 10 ^ 9) False [] = ([], n)" by (rule fmt_frac_zeros)
  moreover have "1000000000 \<le> n * 10 ^ 9" "\<not> int n * Second < 0" using assms by (simp_all add: Second_def)
  moreover have "n div 60 div 60 = n div 3600" by (simp add: div_mult2_eq)
  moreover have "0 < n div 60 \<longleftrightarrow> 60 \<le> n" "0 < n div 3600 \<longleftrightarrow> 3600 \<le> n" by (simp_all add: div_greater_zero_iff)
  ultimately show ?thesis unfolding Duration_String_def u by (simp add: Let_def)
qed

end
