(* ===== verification/Watcher.thy ===== *)
theory Watcher
  imports Indexer Config
begin

text \<open>
  The two tasks that run on a ticker (\<open>watcher/check_node_status.go\<close>, \<open>watcher/clean_block_db.go\<close>): the watcher
  switches the IPC path when the last block is too old or came too late, the cleaner deletes old blocks.
  \<^item> \<open>on_ipc\<close> is a call of a method of the IPC manager; the notifications of a switch are its result.
  \<^item> A ticker has a channel with room for one tick. Once stopped it sends none any more; it does not close its
    channel, and a tick that was sent before is still received.
  \<^item> \<open>Watch\<close> may be called by several goroutines. \<open>watch_step\<close> has a step for its check, one for the start of its
    ticker and one per tick, and an environment step for everything else the program does meanwhile.
\<close>

definition on_ipc :: "(IpcManager \<Rightarrow> ('a \<times> IpcManager) outcome) \<Rightarrow> ('db, 'w, 'a) sys_st" where
  "on_ipc f =
     on_env (\<lambda>e. case f (ipcManager e) of
        Ret (r, im) \<Rightarrow> (Ret r, e\<lparr>ipcManager := im\<rparr>)
      | Panic m \<Rightarrow> (Panic m, e)
      | Diverge \<Rightarrow> (Diverge, e))"

section \<open>The watcher\<close>

text \<open>
  The program counter of a call of \<open>Watch\<close>, \<open>WNotCalled\<close> before it; in \<open>WTicks\<close>, whether its ticker is running and
  whether a tick waits in its channel.
\<close>

datatype watch_pc = WNotCalled | WCheck | WStart | WTicks bool bool | WReturned | WPanic string

fun stop_ticker :: "watch_pc \<Rightarrow> watch_pc" where
  "stop_ticker (WTicks running tick) = WTicks False tick"
| "stop_ticker p = p"

text \<open>\<open>NodeStatusWatcher\<close>, its calls of \<open>Watch\<close>, and the state of the program.\<close>

record ('db, 'w) NodeStatusWatcher =
  wSys :: "('db, 'w) Sys"
  isWatching :: bool
  wpcs :: "nat \<Rightarrow> watch_pc"

definition NewNodeStatusWatcher :: "('db, 'w) Sys \<Rightarrow> ('db, 'w) NodeStatusWatcher" where
  "NewNodeStatusWatcher s = \<lparr>wSys = s, isWatching = False, wpcs = (\<lambda>_. WNotCalled)\<rparr>"

definition shouldChangeIPC :: "Configuration \<Rightarrow> gotime \<Rightarrow> BlockIndex \<Rightarrow> bool outcome" where
  "shouldChangeIPC config t lastBlock =
     obind (UnmarshallIntToTime (biCreatedAt lastBlock)) (\<lambda>createdAt.
     obind (UnmarshallIntToTime (biTime lastBlock)) (\<lambda>blockTime.
     (let createdAtDelay = tSub t createdAt; blockDelay = tSub createdAt blockTime
      in Ret (createdAtDelay > OOSThreshold config \<or> blockDelay > OOSThreshold config))))"

definition on_wSys :: "('db, 'w, 'a) sys_st \<Rightarrow> (('db, 'w) NodeStatusWatcher, 'a) st" where
  "on_wSys m = (\<lambda>n. let (r, s) = m (wSys n) in (r, n\<lparr>wSys := s\<rparr>))"

text \<open>The method \<open>watch\<close> in the call \<open>g\<close> of \<open>Watch\<close>, which holds the ticker; the result is the notifications.\<close>

definition watch ::
  "('db, 'w) Indexer \<Rightarrow> Configuration \<Rightarrow> nat \<Rightarrow> (('db, 'w) NodeStatusWatcher, (nat \<times> string) list) st" where
  "watch ix config g =
     bnd (on_wSys (\<lambda>s. (GetLastBlock (idxExt ix) (idxRepo ix) s, s))) (\<lambda>lastBlock.
     case lastBlock of
       Inl err \<Rightarrow> ret []
     | Inr b \<Rightarrow>
         bnd (on_wSys (now ix)) (\<lambda>t.
         bnd (lift (shouldChangeIPC config t b)) (\<lambda>change.
         if change
         then bnd (\<lambda>n. (Ret (), n\<lparr>isWatching := False, wpcs := (wpcs n)(g := stop_ticker (wpcs n g))\<rparr>)) (\<lambda>_.
              on_wSys (on_ipc ChangeIPC))
         else ret [])))"

text \<open>
  \<open>time.NewTicker\<close> panics for an interval that is not positive. While a tick is handled the ticker, as long as it
  runs, may send the next one.
\<close>

inductive watch_step ::
  "('db, 'w) Indexer \<Rightarrow> Configuration \<Rightarrow> ('db, 'w) NodeStatusWatcher \<Rightarrow> ('db, 'w) NodeStatusWatcher \<Rightarrow> bool"
  for ix :: "('db, 'w) Indexer" and config :: Configuration where
  watch_call: "wpcs n g = WNotCalled \<Longrightarrow> watch_step ix config n (n\<lparr>wpcs := (wpcs n)(g := WCheck)\<rparr>)"
| watch_busy: "wpcs n g = WCheck \<Longrightarrow> isWatching n \<Longrightarrow> watch_step ix config n (n\<lparr>wpcs := (wpcs n)(g := WReturned)\<rparr>)"
| watch_free: "wpcs n g = WCheck \<Longrightarrow> \<not> isWatching n \<Longrightarrow> watch_step ix config n (n\<lparr>wpcs := (wpcs n)(g := WStart)\<rparr>)"
| watch_start: "wpcs n g = WStart \<Longrightarrow> WatcherInterval config > 0 \<Longrightarrow>
    watch_step ix config n (n\<lparr>isWatching := True, wpcs := (wpcs n)(g := WTicks True False)\<rparr>)"
| watch_no_ticker: "wpcs n g = WStart \<Longrightarrow> WatcherInterval config \<le> 0 \<Longrightarrow>
    watch_step ix config n
      (n\<lparr>isWatching := True, wpcs := (wpcs n)(g := WPanic ''non-positive interval for NewTicker'')\<rparr>)"
| watch_fire: "wpcs n g = WTicks True tick \<Longrightarrow> watch_step ix config n (n\<lparr>wpcs := (wpcs n)(g := WTicks True True)\<rparr>)"
| watch_tick: "wpcs n g = WTicks running True \<Longrightarrow> (tick \<longrightarrow> running) \<Longrightarrow>
    watch ix config g (n\<lparr>wpcs := (wpcs n)(g := WTicks running tick)\<rparr>) = (Ret notifications, n') \<Longrightarrow>
    watch_step ix config n n'"
| watch_tick_panic: "wpcs n g = WTicks running True \<Longrightarrow> (tick \<longrightarrow> running) \<Longrightarrow>
    watch ix config g (n\<lparr>wpcs := (wpcs n)(g := WTicks running tick)\<rparr>) = (Panic e, n') \<Longrightarrow>
    watch_step ix config n (n'\<lparr>wpcs := (wpcs n')(g := WPanic e)\<rparr>)"
| watch_env: "watch_step ix config n (n\<lparr>wSys := s\<rparr>)"

inductive_cases watch_stepE: "watch_step ix config n n'"

inductive watch_run ::
  "('db, 'w) Indexer \<Rightarrow> Configuration \<Rightarrow> ('db, 'w) NodeStatusWatcher \<Rightarrow> ('db, 'w) NodeStatusWatcher \<Rightarrow> bool"
  for ix :: "('db, 'w) Indexer" and config :: Configuration where
  watch_refl: "watch_run ix config n n"
| watch_more: "watch_run ix config n n1 \<Longrightarrow> watch_step ix config n1 n2 \<Longrightarrow> watch_run ix config n n2"

section \<open>The cleaner\<close>

text \<open>\<open>cleanBlockDB\<close>; the error of the deletion is only logged. \<open>NewCleaner\<close> holds the repository of the indexer.\<close>

definition cleanBlockDB :: "('db, 'w) Indexer \<Rightarrow> Configuration \<Rightarrow> ('db, 'w, unit) sys_st" where
  "cleanBlockDB ix config =
     bnd (\<lambda>s. (GetLastBlock (idxExt ix) (idxRepo ix) s, s)) (\<lambda>lastBlock.
     case lastBlock of
       Inl err \<Rightarrow> ret ()
     | Inr b \<Rightarrow>
         bnd (lift (UnmarshallIntToTime (biCreatedAt b))) (\<lambda>lastUpdated.
         (let untilTime = tAdd lastUpdated (- BlockTTL config)
          in bnd (DeleteOldBlocks (idxExt ix) (idxRepo ix) (tUnix untilTime)) (\<lambda>(tot, err). ret ()))))"

text \<open>\<open>CleanBlockDB\<close> after \<open>n\<close> ticks of its ticker.\<close>

fun CleanBlockDB :: "('db, 'w) Indexer \<Rightarrow> Configuration \<Rightarrow> nat \<Rightarrow> ('db, 'w, unit) sys_st" where
  "CleanBlockDB ix config 0 =
     (if CleanInterval config \<le> 0 then lift (Panic ''non-positive interval for NewTicker'') else ret ())"
| "CleanBlockDB ix config (Suc n) = bnd (CleanBlockDB ix config n) (\<lambda>_. cleanBlockDB ix config)"

section \<open>Lemmas\<close>

text \<open>What a tick leaves alone: every other call of \<open>Watch\<close>.\<close>

lemma watch_effect:
  assumes "watch ix config g n = (r, n')"
  shows "(isWatching n' = isWatching n \<and> wpcs n' = wpcs n) \<or>
    (\<not> isWatching n' \<and> wpcs n' = (wpcs n)(g := stop_ticker (wpcs n g)))"
  using assms
  by (auto simp: watch_def bnd_apply on_wSys_def Let_def split: prod.splits outcome.splits sum.splits if_splits)

text \<open>A call past its check, and one whose ticker is stopped and has no tick left.\<close>

definition in_ticks :: "watch_pc \<Rightarrow> bool" where
  "in_ticks p \<longleftrightarrow> (\<exists>r t. p = WTicks r t) \<or> (\<exists>e. p = WPanic e)"

lemma in_ticks_simps [simp]: "in_ticks (WTicks r t)" "in_ticks (WPanic e)" "\<not> in_ticks WCheck" "\<not> in_ticks WStart"
    "\<not> in_ticks WReturned" "\<not> in_ticks WNotCalled"
  by (simp_all add: in_ticks_def)

lemma in_ticks_stop [simp]: "in_ticks (stop_ticker p) = in_ticks p"
  by (cases p) simp_all

lemma watch_step_ticks:
  assumes "watch_step ix config n n'" "in_ticks (wpcs n g)"
  shows "in_ticks (wpcs n' g)"
  using assms
proof cases
  case (watch_tick h running tick notifications)
  then show ?thesis using watch_effect [OF watch_tick(3)] assms(2) by auto
next
  case (watch_tick_panic h running tick e n1)
  then show ?thesis using watch_effect [OF watch_tick_panic(4)] assms(2) by auto
qed (use assms(2) in auto)

lemma watch_run_ticks: "watch_run ix config n n' \<Longrightarrow> in_ticks (wpcs n g) \<Longrightarrow> in_ticks (wpcs n' g)"
  by (induction rule: watch_run.induct) (auto intro: watch_step_ticks)

lemma watch_step_stopped:
  assumes "watch_step ix config n n'" "wpcs n g = WTicks False False"
  shows "wpcs n' g = WTicks False False"
  using assms
proof cases
  case (watch_tick h running tick notifications)
  then have "h \<noteq> g" using assms(2) by auto
  then show ?thesis using watch_effect [OF watch_tick(3)] assms(2) by auto
next
  case (watch_tick_panic h running tick e n1)
  then have "h \<noteq> g" using assms(2) by auto
  then show ?thesis using watch_effect [OF watch_tick_panic(4)] assms(2) watch_tick_panic(1) by auto
qed (use assms(2) in auto)

lemma watch_run_stopped:
  "watch_run ix config n n' \<Longrightarrow> wpcs n g = WTicks False False \<Longrightarrow> wpcs n' g = WTicks False False"
  by (induction rule: watch_run.induct) (auto intro: watch_step_stopped)

end
