(* ===== verification/WatcherProps.thy ===== *)
theory WatcherProps
  imports Watcher BlockProps SampleNode
begin

text \<open>
  The properties of the watcher and the cleaner: when the watcher switches the IPC path, that a call of \<open>Watch\<close>
  that started a ticker never returns, and what the cleaner keeps.
\<close>

lemma tSub_greater_iff: "- (2 ^ 63) \<le> T \<Longrightarrow> T < 2 ^ 63 - 1 \<Longrightarrow> tSub t u > T \<longleftrightarrow> t - u > T"
  unfolding tSub_def by linarith

lemma NextIPC_returns:
  assumes "ipcs \<noteq> []"
  shows "\<exists>p. NextIPC cur ipcs = Ret p"
proof -
  have "(ipc_index cur 0 ipcs + 1) mod length ipcs < length ipcs" using assms by simp
  then show ?thesis using assms by (simp add: NextIPC_def index_at_def Let_def)
qed

lemma ChangeIPC_returns: "\<exists>notifications im'. ChangeIPC im = Ret (notifications, im')"
proof (cases "length (ipcList im) \<le> 1")
  case False
  then have "ipcList im \<noteq> []" by auto
  then obtain p where "NextIPC (curIPC im) (ipcList im) = Ret p" using NextIPC_returns by blast
  then show ?thesis using False by (simp add: ChangeIPC_def Let_def)
qed (simp add: ChangeIPC_def Let_def)

section \<open>The watcher\<close>

text \<open>
  C35. What a tick does: it reads the last block and switches the IPC path, after marking itself as not watching
  and stopping its ticker, exactly when more than the threshold has passed since the block was stored, or when the
  block was stored more than the threshold after the time it carries. Otherwise, and when there is no block, it
  changes nothing but the clock.
\<close>

theorem watcher_switches_iff_late:
  assumes "leveldb_laws x api store" "level_indexer x api ix" "block_map_ok x (store (blockDB (wSys n)))"
    and "store (blockDB (wSys n)) \<noteq> Map.empty" "0 \<le> OOSThreshold config" "OOSThreshold config < 2 ^ 63 - 1"
    and "timeNow (idxRuntime ix) (world (env (wSys n))) = (t, w)"
  shows "\<exists>b c u notifications im. GetLastBlock x (levelRepo x api) (wSys n) = Ret (Inr b) \<and>
    biCreatedAt b = Some c \<and> biTime b = Some u \<and> ChangeIPC (ipcManager (env (wSys n))) = Ret (notifications, im) \<and>
    watch ix config g n =
      (if t - time_Unix c > OOSThreshold config \<or> time_Unix c - time_Unix u > OOSThreshold config
       then (Ret notifications,
             n\<lparr>wSys := (wSys n)\<lparr>env := (env (wSys n))\<lparr>world := w, ipcManager := im\<rparr>\<rparr>, isWatching := False,
               wpcs := (wpcs n)(g := stop_ticker (wpcs n g))\<rparr>)
       else (Ret [], n\<lparr>wSys := (wSys n)\<lparr>env := (env (wSys n))\<lparr>world := w\<rparr>\<rparr>\<rparr>))"
proof -
  obtain b0 where b0: "GetLastBlock x (levelRepo x api) (wSys n) = Ret (Inr (norm_block x b0))" "bi_ok x b0"
    by (rule GetLastBlock_level [OF assms(1,3,4)])
  let ?b = "norm_block x b0"
  obtain c u where cu: "biCreatedAt ?b = Some c" "biTime ?b = Some u" "time_ok c" "time_ok u"
    using b0(2) by (auto simp: bi_ok_def norm_block_def)
  obtain notifications im where ch: "ChangeIPC (ipcManager (env (wSys n))) = Ret (notifications, im)"
    using ChangeIPC_returns by blast
  have sh: "shouldChangeIPC config t ?b =
      Ret (t - time_Unix c > OOSThreshold config \<or> time_Unix c - time_Unix u > OOSThreshold config)"
    using cu assms(5,6)
    by (simp add: shouldChangeIPC_def UnmarshallIntToTime_ok time_ok_def Let_def tSub_greater_iff)
  have ix: "idxExt ix = x" "idxRepo ix = levelRepo x api" using assms(2) by (simp_all add: level_indexer_def)
  have "watch ix config g n =
      (if t - time_Unix c > OOSThreshold config \<or> time_Unix c - time_Unix u > OOSThreshold config
       then (Ret notifications,
             n\<lparr>wSys := (wSys n)\<lparr>env := (env (wSys n))\<lparr>world := w, ipcManager := im\<rparr>\<rparr>, isWatching := False,
               wpcs := (wpcs n)(g := stop_ticker (wpcs n g))\<rparr>)
       else (Ret [], n\<lparr>wSys := (wSys n)\<lparr>env := (env (wSys n))\<lparr>world := w\<rparr>\<rparr>\<rparr>))"
    using b0(1) sh ch assms(7)
    by (simp add: watch_def bnd_apply on_wSys_def now_def on_env_def on_world_def on_ipc_def ix)
  then show ?thesis using b0(1) cu ch by blast
qed

text \<open>The sample block, stored long after its time.\<close>

definition sLate :: "(refdb, unit) Sys" where
  "sLate = sSys\<lparr>blockDB := RBT.insert (MarshallBlockKey (dec 7)) (block_value refExt (sBlock (dec 7))) RBT.empty,
               env := (env sSys)\<lparr>ipcManager := snd (SetIPC [''a'', ''b''] newIpcManager)\<rparr>\<rparr>"

definition sConfig :: Configuration where
  "sConfig = zeroConfiguration\<lparr>CleanInterval := 5 * Minute, BlockTTL := 4 * Hour, WatcherInterval := 5 * Minute,
     OOSThreshold := 300 * Second, NumBatch := 8\<rparr>"

lemma sLate_ok: "block_map_ok refExt (RBT.lookup (blockDB sLate))" "RBT.lookup (blockDB sLate) \<noteq> Map.empty"
proof -
  have l: "RBT.lookup (blockDB sLate) = Map.empty(MarshallBlockKey (dec 7) \<mapsto> block_value refExt (sBlock (dec 7)))"
    by (simp add: sLate_def fun_eq_iff)
  have "bi_ok refExt (sBlock (dec 7))" by (rule sBlock_ok) (rule refl)
  then show "block_map_ok refExt (RBT.lookup (blockDB sLate))"
    unfolding l by (auto simp: block_map_ok_def sBlock_def)
  show "RBT.lookup (blockDB sLate) \<noteq> Map.empty" unfolding l by simp
qed

lemma sLate_last: "GetLastBlock refExt (levelRepo refExt refLevel) sLate = Ret (Inr (norm_block refExt (sBlock (dec 7))))"
proof -
  let ?k = "MarshallBlockKey (dec 7)" and ?v = "block_value refExt (sBlock (dec 7))"
  have l: "RBT.lookup (blockDB sLate) = Map.empty(?k \<mapsto> ?v)" by (simp add: sLate_def fun_eq_iff)
  have "kvs (RBT.lookup (blockDB sLate)) = [] @ [\<lparr>kvKey = ?k, kvValue = ?v\<rparr>]" unfolding l by (simp add: kvs_def)
  from index_repo.GetLastBlock_snoc [OF leveldb_laws.level_repo [OF ref_level_laws] this]
  have "GetLastBlock refExt (levelRepo refExt refLevel) sLate =
      obind (keyValueToBlockIndex refExt \<lparr>kvKey = ?k, kvValue = ?v\<rparr>) (\<lambda>b. Ret (Inr b))" .
  moreover have "keyValueToBlockIndex refExt \<lparr>kvKey = ?k, kvValue = ?v\<rparr> = Ret (norm_block refExt (sBlock (dec 7)))"
    using external.keyValueToBlockIndex_ok [OF ref_ext.external_axioms sBlock_ok [OF refl], of 7] by (simp add: sBlock_def)
  ultimately show ?thesis by simp
qed

text \<open>A watching watcher on it, in its first call of \<open>Watch\<close>.\<close>

definition sWatching :: "(refdb, unit) NodeStatusWatcher" where
  "sWatching = \<lparr>wSys = sLate, isWatching = True, wpcs = (\<lambda>_. WReturned)(0 := WTicks True False)\<rparr>"

theorem watcher_switches_iff_late_witness:
  "\<exists>n. watch sIndexer sConfig 0 sWatching = (Ret [], n) \<and> \<not> isWatching n \<and> wpcs n 0 = WTicks False False \<and>
     GetIPC (ipcManager (env (wSys n))) = ''b''"
proof -
  have t: "timeNow (idxRuntime sIndexer) (world (env (wSys sWatching))) = (time_Unix 1550000000, ())"
    by (simp add: sIndexer_def sRuntime_def)
  have w: "wSys sWatching = sLate" by (simp add: sWatching_def)
  have T: "0 \<le> OOSThreshold sConfig" "OOSThreshold sConfig < 2 ^ 63 - 1" by (simp_all add: sConfig_def Second_def)
  have ok: "block_map_ok refExt (RBT.lookup (blockDB (wSys sWatching)))" "RBT.lookup (blockDB (wSys sWatching)) \<noteq> Map.empty"
    unfolding w by (rule sLate_ok)+
  obtain b c u notifications im where r: "GetLastBlock refExt (levelRepo refExt refLevel) sLate = Ret (Inr b)"
    "biCreatedAt b = Some c" "biTime b = Some u" "ChangeIPC (ipcManager (env sLate)) = Ret (notifications, im)"
    "watch sIndexer sConfig 0 sWatching =
      (if time_Unix 1550000000 - time_Unix c > OOSThreshold sConfig \<or> time_Unix c - time_Unix u > OOSThreshold sConfig
       then (Ret notifications,
             sWatching\<lparr>wSys := sLate\<lparr>env := (env sLate)\<lparr>world := (), ipcManager := im\<rparr>\<rparr>, isWatching := False,
               wpcs := (wpcs sWatching)(0 := stop_ticker (wpcs sWatching 0))\<rparr>)
       else (Ret [], sWatching\<lparr>wSys := sLate\<lparr>env := (env sLate)\<lparr>world := ()\<rparr>\<rparr>\<rparr>))"
    using watcher_switches_iff_late [OF ref_level_laws sIndexer_level ok T t, of 0] unfolding w by blast
  have "b = norm_block refExt (sBlock (dec 7))" using r(1) sLate_last by simp
  then have "c = 1550000000" "u = 1500000000" using r(2,3) by (simp_all add: norm_block_def sBlock_def)
  then have late: "time_Unix c - time_Unix u > OOSThreshold sConfig" by (simp add: sConfig_def time_Unix_def Second_def)
  have "ChangeIPC (ipcManager (env sLate)) =
      Ret ([], \<lparr>ipcList = [''a'', ''b''], curIPC = ''b'', subscribers = [], switchIPCCounter = 1\<rparr>)"
    by (simp add: sLate_def SetIPC_def newIpcManager_def ChangeIPC_def NextIPC_def index_at_def)
  then have "notifications = []" "curIPC im = ''b''" using r(4) by auto
  then show ?thesis using r(5) late by (auto simp: sWatching_def GetIPC_def)
qed

text \<open>
  A call of \<open>Watch\<close> that has started its ticker never returns, whatever the calls of \<open>Watch\<close> and the rest of the
  program do: a stopped ticker does not close its channel. Once it is stopped and no tick is left the call waits
  forever. So does \<open>index\<close>, which waits for it.
\<close>

lemma watch_never_returns:
  assumes "watch_run ix config n n'" "wpcs n g = WTicks running tick"
  shows "wpcs n' g \<noteq> WReturned \<and> (\<not> running \<and> \<not> tick \<longrightarrow> wpcs n' g = WTicks False False)"
proof -
  have "in_ticks (wpcs n' g)" using watch_run_ticks [OF assms(1), of g] assms(2) by simp
  then show ?thesis using watch_run_stopped [OF assms(1), of g] assms(2) by auto
qed

text \<open>The watcher whose ticker was stopped by a switch.\<close>

section \<open>The cleaner\<close>

lemma created_of_block:
  assumes "bi_ok x b" "biCreatedAt b = Some c"
  shows "created_of \<lparr>kvKey = k, kvValue = block_value x b\<rparr> = c"
proof -
  have c: "time_ok c" using assms by (auto simp: bi_ok_def)
  then have "take 4 (block_value x b) = MarshallTime (Some c)" by (simp add: block_value_def assms(2))
  then show ?thesis
    using UnmarshallTimeToInt_Marshall [OF c] by (simp add: created_of_def UnmarshallTimeToInt_def)
qed

text \<open>Blocks with the same record are read alike.\<close>

lemma GetLastBlock_greatest:
  assumes "leveldb_laws x api store" "block_map_ok x (store (blockDB s))" "bi_ok x b"
    and "store (blockDB s) (MarshallBlockKey (biBlockNumber b)) = Some (block_value x b)"
    and "\<forall>k \<in> dom (store (blockDB s)). k \<le> MarshallBlockKey (biBlockNumber b)"
  shows "GetLastBlock x (levelRepo x api) s = Ret (Inr (norm_block x b))"
proof -
  have ne: "store (blockDB s) \<noteq> Map.empty" using assms(4) by auto
  have ext: "external x" using index_repo.axioms(1) [OF leveldb_laws.level_repo [OF assms(1)]] .
  obtain b' where b': "GetLastBlock x (levelRepo x api) s = Ret (Inr (norm_block x b'))" "bi_ok x b'"
    "store (blockDB s) (MarshallBlockKey (biBlockNumber b')) = Some (block_value x b')"
    "\<forall>k \<in> dom (store (blockDB s)). k \<le> MarshallBlockKey (biBlockNumber b')"
    by (rule GetLastBlock_level [OF assms(1,2) ne])
  have key: "MarshallBlockKey (biBlockNumber b') = MarshallBlockKey (biBlockNumber b)"
    using assms(4,5) b'(3,4) by (meson antisym domI)
  then have "block_value x b' = block_value x b" using assms(4) b'(3) by simp
  then have "norm_block x b' = norm_block x b"
    using external.keyValueToBlockIndex_ok [OF ext b'(2)] external.keyValueToBlockIndex_ok [OF ext assms(3)] key by simp
  then show ?thesis using b'(1) by simp
qed

text \<open>
  C36. A round of the cleaner on a well-formed block database returns and touches neither the addresses nor the
  batches. It keeps the last block, which stays the last one, and every block that was created at most the time to
  live before it.
\<close>

theorem cleaner_keeps_recent:
  assumes "leveldb_laws x api store" "level_writes api" "level_indexer x api ix" "block_map_ok x (store (blockDB s))"
    and "store (blockDB s) \<noteq> Map.empty" "0 \<le> BlockTTL config"
  shows "\<exists>s' b c. cleanBlockDB ix config s = (Ret (), s') \<and> s' = s\<lparr>blockDB := blockDB s'\<rparr> \<and>
    store (blockDB s') \<subseteq>\<^sub>m store (blockDB s) \<and> block_map_ok x (store (blockDB s')) \<and>
    GetLastBlock x (levelRepo x api) s = Ret (Inr b) \<and> GetLastBlock x (levelRepo x api) s' = Ret (Inr b) \<and> biCreatedAt b = Some c \<and>
    (\<forall>k v. store (blockDB s) k = Some v \<longrightarrow> time_Unix c - BlockTTL config \<le> time_Unix (created_of \<lparr>kvKey = k, kvValue = v\<rparr>) \<longrightarrow>
       store (blockDB s') k = Some v)"
proof -
  let ?m = "store (blockDB s)"
  have ix: "idxExt ix = x" "idxRepo ix = levelRepo x api" using assms(3) by (simp_all add: level_indexer_def)
  have fin: "finite (dom ?m)" by (rule kv_dao.dao_finite [OF leveldb_laws.level_dao [OF assms(1)]])
  obtain b where b: "GetLastBlock x (levelRepo x api) s = Ret (Inr (norm_block x b))" "bi_ok x b"
    "?m (MarshallBlockKey (biBlockNumber b)) = Some (block_value x b)"
    "\<forall>k \<in> dom ?m. k \<le> MarshallBlockKey (biBlockNumber b)"
    by (rule GetLastBlock_level [OF assms(1,4,5)])
  obtain c where c: "biCreatedAt b = Some c" "time_ok c" using b(2) by (auto simp: bi_ok_def)
  define u where "u = tUnix (tAdd (time_Unix c) (- BlockTTL config))"
  let ?old = "\<lambda>kv. created_of kv < u"
  obtain n s' where d: "DeleteOldBlocks x (levelRepo x api) u s = (Ret (n, None), s')"
    using DeleteOldBlocks_level_returns [OF assms(1,2,4)] by blast
  obtain e where e: "s' = s\<lparr>blockDB := e\<rparr>" "store e = delete_all (map kvKey (takeWhile ?old (kvs ?m))) ?m"
    by (rule index_repo.DeleteOldBlocks_Ret [OF leveldb_laws.level_repo [OF assms(1)] assms(4) d])
  have clean: "cleanBlockDB ix config s = (Ret (), s')"
    using b(1) c d by (simp add: cleanBlockDB_def bnd_apply ix norm_block_def UnmarshallIntToTime_ok time_ok_def u_def)
  have kept: "store (blockDB s') k = Some v"
    if k: "?m k = Some v" and recent: "u \<le> created_of \<lparr>kvKey = k, kvValue = v\<rparr>" for k v
  proof -
    have "k \<notin> kvKey ` set (takeWhile ?old (kvs ?m))"
    proof
      assume "k \<in> kvKey ` set (takeWhile ?old (kvs ?m))"
      then obtain kv where kv: "kv \<in> set (kvs ?m)" "?old kv" "kvKey kv = k" by (auto dest: set_takeWhileD)
      then have "kv = \<lparr>kvKey = k, kvValue = v\<rparr>" using set_kvs [OF fin, of kv] k by simp
      then show False using kv(2) recent by simp
    qed
    then show ?thesis using k by (simp add: e delete_all_def restrict_map_def)
  qed
  have u: "u * Second \<le> time_Unix c - BlockTTL config"
    using div_mult_le [of Second "time_Unix c - BlockTTL config"]
    by (simp add: u_def tUnix_def tAdd_def Second_def)
  have recent: "u \<le> v" if "time_Unix c - BlockTTL config \<le> time_Unix v" for v
    using u that by (simp add: time_Unix_def Second_def)
  have "u \<le> c" using recent [of c] assms(6) by simp
  then have last: "store (blockDB s') (MarshallBlockKey (biBlockNumber b)) = Some (block_value x b)"
    using kept [OF b(3)] created_of_block [OF b(2) c(1)] by simp
  have sub: "store (blockDB s') \<subseteq>\<^sub>m ?m" by (auto simp: e delete_all_def map_le_def restrict_map_def)
  have ok: "block_map_ok x (store (blockDB s'))" using assms(4) by (simp add: e block_map_ok_delete)
  have "\<forall>k \<in> dom (store (blockDB s')). k \<le> MarshallBlockKey (biBlockNumber b)"
    using b(4) sub by (meson map_le_implies_dom_le subsetD)
  then have "GetLastBlock x (levelRepo x api) s' = Ret (Inr (norm_block x b))"
    by (rule GetLastBlock_greatest [OF assms(1) ok b(2) last])
  moreover have "biCreatedAt (norm_block x b) = Some c" using c by (simp add: norm_block_def)
  moreover have "s' = s\<lparr>blockDB := blockDB s'\<rparr>" by (simp add: e)
  ultimately show ?thesis using clean sub ok b(1) kept recent by blast
qed

theorem cleaner_keeps_recent_witness:
  "\<exists>s'. cleanBlockDB sIndexer sConfig sLate = (Ret (), s') \<and> batchDB s' = batchDB sLate \<and>
     GetLastBlock refExt (levelRepo refExt refLevel) s' = GetLastBlock refExt (levelRepo refExt refLevel) sLate"
proof -
  have "0 \<le> BlockTTL sConfig" by (simp add: sConfig_def Hour_def Minute_def Second_def)
  from cleaner_keeps_recent [OF ref_level_laws level_writes_ref sIndexer_level sLate_ok this]
  obtain s' b where s': "cleanBlockDB sIndexer sConfig sLate = (Ret (), s')" "s' = sLate\<lparr>blockDB := blockDB s'\<rparr>"
    "GetLastBlock refExt (levelRepo refExt refLevel) sLate = Ret (Inr b)"
    "GetLastBlock refExt (levelRepo refExt refLevel) s' = Ret (Inr b)"
    by blast
  have "batchDB s' = batchDB sLate" by (subst s'(2)) simp
  then show ?thesis using s'(1,3,4) by simp
qed

end
