(* ===== verification/Realtime.thy ===== *)
theory Realtime
  imports Watcher
begin

text \<open>
  The realtime index (\<open>RealtimeFetch\<close> and \<open>IpcUpdated\<close> of \<open>fetcher/fetch.go\<close>, \<open>index\<close>, \<open>realtimeIndex\<close> and
  \<open>IpcUpdated\<close> of \<open>indexer/indexer.go\<close>).
  \<^item> Two goroutines pass blocks on: the fetcher receives headers, fetches their blocks and sends these over a channel
    without a buffer to \<open>realtimeIndex\<close>, which processes them. \<open>rt_own\<close> has one step per channel operation, call on
    the node and block processed; a send and its receive are one step.
  \<^item> \<open>rt_step\<close> adds what others do: \<open>IpcUpdated\<close> closes the channel of the headers, and everything else the program
    does may change the state meanwhile. A header is sent by the node while that channel is open.
  \<^item> \<open>received\<close>, \<open>fetched\<close> and \<open>processed\<close> are ghost fields, the history of the two goroutines.
\<close>

section \<open>The two goroutines\<close>

datatype fetch_pc = FStart | FSubscribe | FReceive | FFetch "int option" | FSend BLockDetail | FReturned

datatype index_pc = IReceive | IProcess BLockDetail | IReturned | IPanicked string | ILooping

record ('db, 'w) Realtime =
  rtSys :: "('db, 'w) Sys"
  rtFetch :: fetch_pc
  rtIndex :: index_pc
  headersClosed :: bool
  bdClosed :: bool
  realtimeFetcher :: bool
  received :: "int option list"
  fetched :: "BLockDetail list"
  processed :: "BLockDetail list"

text \<open>The state when \<open>realtimeIndex\<close> has started \<open>RealtimeFetch\<close>.\<close>

definition rt_start :: "('db, 'w) Sys \<Rightarrow> ('db, 'w) Realtime" where
  "rt_start s =
     \<lparr>rtSys = s, rtFetch = FStart, rtIndex = IReceive, headersClosed = False, bdClosed = False, realtimeFetcher = True,
      received = [], fetched = [], processed = []\<rparr>"

text \<open>The body of the loop of \<open>realtimeIndex\<close>: the time of the block is read for the log; the error is dropped.\<close>

definition rt_process :: "('db, 'w) Indexer \<Rightarrow> BLockDetail \<Rightarrow> ('db, 'w, unit) sys_st" where
  "rt_process ix blockDetail =
     bnd (lift (UnmarshallIntToTime (bdTime blockDetail))) (\<lambda>_.
     bnd (ProcessBlock ix blockDetail False) (\<lambda>_. ret ()))"

inductive rt_own :: "('db, 'w) Indexer \<Rightarrow> ('db, 'w) Realtime \<Rightarrow> ('db, 'w) Realtime \<Rightarrow> bool"
  for ix :: "('db, 'w) Indexer" where
  rt_make: "rtFetch r = FStart \<Longrightarrow> rt_own ix r (r\<lparr>rtFetch := FSubscribe\<rparr>)"
| rt_subscribed: "rtFetch r = FSubscribe \<Longrightarrow>
    on_env (on_world (SubscribeNewHead (idxClient ix))) (rtSys r) = (Ret None, s) \<Longrightarrow>
    rt_own ix r (r\<lparr>rtSys := s, rtFetch := FReceive\<rparr>)"
| rt_refused: "rtFetch r = FSubscribe \<Longrightarrow>
    on_env (on_world (SubscribeNewHead (idxClient ix))) (rtSys r) = (Ret (Some err), s) \<Longrightarrow>
    on_env switchIPC s = (Ret (), s') \<Longrightarrow>
    rt_own ix r (r\<lparr>rtSys := s', rtFetch := FReturned\<rparr>)"
| rt_header: "rtFetch r = FReceive \<Longrightarrow> \<not> headersClosed r \<Longrightarrow>
    rt_own ix r (r\<lparr>rtFetch := FFetch blockNumber, received := received r @ [blockNumber]\<rparr>)"
| rt_no_header: "rtFetch r = FReceive \<Longrightarrow> headersClosed r \<Longrightarrow>
    rt_own ix r (r\<lparr>rtFetch := FReturned, bdClosed := True\<rparr>)"
| rt_fetched: "rtFetch r = FFetch blockNumber \<Longrightarrow>
    on_env (FetchABlock (idxClient ix) blockNumber) (rtSys r) = (Ret (Inr blockDetail), s) \<Longrightarrow>
    rt_own ix r (r\<lparr>rtSys := s, rtFetch := FSend blockDetail, fetched := fetched r @ [blockDetail]\<rparr>)"
| rt_not_fetched: "rtFetch r = FFetch blockNumber \<Longrightarrow>
    on_env (FetchABlock (idxClient ix) blockNumber) (rtSys r) = (Ret (Inl err), s) \<Longrightarrow>
    rt_own ix r (r\<lparr>rtSys := s, rtFetch := FReturned, bdClosed := True\<rparr>)"
| rt_handover: "rtFetch r = FSend blockDetail \<Longrightarrow> rtIndex r = IReceive \<Longrightarrow>
    rt_own ix r (r\<lparr>rtFetch := FReceive, rtIndex := IProcess blockDetail\<rparr>)"
| rt_processed: "rtIndex r = IProcess blockDetail \<Longrightarrow> rt_process ix blockDetail (rtSys r) = (Ret (), s) \<Longrightarrow>
    rt_own ix r (r\<lparr>rtSys := s, rtIndex := IReceive, processed := processed r @ [blockDetail]\<rparr>)"
| rt_panics: "rtIndex r = IProcess blockDetail \<Longrightarrow> rt_process ix blockDetail (rtSys r) = (Panic e, s) \<Longrightarrow>
    rt_own ix r (r\<lparr>rtSys := s, rtIndex := IPanicked e\<rparr>)"
| rt_loops: "rtIndex r = IProcess blockDetail \<Longrightarrow> rt_process ix blockDetail (rtSys r) = (Diverge, s) \<Longrightarrow>
    rt_own ix r (r\<lparr>rtSys := s, rtIndex := ILooping\<rparr>)"
| rt_stopped: "rtIndex r = IReceive \<Longrightarrow> bdClosed r \<Longrightarrow>
    rt_own ix r (r\<lparr>rtIndex := IReturned, realtimeFetcher := False\<rparr>)"

text \<open>\<open>IpcUpdated\<close> of the fetcher closes the channel of the headers if \<open>RealtimeFetch\<close> has made it.\<close>

inductive rt_step :: "('db, 'w) Indexer \<Rightarrow> ('db, 'w) Realtime \<Rightarrow> ('db, 'w) Realtime \<Rightarrow> bool"
  for ix :: "('db, 'w) Indexer" where
  rt_goroutine: "rt_own ix r t \<Longrightarrow> rt_step ix r t"
| rt_close: "\<not> headersClosed r \<Longrightarrow> rtFetch r \<noteq> FStart \<Longrightarrow> rt_step ix r (r\<lparr>headersClosed := True\<rparr>)"
| rt_env: "rt_step ix r (r\<lparr>rtSys := s\<rparr>)"

inductive rt_run :: "('db, 'w) Indexer \<Rightarrow> ('db, 'w) Realtime \<Rightarrow> ('db, 'w) Realtime \<Rightarrow> bool"
  for ix :: "('db, 'w) Indexer" where
  rt_refl: "rt_run ix r r"
| rt_more: "rt_run ix r t \<Longrightarrow> rt_step ix t u \<Longrightarrow> rt_run ix r u"

inductive_cases rt_ownE: "rt_own ix r t"
inductive_cases rt_stepE: "rt_step ix r t"

section \<open>Starting the index\<close>

text \<open>
  The fields of the indexer that \<open>index\<close> sets: the stop channel (none, or whether it is closed) and whether there is
  a realtime fetcher.
\<close>

record ('db, 'w) IndexState =
  xSys :: "('db, 'w) Sys"
  stopChan :: "bool option"
  hasFetcher :: bool

definition on_xSys :: "('db, 'w, 'a) sys_st \<Rightarrow> (('db, 'w) IndexState, 'a) st" where
  "on_xSys m = (\<lambda>n. let (r, s) = m (xSys n) in (r, n\<lparr>xSys := s\<rparr>))"

definition on_manager :: "(IpcManager \<Rightarrow> IpcManager) \<Rightarrow> ('db, 'w, unit) sys_st" where
  "on_manager f = on_env (\<lambda>e. (Ret (), e\<lparr>ipcManager := f (ipcManager e)\<rparr>))"

text \<open>
  \<open>index\<close> up to the start of its goroutines; the result is the batches to index, none when it returns before. First
  the part from the new fetcher on, then the whole; \<open>sub\<close> is the address of the indexer.
\<close>

definition index_fetch :: "('db, 'w) Indexer \<Rightarrow> (('db, 'w) IndexState, BatchStatus list option) st" where
  "index_fetch ix =
     bnd (on_xSys (on_env (NewChainFetch (idxClient ix)))) (\<lambda>err.
     if err \<noteq> None then bnd (\<lambda>n. (Ret (), n\<lparr>hasFetcher := False\<rparr>)) (\<lambda>_. ret None)
     else
       bnd (\<lambda>n. (Ret (), n\<lparr>hasFetcher := True\<rparr>)) (\<lambda>_.
       bnd (on_xSys (on_env (GetLatestBlock (idxClient ix)))) (\<lambda>r.
       case r of
         Inl err \<Rightarrow> ret None
       | Inr latestBlock \<Rightarrow> bnd (on_xSys (getBatches ix latestBlock)) (\<lambda>batches. ret (Some batches)))))"

definition index_setup ::
  "('db, 'w) Indexer \<Rightarrow> nat \<Rightarrow> bool \<Rightarrow> (('db, 'w) IndexState, BatchStatus list option) st" where
  "index_setup ix sub indexAfterIPCChange =
     bnd (on_xSys (on_manager EnableSwitchIPC)) (\<lambda>_.
     bnd (\<lambda>n. (Ret (), n\<lparr>stopChan := Some False\<rparr>)) (\<lambda>_.
     bnd (if \<not> indexAfterIPCChange then on_xSys (on_manager (Subscribe sub)) else ret ()) (\<lambda>_.
     index_fetch ix)))"

definition FirstIndex :: "('db, 'w) Indexer \<Rightarrow> nat \<Rightarrow> (('db, 'w) IndexState, BatchStatus list option) st" where
  "FirstIndex ix sub = index_setup ix sub False"

text \<open>\<open>close(indexer.stopChan)\<close>, not done for a nil channel.\<close>

definition close_stop :: "(('db, 'w) IndexState, unit) st" where
  "close_stop =
     (\<lambda>n. case stopChan n of
            None \<Rightarrow> (Ret (), n)
          | Some isClosed \<Rightarrow>
              (if isClosed then (Panic ''close of closed channel'', n) else (Ret (), n\<lparr>stopChan := Some True\<rparr>)))"

text \<open>
  \<open>IpcUpdated\<close> of the indexer; that of the fetcher closes the header channel, which is \<open>rt_close\<close>, and the
  connection.
\<close>

definition IndexerIpcUpdated :: "('db, 'w) Indexer \<Rightarrow> nat \<Rightarrow> (('db, 'w) IndexState, BatchStatus list option) st" where
  "IndexerIpcUpdated ix sub =
     bnd (\<lambda>n. if hasFetcher n then on_xSys (on_env (on_world (ethClose (idxClient ix)))) n else ret () n) (\<lambda>_.
     bnd close_stop (\<lambda>_. index_setup ix sub True))"

text \<open>
  The life of an indexer: \<open>FirstIndex\<close>, then notifications, each of which may end early. In between the rest of the
  program changes the state, other subscribers come, and \<open>realtimeIndex\<close> may end and drop the fetcher.
\<close>

inductive index_life ::
  "('db, 'w) Indexer \<Rightarrow> nat \<Rightarrow> ('db, 'w) IndexState \<Rightarrow> ('db, 'w) IndexState \<Rightarrow> bool"
  for ix :: "('db, 'w) Indexer" and sub :: nat and n0 :: "('db, 'w) IndexState" where
  life_first: "FirstIndex ix sub n0 = (r, n) \<Longrightarrow> index_life ix sub n0 n"
| life_updated: "index_life ix sub n0 n \<Longrightarrow> IndexerIpcUpdated ix sub n = (r, n') \<Longrightarrow> index_life ix sub n0 n'"
| life_env: "index_life ix sub n0 n \<Longrightarrow> sub \<notin> set others \<Longrightarrow>
    subscribers (ipcManager (env s)) = subscribers (ipcManager (env (xSys n))) @ others \<Longrightarrow>
    index_life ix sub n0 (n\<lparr>xSys := s, hasFetcher := b\<rparr>)"

end
