(* ===== verification/RealtimeProps.thy ===== *)
theory RealtimeProps
  imports Realtime IndexerProps SampleNode
begin

text \<open>
  The properties of the realtime index: the order of the blocks, the end of the two goroutines when the header channel
  is closed, the subscription that is refused, and the subscriptions of the indexer to the IPC manager.
\<close>

section \<open>Order\<close>

definition in_fetch :: "('db, 'w) Realtime \<Rightarrow> BLockDetail list" where
  "in_fetch r = (case rtFetch r of FSend bd \<Rightarrow> [bd] | _ \<Rightarrow> [])"

text \<open>The block that \<open>realtimeIndex\<close> works on, also after it failed on it.\<close>

definition in_index :: "index_pc \<Rightarrow> BLockDetail list \<Rightarrow> bool" where
  "in_index pc cur \<longleftrightarrow>
     (case pc of IReceive \<Rightarrow> cur = [] | IReturned \<Rightarrow> cur = [] | IProcess bd \<Rightarrow> cur = [bd] | _ \<Rightarrow> length cur = 1)"

definition gives :: "('db, 'w) Indexer \<Rightarrow> int option \<Rightarrow> BLockDetail \<Rightarrow> bool" where
  "gives ix blockNumber bd \<longleftrightarrow> (\<exists>e e'. FetchABlock (idxClient ix) blockNumber e = (Ret (Inr bd), e'))"

definition unanswered :: "fetch_pc \<Rightarrow> int option list \<Rightarrow> bool" where
  "unanswered pc l \<longleftrightarrow> (case pc of FFetch n \<Rightarrow> l = [n] | FReturned \<Rightarrow> length l \<le> 1 | _ \<Rightarrow> l = [])"

definition order_inv :: "('db, 'w) Indexer \<Rightarrow> ('db, 'w) Realtime \<Rightarrow> bool" where
  "order_inv ix r \<longleftrightarrow>
     (\<exists>cur. in_index (rtIndex r) cur \<and> fetched r = processed r @ cur @ in_fetch r) \<and>
     (\<exists>hs l. unanswered (rtFetch r) l \<and> received r = hs @ l \<and> list_all2 (gives ix) hs (fetched r))"

lemmas order_defs = in_fetch_def in_index_def unanswered_def

text \<open>The two parts of the invariant depend on the fields of their goroutine only.\<close>

lemma order_invI:
  assumes "in_index (rtIndex r) cur" "fetched r = processed r @ cur @ in_fetch r"
    and "unanswered (rtFetch r) l" "received r = hs @ l" "list_all2 (gives ix) hs (fetched r)"
  shows "order_inv ix r"
  using assms unfolding order_inv_def by blast

lemma order_inv_own:
  assumes "rt_own ix r t" "order_inv ix r"
  shows "order_inv ix t"
proof -
  obtain cur hs l where inv: "in_index (rtIndex r) cur" "fetched r = processed r @ cur @ in_fetch r"
    "unanswered (rtFetch r) l" "received r = hs @ l" "list_all2 (gives ix) hs (fetched r)"
    using assms(2) unfolding order_inv_def by blast
  from assms(1) show ?thesis
  proof cases
    case (rt_header n)
    then show ?thesis using inv by (intro order_invI [of t cur "[n]" hs]) (auto simp: order_defs)
  next
    case (rt_fetched n bd s)
    have "gives ix n bd"
      using rt_fetched(3) by (auto simp: gives_def on_env_def split: prod.splits)
    then have "list_all2 (gives ix) (hs @ [n]) (fetched r @ [bd])" using inv(5) by (simp add: list_all2_appendI)
    moreover have "fetched r = processed r @ cur" "l = [n]" using inv(2,3) rt_fetched(2) by (simp_all add: order_defs)
    ultimately show ?thesis
      using inv(1,4) rt_fetched(1) by (intro order_invI [of t cur "[]" "hs @ [n]"]) (simp_all add: order_defs)
  next
    case (rt_not_fetched n err s)
    then show ?thesis using inv by (intro order_invI [of t cur "[n]" hs]) (auto simp: order_defs)
  next
    case (rt_handover bd)
    then show ?thesis using inv by (intro order_invI [of t "[bd]" l hs]) (auto simp: order_defs)
  next
    case (rt_processed bd s)
    then show ?thesis using inv by (intro order_invI [of t "[]" l hs]) (auto simp: order_defs)
  qed (use inv in \<open>intro order_invI [of t cur l hs]; auto simp: order_defs\<close>)+
qed

lemma order_inv_step: "rt_step ix r t \<Longrightarrow> order_inv ix r \<Longrightarrow> order_inv ix t"
proof (erule rt_stepE)
  assume "order_inv ix r" "rt_own ix r t"
  then show "order_inv ix t" using order_inv_own by blast
qed (simp_all add: order_inv_def in_fetch_def)

lemma order_inv_run: "rt_run ix r t \<Longrightarrow> order_inv ix r \<Longrightarrow> order_inv ix t"
  by (induction rule: rt_run.induct) (auto intro: order_inv_step)

lemma order_inv_start: "order_inv ix (rt_start s)"
  by (simp add: order_inv_def rt_start_def order_defs)

text \<open>
  C32. Blocks are processed in real time in the order of their headers: at every point of every run the processed
  blocks are the first of those fetched, of which at most two are still on their way, and the fetched ones are what
  the node gave for the headers received, one by one; at most one header is not answered.
\<close>

theorem realtime_in_order:
  assumes "rt_run ix (rt_start s) r"
  shows "\<exists>hs l way. received r = hs @ l \<and> length l \<le> 1 \<and> list_all2 (gives ix) hs (fetched r) \<and>
    fetched r = processed r @ way \<and> length way \<le> 2"
proof -
  obtain cur hs l where inv: "in_index (rtIndex r) cur" "fetched r = processed r @ cur @ in_fetch r"
    "unanswered (rtFetch r) l" "received r = hs @ l" "list_all2 (gives ix) hs (fetched r)"
    using order_inv_run [OF assms order_inv_start] unfolding order_inv_def by blast
  have "length l \<le> 1" using inv(3) by (auto simp: unanswered_def split: fetch_pc.splits)
  moreover have "length cur \<le> 1" using inv(1) by (auto simp: in_index_def split: index_pc.splits)
  then have "length (cur @ in_fetch r) \<le> 2" by (simp add: in_fetch_def split: fetch_pc.split)
  ultimately show ?thesis using inv(2,4,5) by blast
qed

text \<open>On the sample node the block 7 goes all the way.\<close>

lemma sProcessed: "\<exists>s. rt_process sIndexer (sBd 7) sSys = (Ret (), s)"
proof -
  obtain b s2 where b: "ProcessBlock sIndexer (sBd 7) False sSys =
      Store refExt (levelRepo refExt refLevel) (numbered (block_entries (sBd 7))) b False s2"
    "blockDB s2 = blockDB sSys" "bi_ok refExt b"
    by (rule ProcessBlock_index [OF sIndexer_level sBd_ok [of 7]]) simp_all
  have m: "RBT.lookup (blockDB s2) = Map.empty" by (simp add: b(2) fun_eq_iff)
  have "block_map_ok refExt (RBT.lookup (blockDB s2))" "old_seqs_ok refExt (RBT.lookup (blockDB s2)) (biBlockNumber b)"
    unfolding m by (simp_all add: block_map_ok_def old_seqs_ok_def)
  from Store_level [OF ref_level_laws level_writes_ref block_values [OF sBd_ok [of 7]] b(3) this]
  obtain s' where "Store refExt (levelRepo refExt refLevel) (numbered (block_entries (sBd 7))) b False s2 = (Ret None, s')"
    by auto
  then show ?thesis using b(1) by (simp add: rt_process_def bnd_apply sBd_def UnmarshallIntToTime_ok)
qed

text \<open>The run up to the point where the fetcher waits for headers.\<close>

definition sReceiving :: "(refdb, unit) Realtime" where
  "sReceiving = (rt_start sSys)\<lparr>rtFetch := FReceive\<rparr>"

lemma sReceiving_run: "rt_run sIndexer (rt_start sSys) sReceiving"
proof -
  let ?r1 = "(rt_start sSys)\<lparr>rtFetch := FSubscribe\<rparr>"
  have "rt_own sIndexer (rt_start sSys) ?r1" by (rule rt_make) (simp add: rt_start_def)
  moreover have "on_env (on_world (SubscribeNewHead (idxClient sIndexer))) (rtSys ?r1) = (Ret None, rtSys ?r1)"
    by (simp add: on_env_def on_world_def sClient_def rt_start_def)
  from rt_subscribed [OF _ this] have "rt_own sIndexer ?r1 sReceiving" by (simp add: sReceiving_def rt_start_def)
  ultimately show ?thesis by (meson rt_refl rt_more rt_goroutine)
qed

theorem realtime_in_order_witness:
  "\<exists>r. rt_run sIndexer (rt_start sSys) r \<and> received r = [Some 7] \<and> processed r = [sBd 7] \<and> fetched r = processed r"
proof -
  obtain s where s: "rt_process sIndexer (sBd 7) sSys = (Ret (), s)" using sProcessed by blast
  let ?r1 = "sReceiving\<lparr>rtFetch := FFetch (Some 7), received := [Some 7]\<rparr>"
  let ?r2 = "?r1\<lparr>rtSys := sSys, rtFetch := FSend (sBd 7), fetched := [sBd 7]\<rparr>"
  let ?r3 = "?r2\<lparr>rtFetch := FReceive, rtIndex := IProcess (sBd 7)\<rparr>"
  let ?r4 = "?r3\<lparr>rtSys := s, rtIndex := IReceive, processed := [sBd 7]\<rparr>"
  have sel: "rtFetch sReceiving = FReceive" "\<not> headersClosed sReceiving" "received sReceiving = []" "fetched sReceiving = []"
    "processed sReceiving = []" "rtSys sReceiving = sSys" "rtIndex sReceiving = IReceive"
    by (simp_all add: sReceiving_def rt_start_def)
  have "rt_own sIndexer sReceiving ?r1" using rt_header [OF sel(1,2), of sIndexer "Some 7"] sel(3) by simp
  moreover have "on_env (FetchABlock (idxClient sIndexer) (Some 7)) sSys = (Ret (Inr (sBd 7)), sSys)"
    using sClient_blocks [of 7 "env sSys"] by (simp add: on_env_def)
  then have "rt_own sIndexer ?r1 ?r2"
    using rt_fetched [of ?r1 "Some 7" sIndexer "sBd 7" sSys] sel by simp
  moreover have "rt_own sIndexer ?r2 ?r3" by (rule rt_handover) (simp_all add: sel)
  moreover have "rt_own sIndexer ?r3 ?r4" using rt_processed [of ?r3 "sBd 7" sIndexer s] s sel by simp
  ultimately have run: "rt_run sIndexer (rt_start sSys) ?r4"
    using sReceiving_run by (meson rt_more rt_goroutine)
  obtain hs l way where o: "received ?r4 = hs @ l" "list_all2 (gives sIndexer) hs (fetched ?r4)" "fetched ?r4 = processed ?r4 @ way"
    using realtime_in_order [OF run] by blast
  then have "way = []" by simp
  then show ?thesis using run o(3) by (intro exI [of _ ?r4]) simp
qed

section \<open>The end of the goroutines\<close>

definition rt_inv :: "('db, 'w) Realtime \<Rightarrow> bool" where
  "rt_inv r \<longleftrightarrow>
     (rtFetch r \<in> {FStart, FSubscribe} \<longrightarrow> rtIndex r = IReceive \<and> \<not> bdClosed r) \<and>
     (bdClosed r \<longrightarrow> rtFetch r = FReturned) \<and> (rtIndex r = IReturned \<longrightarrow> bdClosed r) \<and>
     (realtimeFetcher r \<longleftrightarrow> rtIndex r \<noteq> IReturned)"

lemma rt_inv_own:
  assumes "rt_own ix r t" "rt_inv r"
  shows "rt_inv t"
  using assms(1) by cases (use assms(2) in \<open>auto simp: rt_inv_def\<close>)

lemma rt_inv_other [simp]: "rt_inv (r\<lparr>rtSys := s\<rparr>) = rt_inv r" "rt_inv (r\<lparr>headersClosed := c\<rparr>) = rt_inv r"
  by (simp_all add: rt_inv_def)

lemma rt_inv_step:
  assumes "rt_step ix r t" "rt_inv r"
  shows "rt_inv t"
  using assms(1)
proof cases
  case rt_goroutine
  then show ?thesis using assms(2) by (rule rt_inv_own)
next
  case rt_close
  then show ?thesis using assms(2) by simp
next
  case (rt_env s)
  then show ?thesis using assms(2) by simp
qed

lemma rt_inv_run: "rt_run ix r t \<Longrightarrow> rt_inv r \<Longrightarrow> rt_inv t"
  by (induction rule: rt_run.induct) (auto intro: rt_inv_step)

lemma rt_inv_start: "rt_inv (rt_start s)"
  by (simp add: rt_inv_def rt_start_def)

text \<open>A run with the number of the steps of the two goroutines.\<close>

inductive rt_steps :: "('db, 'w) Indexer \<Rightarrow> nat \<Rightarrow> ('db, 'w) Realtime \<Rightarrow> ('db, 'w) Realtime \<Rightarrow> bool"
  for ix :: "('db, 'w) Indexer" where
  steps_none: "rt_steps ix 0 r r"
| steps_own: "rt_steps ix n r t \<Longrightarrow> rt_own ix t u \<Longrightarrow> rt_steps ix (Suc n) r u"
| steps_other: "rt_steps ix n r t \<Longrightarrow> rt_steps ix n r (t\<lparr>rtSys := s\<rparr>)"

fun fetch_measure :: "fetch_pc \<Rightarrow> nat" where
  "fetch_measure FStart = 6"
| "fetch_measure FSubscribe = 5"
| "fetch_measure (FFetch n) = 4"
| "fetch_measure (FSend bd) = 3"
| "fetch_measure FReceive = 1"
| "fetch_measure FReturned = 0"

fun index_measure :: "index_pc \<Rightarrow> nat" where
  "index_measure (IProcess bd) = 2"
| "index_measure IReceive = 1"
| "index_measure pc = 0"

definition rt_measure :: "('db, 'w) Realtime \<Rightarrow> nat" where
  "rt_measure r = fetch_measure (rtFetch r) + index_measure (rtIndex r)"

lemma rt_own_measure: "rt_own ix r t \<Longrightarrow> headersClosed r \<Longrightarrow> headersClosed t \<and> rt_measure t < rt_measure r"
  by (erule rt_ownE) (simp_all add: rt_measure_def)

lemma rt_steps_measure:
  "rt_steps ix n r t \<Longrightarrow> headersClosed r \<Longrightarrow> headersClosed t \<and> n + rt_measure t \<le> rt_measure r"
proof (induction rule: rt_steps.induct)
  case (steps_own n r t u)
  then show ?case using rt_own_measure [OF steps_own.hyps(2)] by auto
qed (simp_all add: rt_measure_def)

lemma rt_steps_run: "rt_steps ix n r t \<Longrightarrow> rt_run ix r t"
  by (induction rule: rt_steps.induct) (auto intro: rt_refl rt_more rt_goroutine rt_env)

definition rt_ended :: "('db, 'w) Realtime \<Rightarrow> bool" where
  "rt_ended r \<longleftrightarrow> (rtFetch r = FReturned \<and> rtIndex r = IReturned \<and> \<not> realtimeFetcher r) \<or>
     (\<exists>e. rtIndex r = IPanicked e) \<or> rtIndex r = ILooping"

text \<open>The subscription was not refused: a fetcher that has returned has closed the channel of the blocks.\<close>

definition subscribes :: "('db, 'w) Indexer \<Rightarrow> bool" where
  "subscribes ix \<longleftrightarrow> (\<forall>w. fst (SubscribeNewHead (idxClient ix) w) = None)"

lemma subscribes_closes:
  assumes "rt_run ix (rt_start s) r" "subscribes ix"
  shows "rtFetch r = FReturned \<longrightarrow> bdClosed r"
proof -
  have "rtFetch t = FReturned \<longrightarrow> bdClosed t" if "rt_step ix r t" "rtFetch r = FReturned \<longrightarrow> bdClosed r" for r t
    using that(1)
  proof cases
    case rt_goroutine
    from rt_goroutine show ?thesis
    proof cases
      case (rt_refused s' err s'')
      have "fst (SubscribeNewHead (idxClient ix) (world (env (rtSys r)))) = None"
        using assms(2) by (simp add: subscribes_def)
      then show ?thesis using rt_refused(3) by (auto simp: on_env_def on_world_def split: prod.splits)
    qed (use that(2) in auto)
  qed (use that(2) in auto)
  with assms(1) show ?thesis
    by (induction "rt_start s :: ('a, 'b) Realtime" r rule: rt_run.induct) (auto simp: rt_start_def)
qed

lemma rt_progress:
  assumes "rt_inv r" "headersClosed r" "rtFetch r = FReturned \<longrightarrow> bdClosed r" "subscribes ix" "\<not> rt_ended r"
  shows "\<exists>t. rt_own ix r t"
proof (cases "rtIndex r")
  case (IProcess bd)
  obtain m s where m: "rt_process ix bd (rtSys r) = (m, s)" by fastforce
  show ?thesis
    by (cases m) (use IProcess m in \<open>auto intro: rt_processed rt_panics rt_loops\<close>)
next
  case IReceive
  show ?thesis
  proof (cases "rtFetch r")
    case FSubscribe
    obtain w where "SubscribeNewHead (idxClient ix) (world (env (rtSys r))) = (None, w)"
      using assms(4) by (metis prod.collapse subscribes_def)
    then have "on_env (on_world (SubscribeNewHead (idxClient ix))) (rtSys r) =
        (Ret None, (rtSys r)\<lparr>env := (env (rtSys r))\<lparr>world := w\<rparr>\<rparr>)"
      by (simp add: on_env_def on_world_def)
    then show ?thesis using rt_subscribed [OF FSubscribe] by blast
  next
    case (FFetch n)
    obtain m e where "FetchABlock (idxClient ix) n (env (rtSys r)) = (m, e)" by fastforce
    moreover from this obtain y where "m = Ret y" using FetchABlock_world by blast
    ultimately have "on_env (FetchABlock (idxClient ix) n) (rtSys r) = (Ret y, (rtSys r)\<lparr>env := e\<rparr>)"
      by (simp add: on_env_def)
    then show ?thesis
      using rt_fetched [OF FFetch] rt_not_fetched [OF FFetch] by (cases y) blast+
  qed (use assms(2,3) IReceive in \<open>blast intro: rt_make rt_no_header rt_handover rt_stopped\<close>)+
qed (use assms in \<open>auto simp: rt_ended_def rt_inv_def\<close>)

text \<open>
  C31. A switch of the IPC path ends the realtime index: once \<open>IpcUpdated\<close> has closed the channel of the headers, the
  two goroutines make at most six more steps, whatever the rest of the program does meanwhile, and as long as they
  have not ended one of them can go on. In the end both have returned and the fetcher is dropped, unless processing
  a block has panicked or loops. The node is assumed to accept subscriptions.
\<close>

theorem realtime_stops:
  assumes "rt_run ix (rt_start s) r" "headersClosed r" "subscribes ix" "rt_steps ix n r t"
  shows "n \<le> 6 \<and> (rt_ended t \<or> (\<exists>u. rt_own ix t u))"
proof -
  have run: "rt_run ix (rt_start s) t"
    using assms(4,1) by (induction rule: rt_steps.induct) (auto intro: rt_more rt_goroutine rt_env)
  have start: "rtFetch r \<noteq> FStart \<or> \<not> headersClosed r"
    using assms(1)
  proof (induction "rt_start s :: ('a, 'b) Realtime" r rule: rt_run.induct)
    case (rt_more t u)
    from rt_more(3,2) show ?case by (elim rt_stepE rt_ownE) (auto simp: rt_start_def)
  qed (simp add: rt_start_def)
  have inv: "rt_inv r" "rt_inv t" using rt_inv_run [OF assms(1) rt_inv_start] rt_inv_run [OF run rt_inv_start] .
  have "rt_measure r \<le> 6"
    using start assms(2) inv(1) by (cases "rtFetch r"; cases "rtIndex r") (auto simp: rt_measure_def rt_inv_def)
  then have "n \<le> 6" "headersClosed t" using rt_steps_measure [OF assms(4,2)] by auto
  then show ?thesis using rt_progress [OF inv(2) _ subscribes_closes [OF run assms(3)] assms(3)] by blast
qed

theorem realtime_stops_witness:
  "\<exists>r t. rt_run sIndexer (rt_start sSys) r \<and> headersClosed r \<and> rt_steps sIndexer 2 r t \<and> rt_ended t \<and> (2 :: nat) \<le> 6"
proof -
  let ?r = "sReceiving\<lparr>headersClosed := True\<rparr>"
  let ?t1 = "?r\<lparr>rtFetch := FReturned, bdClosed := True\<rparr>"
  let ?t2 = "?t1\<lparr>rtIndex := IReturned, realtimeFetcher := False\<rparr>"
  have sel: "rtFetch sReceiving = FReceive" "\<not> headersClosed sReceiving" "rtIndex sReceiving = IReceive"
    by (simp_all add: sReceiving_def rt_start_def)
  have run: "rt_run sIndexer (rt_start sSys) ?r"
    using sReceiving_run rt_close [OF sel(2), of sIndexer] sel(1) by (auto intro: rt_more)
  have "rt_own sIndexer ?r ?t1" by (rule rt_no_header) (simp_all add: sel)
  moreover have "rt_own sIndexer ?t1 ?t2" by (rule rt_stopped) (simp_all add: sel)
  ultimately have two: "rt_steps sIndexer 2 ?r ?t2"
    unfolding numeral_2_eq_2 by (meson steps_none steps_own)
  have "subscribes sIndexer" by (simp add: subscribes_def sClient_def)
  then have "(2 :: nat) \<le> 6" using realtime_stops [OF run _ _ two] by simp
  moreover have "rt_ended ?t2" by (simp add: rt_ended_def)
  ultimately show ?thesis using run two by (intro exI [of _ ?r] exI [of _ ?t2]) simp
qed

text \<open>
  C33. A subscription that the node refuses leaves the realtime index waiting forever: the fetcher asks for a switch and
  returns without closing the channel of the blocks. From then on no step of the two goroutines is possible, whatever
  else happens, the switch that was asked for and its \<open>IpcUpdated\<close> included, and the fetcher is never dropped.
\<close>

theorem refused_subscription_blocks:
  assumes "rt_run ix (rt_start s) r" "rtFetch r = FSubscribe"
    and "SubscribeNewHead (idxClient ix) (world (env (rtSys r))) = (Some e, w)"
  shows "\<exists>r'. rt_own ix r r' \<and> switchRequests (env (rtSys r')) = switchRequests (env (rtSys r)) + 1 \<and>
    {t. rt_run ix r' t \<and> (rtIndex t \<noteq> IReceive \<or> \<not> realtimeFetcher t \<or> (\<exists>u. rt_own ix t u))} = {}"
proof -
  let ?e = "(env (rtSys r))\<lparr>world := w\<rparr>"
  let ?e' = "?e\<lparr>switchRequests := switchRequests ?e + 1\<rparr>"
  let ?r = "r\<lparr>rtSys := (rtSys r)\<lparr>env := ?e'\<rparr>, rtFetch := FReturned\<rparr>"
  have "on_env (on_world (SubscribeNewHead (idxClient ix))) (rtSys r) = (Ret (Some e), (rtSys r)\<lparr>env := ?e\<rparr>)"
    using assms(3) by (simp add: on_env_def on_world_def)
  moreover have "on_env switchIPC ((rtSys r)\<lparr>env := ?e\<rparr>) = (Ret (), (rtSys r)\<lparr>env := ?e'\<rparr>)"
    by (simp add: on_env_def switchIPC_def)
  ultimately have own: "rt_own ix r ?r" by (rule rt_refused [OF assms(2)])
  define stuck where
    "stuck t \<longleftrightarrow> rtFetch t = FReturned \<and> rtIndex t = IReceive \<and> \<not> bdClosed t \<and> realtimeFetcher t" for t :: "('a, 'b) Realtime"
  have no: "\<not> rt_own ix t u" if "stuck t" for t u
  proof
    assume "rt_own ix t u"
    then show False by cases (use that in \<open>auto simp: stuck_def\<close>)
  qed
  have step: "stuck u" if "rt_step ix t u" "stuck t" for t u
    using that(1) by cases (use that(2) no in \<open>auto simp: stuck_def\<close>)
  have "rt_inv r" using rt_inv_run [OF assms(1) rt_inv_start] .
  then have "stuck ?r" using assms(2) by (simp add: rt_inv_def stuck_def)
  moreover have "stuck t" if "rt_run ix q t" "stuck q" for q t
    using that by (induction rule: rt_run.induct) (auto intro: step)
  ultimately have "stuck t" if "rt_run ix ?r t" for t using that by blast
  then show ?thesis using own no by (intro exI [of _ ?r]) (auto simp: stuck_def)
qed

text \<open>The sample node, refusing subscriptions.\<close>

theorem refused_subscription_blocks_witness:
  "\<exists>ix r. rt_own (ix :: (refdb, unit) Indexer) ((rt_start sSys)\<lparr>rtFetch := FSubscribe\<rparr>) r \<and> rtFetch r = FReturned \<and>
    switchRequests (env (rtSys r)) = 1"
proof -
  let ?ix = "sIndexer\<lparr>idxClient := sClient\<lparr>SubscribeNewHead := (\<lambda>w. (Some ''refused'', w))\<rparr>\<rparr>"
  let ?r = "(rt_start sSys)\<lparr>rtFetch := FSubscribe\<rparr>"
  have "rt_own ?ix (rt_start sSys) ?r" by (rule rt_make) (simp add: rt_start_def)
  then have run: "rt_run ?ix (rt_start sSys) ?r" by (meson rt_refl rt_more rt_goroutine)
  obtain r where r: "rt_own ?ix ?r r" "switchRequests (env (rtSys r)) = switchRequests (env (rtSys ?r)) + 1"
    using refused_subscription_blocks [OF run, of "''refused''" "()"] by auto
  moreover from r(1) have "rtFetch r = FReturned"
    by cases (auto simp: on_env_def on_world_def rt_start_def)
  ultimately show ?thesis by (intro exI [of _ ?ix] exI [of _ r]) (simp add: rt_start_def sSys_def)
qed

end
