(* ===== verification/Startup.thy ===== *)
theory Startup
  imports Watcher HttpServer
begin

text \<open>
  The main program (\<open>cmd/indexer/main.go\<close>): the flags, the configuration made of them, and what \<open>index\<close> does
  before it starts its goroutines; the rest of it is in \<open>MainProgram\<close>.
  \<^item> The command line library is a parameter: \<open>Flags\<close> is what it has parsed. A \<open>float64\<close> is a rational number or
    not finite. Go leaves the conversion of a value outside of \<open>int64\<close> to the implementation; it is the
    parameter \<open>other\<close>.
  \<^item> The multiplication by a unit is on \<open>int64\<close> and wraps around.
  \<^item> Opening a database is a parameter: the error or the database.
\<close>

section \<open>Flags\<close>

datatype float64 = Finite rat | NotFinite

definition DefaultIpc :: string where "DefaultIpc = ''/home/blockform/.ethereum/geth.ipc''"
definition DefaultDbPath :: string where
  "DefaultDbPath = ''/home/blockform/account-indexer-db/geth_indexer_leveldb''"
definition DefaultCleanInterval :: float64 where "DefaultCleanInterval = Finite 5"
definition DefaultBlockTTL :: float64 where "DefaultBlockTTL = Finite 4"
definition DefaultWatcherInterval :: float64 where "DefaultWatcherInterval = Finite 5"
definition DefaultOOSThreshold :: float64 where "DefaultOOSThreshold = Finite 300"
definition DefaultHTTPPort :: int where "DefaultHTTPPort = 3000"
definition DefaultNumBatch :: int where "DefaultNumBatch = 8"

record Flags =
  ipcFlag :: string
  dbFlag :: string
  cleanIntervalFlag :: float64
  blockTimeToLiveFlag :: float64
  watcherIntervalFlag :: float64
  oosThresholdFlag :: float64
  portFlag :: int
  batchFlag :: int

definition defaultFlags :: Flags where
  "defaultFlags =
     \<lparr>ipcFlag = DefaultIpc, dbFlag = DefaultDbPath, cleanIntervalFlag = DefaultCleanInterval,
      blockTimeToLiveFlag = DefaultBlockTTL, watcherIntervalFlag = DefaultWatcherInterval,
      oosThresholdFlag = DefaultOOSThreshold, portFlag = DefaultHTTPPort, batchFlag = DefaultNumBatch\<rparr>"

section \<open>setConfig\<close>

definition trunc :: "rat \<Rightarrow> int" where
  "trunc r = (if 0 \<le> r then \<lfloor>r\<rfloor> else \<lceil>r\<rceil>)"

text \<open>\<open>time.Duration(f)\<close>.\<close>

definition float_int64 :: "(float64 \<Rightarrow> 64 word) \<Rightarrow> float64 \<Rightarrow> 64 word" where
  "float_int64 other f =
     (case f of
        Finite r \<Rightarrow> (if - (2 ^ 63) \<le> trunc r \<and> trunc r < 2 ^ 63 then word_of_int (trunc r) else other f)
      | NotFinite \<Rightarrow> other f)"

definition times_unit :: "64 word \<Rightarrow> duration \<Rightarrow> duration" where
  "times_unit n unit = sint (n * word_of_int unit)"

definition setConfig ::
  "(float64 \<Rightarrow> 64 word) \<Rightarrow> gotime \<Rightarrow> Flags \<Rightarrow> Configuration \<Rightarrow> Configuration outcome" where
  "setConfig other t ctx config =
     (let c1 = config\<lparr>CleanInterval := times_unit (float_int64 other (cleanIntervalFlag ctx)) Minute\<rparr>
      in if CleanInterval c1 < 1 * Second
         then Panic (''CleanInterval of '' @ Duration_String (CleanInterval c1) @ '' is not valid'')
         else
           let c2 = c1\<lparr>BlockTTL := times_unit (float_int64 other (blockTimeToLiveFlag ctx)) Hour\<rparr>
           in if BlockTTL c2 < 1 * Hour
              then Panic (''BlockTTL of '' @ Duration_String (BlockTTL c2) @
                          '' is not valid. Should not be less than 1 hour'')
              else
                let c3 = c2\<lparr>WatcherInterval := times_unit (float_int64 other (watcherIntervalFlag ctx)) Minute\<rparr>
                in if WatcherInterval c3 < 1 * Second
                   then Panic (''WatcherInterval of '' @ Duration_String (WatcherInterval c3) @ '' is not valid'')
                   else
                     let c4 = c3\<lparr>OOSThreshold := times_unit (float_int64 other (oosThresholdFlag ctx)) Second\<rparr>
                     in if OOSThreshold c4 < 1 * Second
                        then Panic (''OOSThreshold of '' @ Duration_String (OOSThreshold c4) @ '' is not valid'')
                        else
                          let c5 = c4\<lparr>Port := portFlag ctx, NumBatch := batchFlag ctx, StartTime := t\<rparr>
                          in if NumBatch c5 < 1 \<or> NumBatch c5 > 127
                             then Panic ''number of batch should be 1 to 127''
                             else Ret c5)"

section \<open>logInit\<close>

text \<open>The levels of the logging library; the value of a missing key of a Go map is the first one.\<close>

datatype log_level = PanicLevel | FatalLevel | ErrorLevel | WarnLevel | InfoLevel | DebugLevel | TraceLevel

definition logLevelMap :: "(string \<times> log_level) list" where
  "logLevelMap =
     [([], InfoLevel), (''panic'', PanicLevel), (''fatal'', FatalLevel), (''error'', ErrorLevel), (''warn'', WarnLevel),
      (''info'', InfoLevel), (''debug'', DebugLevel), (''trace'', TraceLevel)]"

definition logInit :: "string \<Rightarrow> log_level" where
  "logInit logLevel =
     (case map_of logLevelMap (strings_ToLower logLevel) of None \<Rightarrow> PanicLevel | Some l \<Rightarrow> l)"

section \<open>index\<close>

text \<open>
  \<open>NewIndexer\<close>. The fields that \<open>index\<close> sets later belong to the states of \<open>Realtime\<close>; without a watcher it makes
  \<open>NewNodeStatusWatcher\<close>, which is the state of \<open>Watcher\<close>.
\<close>

definition NewIndexer ::
  "'db KVIndexRepo \<Rightarrow> 'db KVBatchRepo \<Rightarrow> 'w EthClient \<Rightarrow> 'w Runtime \<Rightarrow> ext \<Rightarrow> Configuration \<Rightarrow> ('db, 'w) Indexer" where
  "NewIndexer indexRepo batchRepo cl rt x config =
     \<lparr>idxRepo = indexRepo, idxBatchRepo = batchRepo, idxClient = cl, idxRuntime = rt, idxExt = x,
      idxNumBatch = NumBatch config\<rparr>"

text \<open>
  \<open>index\<close> up to its \<open>go\<close> statements: the configuration, the IPC manager, whose error is ignored, the databases, the
  repositories and the indexer. It goes on to start \<open>FirstIndex\<close>, the cleaner and the server.
\<close>

definition main_index ::
  "(float64 \<Rightarrow> 64 word) \<Rightarrow> gotime \<Rightarrow> (string \<Rightarrow> string + 'db) \<Rightarrow> ('db, 'it) leveldb \<Rightarrow> 'w EthClient \<Rightarrow> 'w Runtime \<Rightarrow> ext
   \<Rightarrow> Flags \<Rightarrow> 'w \<Rightarrow> (Configuration \<times> ('db, 'w) Indexer \<times> ('db, 'w) Sys) outcome" where
  "main_index other t OpenFile api cl rt x ctx w =
     obind (setConfig other t ctx (fst (GetConfig None))) (\<lambda>config0.
     (let ipcPath = ipcFlag ctx; dbPath = dbFlag ctx;
          config = config0\<lparr>DbPath := dbPath\<rparr>;
          ipcs = strings_Split ipcPath CHR '','';
          (err, manager) = SetIPC ipcs newIpcManager
      in case OpenFile (dbPath @ ''_address'') of
           Inl err \<Rightarrow> Panic (''Can'' @ [char_of (39 :: nat)] @ ''t connect to Address LevelDB. Error: '' @ err)
         | Inr addrDB \<Rightarrow>
             (case OpenFile (dbPath @ ''_block'') of
                Inl err \<Rightarrow> Panic (''Can'' @ [char_of (39 :: nat)] @ ''t connect to Block LevelDB. Error: '' @ err)
              | Inr blkDB \<Rightarrow>
                  (case OpenFile (dbPath @ ''_batch'') of
                     Inl err \<Rightarrow> Panic (''Can'' @ [char_of (39 :: nat)] @ ''t connect to Batch LevelDB. Error: '' @ err)
                   | Inr batDB \<Rightarrow>
                       (let indexRepo = NewKVIndexRepo (LevelDbDAO x api) (LevelDbDAO x api);
                            batchRepo = NewKVBatchRepo (LevelDbDAO x api);
                            idx = NewIndexer indexRepo batchRepo cl rt x config
                        in Ret (config, idx,
                             \<lparr>addressDB = addrDB, blockDB = blkDB, batchDB = batDB,
                              env = \<lparr>world = w, ipcManager = manager, switchRequests = 0\<rparr>\<rparr>))))))"

section \<open>The configuration handler\<close>

text \<open>\<open>getConfig\<close> of \<open>http/server.go\<close>; \<open>offset\<close> is that of the machine's zone at the start time.\<close>

definition getConfig ::
  "int \<Rightarrow> Configuration option \<Rightarrow> ('db, 'w) Server \<Rightarrow> Request \<Rightarrow> ('db, 'w, response) sys_st" where
  "getConfig offset config server c =
     (\<lambda>s. let ipc = GetIPC (ipcManager (env s))
          in (Ret [(200, Text (Configuration_String offset (fst (GetConfig config)) @ '' ipc='' @ ipc))], s))"

end
