(* ===== verification/Routes.thy ===== *)
theory Routes
  imports Startup
begin

text \<open>
  \<open>Start\<close> of the HTTP server (\<open>http/server.go\<close>): its routes, who may use them, and the requests it serves.
  \<^item> gin is a parameter, \<open>Gin\<close>: the check that \<open>BasicAuth\<close> makes of the accounts (it panics for accounts that it
    refuses), which of the registered routes a request matches, with the values of the parameters in its path, and how
    \<open>Run\<close> ends. A route is registered with its group and the path inside the group, which gin joins.
  \<^item> gin answers by itself a request without a route or without the authentication that its route asks for;
    the result is then \<open>None\<close>.
  \<^item> \<open>gin.Default()\<close> recovers from a panic in a handler, and each request has a goroutine: the server goes on whatever
    the outcome of a handler.
\<close>

section \<open>Routes\<close>

definition AdminUserName :: string where "AdminUserName = ''INDEXER_USER_NAME''"

definition AdminPassword :: string where "AdminPassword = ''INDEXER_PASSWORD''"

datatype verb = GET | POST

record ('db, 'w) Route =
  routeVerb :: verb
  routeGroup :: string
  routePath :: string
  routeAuth :: "(string \<Rightarrow> bool) option"
  routeHandler :: "Request \<Rightarrow> ('db, 'w, response) sys_st"

record 'w Gin =
  ginBasicAuth :: "(string \<times> string) list \<Rightarrow> (string \<Rightarrow> bool) outcome"
  ginMatch :: "(verb \<times> string \<times> string) list \<Rightarrow> verb \<Rightarrow> string \<Rightarrow> (nat \<times> (string \<Rightarrow> string)) option"
  ginRun :: "string \<Rightarrow> 'w \<Rightarrow> string option \<times> 'w"

record HttpRequest =
  hrVerb :: verb
  hrPath :: string
  hrAuth :: string
  hrQuery :: "string \<Rightarrow> string"

text \<open>What the server takes from outside: the environment variables, the nodes, the zone of the machine.\<close>

record 'w Machine =
  Getenv :: "string \<Rightarrow> string"
  nodes :: "string \<Rightarrow> 'w EthClient"
  zoneAt :: "int \<Rightarrow> int"
  zoneOfStart :: int

definition routes_api :: "'w Machine \<Rightarrow> ('db, 'w) Server \<Rightarrow> ('db, 'w) Route list" where
  "routes_api mc server =
     (let api = (\<lambda>path h. \<lparr>routeVerb = GET, routeGroup = ''/api'', routePath = path, routeAuth = None, routeHandler = h\<rparr>)
      in [api ''v1/accounts/:accountNumber'' (getTransactionsByAccount (nodes mc) (zoneAt mc) server),
          api ''v1/accounts/:accountNumber/total'' (getTotalByAccount server)])"

definition routes_admin ::
  "'w Machine \<Rightarrow> Configuration option \<Rightarrow> (string \<Rightarrow> bool) \<Rightarrow> ('db, 'w) Server \<Rightarrow> ('db, 'w) Route list" where
  "routes_admin mc config auth server =
     (let admin = (\<lambda>verb path h. \<lparr>routeVerb = verb, routeGroup = ''/admin'', routePath = path, routeAuth = Some auth,
                                  routeHandler = h\<rparr>)
      in [admin GET ''/batches/status'' (getBatchStatusHandler server),
          admin GET ''/blocks/:blockNumber'' (getBlock server),
          admin POST ''/blocks/:blockNumber'' (rerunBlock server),
          admin GET ''/blocks'' (getBlock server),
          admin GET ''/config'' (getConfig (zoneOfStart mc) config server),
          admin GET ''/version'' (getVersion server)])"

definition server_routes ::
  "'w Gin \<Rightarrow> 'w Machine \<Rightarrow> Configuration option \<Rightarrow> ('db, 'w) Server \<Rightarrow> ('db, 'w) Route list outcome" where
  "server_routes gin mc config server =
     obind (ginBasicAuth gin [(Getenv mc AdminUserName, Getenv mc AdminPassword)]) (\<lambda>auth.
     Ret (routes_api mc server @ routes_admin mc config auth server))"

section \<open>Requests\<close>

definition route_names :: "('db, 'w) Route list \<Rightarrow> (verb \<times> string \<times> string) list" where
  "route_names rs = map (\<lambda>r. (routeVerb r, routeGroup r, routePath r)) rs"

definition handle_request ::
  "'w Gin \<Rightarrow> ('db, 'w) Route list \<Rightarrow> HttpRequest \<Rightarrow> ('db, 'w, response option) sys_st" where
  "handle_request gin rs req =
     (case ginMatch gin (route_names rs) (hrVerb req) (hrPath req) of
        None \<Rightarrow> ret None
      | Some (i, params) \<Rightarrow>
          (let allowed = (case routeAuth (rs ! i) of None \<Rightarrow> True | Some auth \<Rightarrow> auth (hrAuth req))
           in if \<not> allowed then ret None
              else bnd (routeHandler (rs ! i) \<lparr>reqParam = params, reqQuery = hrQuery req\<rparr>) (\<lambda>r. ret (Some r))))"

fun serve :: "'w Gin \<Rightarrow> ('db, 'w) Route list \<Rightarrow> HttpRequest list \<Rightarrow> ('db, 'w, unit) sys_st" where
  "serve gin rs [] = ret ()"
| "serve gin rs (req # reqs) = (\<lambda>s. serve gin rs reqs (snd (handle_request gin rs req s)))"

text \<open>\<open>Start\<close>: \<open>Run\<close> serves the requests \<open>reqs\<close> until it ends.\<close>

definition end_of_run :: "'w Gin \<Rightarrow> Configuration option \<Rightarrow> ('db, 'w, unit) sys_st" where
  "end_of_run gin config =
     bnd (on_env (on_world (ginRun gin (''127.0.0.1:'' @ Itoa (Port (fst (GetConfig config))))))) (\<lambda>err.
     case err of
       None \<Rightarrow> ret ()
     | Some e \<Rightarrow> lift (Panic (''Server: Cannot start http server. Error: '' @ e)))"

definition ServerStart ::
  "'w Gin \<Rightarrow> 'w Machine \<Rightarrow> Configuration option \<Rightarrow> ('db, 'w) Server \<Rightarrow> HttpRequest list \<Rightarrow> ('db, 'w, unit) sys_st" where
  "ServerStart gin mc config server reqs =
     bnd (lift (server_routes gin mc config server)) (\<lambda>rs.
     bnd (serve gin rs reqs) (\<lambda>_. end_of_run gin config))"

end
