(* ===== verification/RouteProps.thy ===== *)
theory RouteProps
  imports Routes HttpProps
begin

text \<open>
  What a request can change: the handlers of the API and of the administration only read, except for the one that
  processes a block again, which only an accepted user reaches and which writes to the address database alone.
\<close>

section \<open>Calls that stay inside a relation\<close>

text \<open>However the call ends, the state after it is related to the one before.\<close>

definition stays :: "('s \<Rightarrow> 's \<Rightarrow> bool) \<Rightarrow> ('s, 'a) st \<Rightarrow> bool" where
  "stays R m \<longleftrightarrow> (\<forall>s. R s (snd (m s)))"

named_theorems stays_intros

lemma stays_ret [stays_intros]: "reflp R \<Longrightarrow> stays R (ret x)"
  by (simp add: stays_def reflpD)

lemma stays_Pair [stays_intros]: "reflp R \<Longrightarrow> stays R (Pair x)"
  by (simp add: stays_def reflpD)

lemma stays_lift [stays_intros]: "reflp R \<Longrightarrow> stays R (lift x)"
  by (simp add: stays_def lift_def reflpD)

lemma stays_query [stays_intros]: "reflp R \<Longrightarrow> stays R (query f)"
  by (simp add: stays_def query_def reflpD)

lemma stays_bnd [stays_intros]:
  assumes "transp R" "stays R m" "\<And>x. stays R (f x)"
  shows "stays R (bnd m f)"
  unfolding stays_def
proof
  fix s
  obtain r s1 where m: "m s = (r, s1)" by fastforce
  then have 1: "R s s1" using assms(2) unfolding stays_def by (metis snd_conv)
  show "R s (snd (bnd m f s))"
  proof (cases r)
    case (Ret x)
    then have "R s1 (snd (f x s1))" using assms(3) by (simp add: stays_def)
    then show ?thesis using transpD [OF assms(1) 1] m Ret by (simp add: bnd_apply)
  qed (use m 1 in \<open>simp_all add: bnd_apply\<close>)
qed

lemma stays_mono: "stays R m \<Longrightarrow> (\<And>s t. R s t \<Longrightarrow> R' s t) \<Longrightarrow> stays R' m"
  by (simp add: stays_def)

definition same_dbs :: "('db, 'w) Sys \<Rightarrow> ('db, 'w) Sys \<Rightarrow> bool" where
  "same_dbs s t \<longleftrightarrow> addressDB t = addressDB s \<and> blockDB t = blockDB s \<and> batchDB t = batchDB s"

definition same_but_address :: "('db, 'w) Sys \<Rightarrow> ('db, 'w) Sys \<Rightarrow> bool" where
  "same_but_address s t \<longleftrightarrow> blockDB t = blockDB s \<and> batchDB t = batchDB s"

lemma same_order [stays_intros]: "reflp same_dbs" "transp same_dbs" "reflp same_but_address" "transp same_but_address"
  by (auto simp: same_dbs_def same_but_address_def intro!: reflpI transpI)

lemma same_dbs_env [stays_intros]: "stays same_dbs (on_env m)"
  by (simp add: stays_def same_dbs_def on_env_def split_beta Let_def)

lemma same_address_env [stays_intros]: "stays same_but_address (on_env m)"
  by (rule stays_mono [OF same_dbs_env]) (simp add: same_dbs_def same_but_address_def)

lemma same_address_on [stays_intros]: "stays same_but_address (on_address f)"
  by (simp add: stays_def same_but_address_def on_address_def split_beta Let_def)

section \<open>The handlers\<close>

lemma ei_addresses_reads: "stays same_dbs (ei_addresses clients zone server d g p l)"
  by (induction l)
    (auto simp: add_fields_def Let_def intro!: stays_intros split: sum.splits)

lemma handlers_read:
  "stays same_dbs (getTransactionsByAccount clients zone server c)"
  "stays same_dbs (getTotalByAccount server c)"
  "stays same_dbs (getBatchStatusHandler server c)"
  "stays same_dbs (getBlock server c)"
  "stays same_dbs (getConfig offset config server c)"
  "stays same_dbs (getVersion server c)"
proof -
  show "stays same_dbs (getTransactionsByAccount clients zone server c)"
    by (auto simp: getTransactionsByAccount_def Let_def split_beta intro!: stays_intros ei_addresses_reads)
  show "stays same_dbs (getTotalByAccount server c)"
    by (auto simp: getTotalByAccount_def Let_def split_beta intro!: stays_intros)
  show "stays same_dbs (getBatchStatusHandler server c)"
    by (auto simp: getBatchStatusHandler_def intro!: stays_intros)
  show "stays same_dbs (getBlock server c)"
    by (auto simp: getBlock_def Let_def split_beta intro!: stays_intros)
  show "stays same_dbs (getConfig offset config server c)"
    by (simp add: getConfig_def stays_def same_dbs_def Let_def)
  show "stays same_dbs (getVersion server c)"
    by (auto simp: getVersion_def intro!: stays_intros)
qed

lemma ProcessBlock_writes: "stays same_but_address (ProcessBlock ix bd True)"
  by (auto simp: ProcessBlock_def CreateIndexData_def now_def Store_def SaveAddressIndex_def split_beta
      intro!: stays_intros split: option.splits)

lemma rerun_writes: "stays same_but_address (rerunBlock server c)"
  by (auto simp: rerunBlock_def FetchAndProcess_def Let_def split_beta
      intro!: stays_intros ProcessBlock_writes split: sum.splits option.splits)

section \<open>The routes\<close>

text \<open>A matched route is one of the registered ones, for the verb of the request.\<close>

definition gin_ok :: "'w Gin \<Rightarrow> bool" where
  "gin_ok gin \<longleftrightarrow>
     (\<forall>l v p i params. ginMatch gin l v p = Some (i, params) \<longrightarrow> i < length l \<and> fst (l ! i) = v)"

lemma routes_cases:
  assumes "server_routes gin mc config server = Ret rs" "r \<in> set rs"
  shows "(\<forall>c. stays same_dbs (routeHandler r c)) \<or>
    routeVerb r = POST \<and> (\<forall>c. stays same_but_address (routeHandler r c)) \<and>
    (\<exists>auth. ginBasicAuth gin [(Getenv mc AdminUserName, Getenv mc AdminPassword)] = Ret auth \<and> routeAuth r = Some auth)"
  using assms
  by (auto simp: server_routes_def routes_api_def routes_admin_def obind_eq_Ret Let_def handlers_read rerun_writes)

definition accepted :: "'w Gin \<Rightarrow> 'w Machine \<Rightarrow> HttpRequest \<Rightarrow> bool" where
  "accepted gin mc req \<longleftrightarrow>
     (case ginBasicAuth gin [(Getenv mc AdminUserName, Getenv mc AdminPassword)] of
        Ret auth \<Rightarrow> auth (hrAuth req) | _ \<Rightarrow> False)"

lemma handle_request_writes:
  assumes "gin_ok gin" "server_routes gin mc config server = Ret rs" "handle_request gin rs req s = (r, t)"
  shows "same_but_address s t \<and> (same_dbs s t \<or> hrVerb req = POST \<and> accepted gin mc req)"
proof (cases "ginMatch gin (route_names rs) (hrVerb req) (hrPath req)")
  case None
  then have "t = s" using assms(3) by (simp add: handle_request_def)
  then show ?thesis by (simp add: same_dbs_def same_but_address_def)
next
  case (Some ip)
  obtain i params where ip: "ip = (i, params)" by fastforce
  then have i: "i < length rs" "routeVerb (rs ! i) = hrVerb req"
    using assms(1) Some unfolding gin_ok_def by (fastforce simp: route_names_def)+
  let ?r = "rs ! i" and ?c = "\<lparr>reqParam = params, reqQuery = hrQuery req\<rparr>"
  let ?allowed = "case routeAuth ?r of None \<Rightarrow> True | Some auth \<Rightarrow> auth (hrAuth req)"
  have eq: "handle_request gin rs req =
      (if \<not> ?allowed then ret None else bnd (routeHandler ?r ?c) (\<lambda>r. ret (Some r)))"
    using Some ip by (simp add: handle_request_def Let_def)
  have inside: "R s t" if "reflp R" "transp R" "stays R (routeHandler ?r ?c)" for R
  proof -
    have "stays R (handle_request gin rs req)"
      unfolding eq using that by (simp add: stays_ret stays_bnd)
    then show ?thesis using assms(3) unfolding stays_def by (metis snd_conv)
  qed
  have dbs: "same_dbs s t \<Longrightarrow> same_but_address s t" by (simp add: same_dbs_def same_but_address_def)
  consider "stays same_dbs (routeHandler ?r ?c)"
    | auth where "routeVerb ?r = POST" "stays same_but_address (routeHandler ?r ?c)" "routeAuth ?r = Some auth"
      "ginBasicAuth gin [(Getenv mc AdminUserName, Getenv mc AdminPassword)] = Ret auth"
    using routes_cases [OF assms(2) nth_mem [OF i(1)]] by blast
  then show ?thesis
  proof cases
    case 1
    then show ?thesis using inside [of same_dbs] dbs same_order by blast
  next
    case (2 auth)
    have "same_dbs s t \<or> auth (hrAuth req)"
    proof (cases "auth (hrAuth req)")
      case False
      then have "t = s" using assms(3) 2(3) by (simp add: eq)
      then show ?thesis by (simp add: same_dbs_def)
    qed simp
    then show ?thesis using inside [OF same_order(3,4) 2(2)] i(2) 2 by (auto simp: accepted_def)
  qed
qed

lemma serve_writes:
  assumes "gin_ok gin" "server_routes gin mc config server = Ret rs"
  shows "same_but_address s (snd (serve gin rs reqs s)) \<and>
    (same_dbs s (snd (serve gin rs reqs s)) \<or> (\<exists>req \<in> set reqs. hrVerb req = POST \<and> accepted gin mc req))"
proof (induction reqs arbitrary: s)
  case (Cons req reqs)
  let ?t = "snd (handle_request gin rs req s)"
  have "same_but_address s ?t \<and> (same_dbs s ?t \<or> hrVerb req = POST \<and> accepted gin mc req)"
    by (rule handle_request_writes [OF assms prod.collapse [symmetric]])
  then show ?case using Cons.IH [of ?t] by (auto simp: same_dbs_def same_but_address_def)
qed (simp add: same_dbs_def same_but_address_def)

lemma serve_ends: "serve gin rs reqs s = (Ret (), snd (serve gin rs reqs s))"
  by (induction reqs arbitrary: s) simp_all

lemma end_of_run_reads: "stays same_dbs (end_of_run gin config)"
  unfolding end_of_run_def by (intro stays_intros) (auto intro!: stays_intros split: option.splits)

text \<open>
  C29. The server only reads, but for accepted users: whatever requests arrive, and however the handlers and the
  server itself end, the block database and the batch database stay as they are, and so does the address database
  unless one of the requests is a POST whose authentication the accounts of the environment accept.
\<close>

theorem server_only_reads:
  assumes "gin_ok gin" "ServerStart gin mc config server reqs s = (r, t)"
  shows "blockDB t = blockDB s \<and> batchDB t = batchDB s \<and>
    (addressDB t = addressDB s \<or> (\<exists>req \<in> set reqs. hrVerb req = POST \<and> accepted gin mc req))"
proof (cases "server_routes gin mc config server")
  case (Ret rs)
  obtain u where u: "serve gin rs reqs s = (Ret (), u)" using serve_ends by fastforce
  then have "ServerStart gin mc config server reqs s = end_of_run gin config u"
    by (simp add: ServerStart_def Ret bnd_apply lift_def)
  then have "same_dbs u t"
    using end_of_run_reads [of gin config] assms(2) unfolding stays_def by (metis snd_conv)
  then show ?thesis
    using serve_writes [OF assms(1) Ret, of s reqs] u by (auto simp: same_dbs_def same_but_address_def)
qed (use assms(2) in \<open>simp_all add: ServerStart_def bnd_apply lift_def\<close>)

section \<open>A sample router\<close>

text \<open>Paths are compared segment by segment; a segment of the pattern that starts with a colon is a parameter.\<close>

fun match_path :: "string list \<Rightarrow> string list \<Rightarrow> (string \<times> string) list option" where
  "match_path [] [] = Some []"
| "match_path (p # ps) (s # ss) =
     (case p of
        CHR '':'' # n \<Rightarrow> map_option (Cons (n, s)) (match_path ps ss)
      | _ \<Rightarrow> if p = s then match_path ps ss else None)"
| "match_path _ _ = None"

definition segments :: "string \<Rightarrow> string list" where
  "segments path = filter (\<lambda>s. s \<noteq> []) (strings_Split path CHR ''/'')"

fun find_route :: "nat \<Rightarrow> (verb \<times> string \<times> string) list \<Rightarrow> verb \<Rightarrow> string \<Rightarrow> (nat \<times> (string \<times> string) list) option" where
  "find_route i [] v p = None"
| "find_route i ((v', g, q) # l) v p =
     (case match_path (segments g @ segments q) (segments p) of
        Some ps \<Rightarrow> if v' = v then Some (i, ps) else find_route (Suc i) l v p
      | None \<Rightarrow> find_route (Suc i) l v p)"

definition sGin :: "unit Gin" where
  "sGin =
     \<lparr>ginBasicAuth = (\<lambda>accounts. if [] \<in> fst ` set accounts then Panic ''User can not be empty''
        else Ret (\<lambda>h. h \<in> (\<lambda>(u, p). u @ '':'' @ p) ` set accounts)),
      ginMatch = (\<lambda>l v p. map_option (\<lambda>(i, ps). (i, \<lambda>n. (case map_of ps n of None \<Rightarrow> [] | Some v \<Rightarrow> v))) (find_route 0 l v p)),
      ginRun = (\<lambda>addr w. (None, w))\<rparr>"

lemma find_route_Some:
  "find_route k l v p = Some (i, ps) \<Longrightarrow> k \<le> i \<and> i - k < length l \<and> fst (l ! (i - k)) = v"
proof (induction k l v p rule: find_route.induct)
  case (2 k v' g q l v p)
  then show ?case by (fastforce split: option.splits if_splits simp: nth_Cons' Suc_diff_le)
qed simp

lemma sGin_ok: "gin_ok sGin"
  using find_route_Some [of 0] by (auto simp: gin_ok_def sGin_def)

definition sMachine :: "unit Machine" where
  "sMachine = \<lparr>Getenv = (\<lambda>v. if v = AdminUserName then ''root'' else ''secret''), nodes = (\<lambda>_. sClient),
     zoneAt = (\<lambda>_. 0), zoneOfStart = 0\<rparr>"

definition sPost :: "string \<Rightarrow> HttpRequest" where
  "sPost auth = \<lparr>hrVerb = POST, hrPath = ''/admin/blocks/7'', hrAuth = auth, hrQuery = (\<lambda>_. [])\<rparr>"

lemma sGin_auth: "ginBasicAuth sGin [(Getenv sMachine AdminUserName, Getenv sMachine AdminPassword)] = Ret (\<lambda>h. h = ''root:secret'')"
  by (simp add: sGin_def sMachine_def AdminUserName_def AdminPassword_def)

theorem server_only_reads_witness:
  "\<exists>r t. ServerStart sGin sMachine None sServer [sPost ''root:guess''] sSys = (r, t) \<and>
    addressDB t = RBT.empty \<and> blockDB t = RBT.empty \<and> batchDB t = RBT.empty"
proof -
  obtain r t where t: "ServerStart sGin sMachine None sServer [sPost ''root:guess''] sSys = (r, t)" by fastforce
  have no: "\<not> accepted sGin sMachine (sPost ''root:guess'')" by (simp add: accepted_def sGin_auth sPost_def)
  from server_only_reads [OF sGin_ok t] no have "addressDB t = RBT.empty \<and> blockDB t = RBT.empty \<and> batchDB t = RBT.empty"
    by (simp add: sSys_def)
  then show ?thesis using t by blast
qed

text \<open>The exception is a real one: an accepted POST stores the block that its path names.\<close>

definition sTable :: "(verb \<times> string \<times> string) list" where
  "sTable =
     [(GET, ''/api'', ''v1/accounts/:accountNumber''), (GET, ''/api'', ''v1/accounts/:accountNumber/total''),
      (GET, ''/admin'', ''/batches/status''), (GET, ''/admin'', ''/blocks/:blockNumber''),
      (POST, ''/admin'', ''/blocks/:blockNumber''), (GET, ''/admin'', ''/blocks''), (GET, ''/admin'', ''/config''),
      (GET, ''/admin'', ''/version'')]"

lemma sample_routes:
  obtains rs where "server_routes sGin sMachine c server = Ret rs"
    "route_names rs = sTable" "routeAuth (rs ! 4) = Some (\<lambda>h. h = ''root:secret'')"
    "routeHandler (rs ! 4) = rerunBlock server"
proof -
  let ?rs = "routes_api sMachine server @ routes_admin sMachine c (\<lambda>h. h = ''root:secret'') server"
  have 1: "server_routes sGin sMachine c server = Ret ?rs" by (simp add: server_routes_def sGin_auth)
  have 2: "route_names ?rs = sTable" by (simp add: routes_api_def routes_admin_def route_names_def sTable_def Let_def)
  have "?rs ! 4 = \<lparr>routeVerb = POST, routeGroup = ''/admin'', routePath = ''/blocks/:blockNumber'',
      routeAuth = Some (\<lambda>h. h = ''root:secret''), routeHandler = rerunBlock server\<rparr>"
    by (simp add: routes_api_def routes_admin_def Let_def numeral_eq_Suc)
  then show thesis using that [OF 1 2] by simp
qed

lemma accepted_post_stores:
  "\<exists>t. ServerStart sGin sMachine None sServer [sPost ''root:secret''] sSys = (Ret (), t) \<and>
    RBT.lookup (addressDB t) = put_all (block_kvs refExt (sBd 7)) Map.empty"
proof -
  obtain rs where rs: "server_routes sGin sMachine None sServer = Ret rs"
    "route_names rs = sTable" "routeAuth (rs ! 4) = Some (\<lambda>h. h = ''root:secret'')"
    "routeHandler (rs ! 4) = rerunBlock sServer"
    by (rule sample_routes)
  have found: "find_route 0 (route_names rs) POST ''/admin/blocks/7'' = Some (4, [(''blockNumber'', ''7'')])"
    unfolding rs(2) sTable_def by code_simp
  have seven: "big_SetString ''7'' = (7, True)" by code_simp
  obtain t where t: "ProcessBlock sIndexer (sBd 7) True sSys = (Ret None, t)"
    "RBT.lookup (addressDB t) = put_all (block_kvs refExt (sBd 7)) (RBT.lookup (addressDB sSys))"
    using ProcessBlock_batch [OF ref_level_laws level_writes_ref sIndexer_level, of "sBd 7" sSys] by auto
  have dial: "ethDial sClient p w = (None, w)" for p w by (simp add: sClient_def)
  have same: "(env sSys)\<lparr>world := ()\<rparr> = env sSys" by (simp add: sSys_def)
  have "FetchAndProcess sIndexer (Some 7) sSys = (Ret None, t)"
    using t(1) sClient_blocks [of 7 "env sSys"]
    by (simp add: dial same FetchAndProcess_def bnd_apply on_env_def NewChainFetch_def on_world_def)
  then have "rerunBlock sServer \<lparr>reqParam = (\<lambda>n. case map_of [(''blockNumber'', ''7'')] n of None \<Rightarrow> [] | Some v \<Rightarrow> v),
      reqQuery = (\<lambda>_. [])\<rparr> sSys = (Ret [(200, Text (''Indexer processed block '' @ ''7'' @ '' successfully''))], t)"
    using seven by (simp add: rerunBlock_def sServer_def bnd_apply Let_def)
  then have "snd (handle_request sGin rs (sPost ''root:secret'') sSys) = t"
    using found rs(3,4) by (simp add: handle_request_def sGin_def sPost_def bnd_apply Let_def)
  then have "\<exists>u. ServerStart sGin sMachine None sServer [sPost ''root:secret''] sSys = (Ret (), u) \<and> addressDB u = addressDB t"
    by (simp add: ServerStart_def rs(1) bnd_apply lift_def end_of_run_def on_env_def on_world_def) (simp add: sGin_def)
  moreover have "RBT.lookup (addressDB sSys) = Map.empty" by (simp add: fun_eq_iff)
  ultimately show ?thesis using t(2) by auto
qed

end
