(* ===== verification/IndexLife.thy ===== *)
theory IndexLife
  imports Realtime SampleNode
begin

text \<open>
  The life of an indexer across switches of the IPC path: which calls leave the IPC manager alone, and the invariant of
  the subscription and the stop channel.
\<close>

section \<open>Calls that leave the IPC manager alone\<close>

definition same_manager :: "('db, 'w, 'a) sys_st \<Rightarrow> bool" where
  "same_manager m \<longleftrightarrow> (\<forall>s. ipcManager (env (snd (m s))) = ipcManager (env s))"

lemma same_managerI: "(\<And>s r s'. m s = (r, s') \<Longrightarrow> ipcManager (env s') = ipcManager (env s)) \<Longrightarrow> same_manager m"
  unfolding same_manager_def by (metis prod.collapse)

lemma same_managerD: "same_manager m \<Longrightarrow> m s = (r, s') \<Longrightarrow> ipcManager (env s') = ipcManager (env s)"
  unfolding same_manager_def by (metis snd_conv)

lemma same_bnd [intro]: "same_manager m \<Longrightarrow> (\<And>x. same_manager (f x)) \<Longrightarrow> same_manager (bnd m f)"
  unfolding same_manager_def by (auto simp: bnd_apply split: prod.splits outcome.splits) (metis snd_conv)+

lemma same_simple [simp, intro]:
  "same_manager (ret x)" "same_manager (lift z)" "same_manager (on_env (on_world g))" "same_manager (on_batchDB d)"
  "same_manager (\<lambda>s. (q s, s))" "same_manager (now ix)"
  by (auto simp: same_manager_def on_env_def on_world_def on_batchDB_def now_def split: prod.split)

lemma same_resume: "same_manager (resume_batches ix n latest l bs found)"
proof (induction l arbitrary: bs found)
  case Nil
  then show ?case by simp
next
  case (Cons b l)
  show ?case
    unfolding resume_batches.simps by (intro same_bnd same_simple) (auto intro!: same_bnd Cons.IH)
qed

lemma same_getBatches: "same_manager (getBatches ix latest)"
  unfolding getBatches_def by (auto intro!: same_bnd same_resume simp: Let_def split: prod.split)

lemma same_fetcher:
  "same_manager (on_env (NewChainFetch cl))" "same_manager (on_env (GetLatestBlock cl))"
  by (auto simp: same_manager_def on_env_def NewChainFetch_def GetLatestBlock_def on_world_def switchIPC_def bnd_apply
      split: prod.splits option.splits sum.splits)

section \<open>The invariant\<close>

text \<open>What \<open>index\<close> leaves behind, however far it got.\<close>

definition set_up :: "('db, 'w) IndexState \<Rightarrow> nat list \<Rightarrow> bool" where
  "set_up n subs \<longleftrightarrow>
     stopChan n = Some False \<and> subscribers (ipcManager (env (xSys n))) = subs \<and>
     switchIPCCounter (ipcManager (env (xSys n))) = 0"

definition keeps_setup :: "(('db, 'w) IndexState, 'a) st \<Rightarrow> bool" where
  "keeps_setup m \<longleftrightarrow> (\<forall>n subs. set_up n subs \<longrightarrow> set_up (snd (m n)) subs)"

lemma keeps_bnd: "keeps_setup m \<Longrightarrow> (\<And>x. keeps_setup (f x)) \<Longrightarrow> keeps_setup (bnd m f)"
  unfolding keeps_setup_def
  by (auto simp: bnd_apply split: prod.splits outcome.splits) (metis snd_conv)+

lemma keeps_simple:
  "keeps_setup (ret x)" "keeps_setup (\<lambda>n. (Ret (), n\<lparr>hasFetcher := b\<rparr>))"
  by (simp_all add: keeps_setup_def set_up_def)

lemma keeps_xSys: "same_manager m \<Longrightarrow> keeps_setup (on_xSys m)"
  by (auto simp: keeps_setup_def set_up_def on_xSys_def split: prod.split dest: same_managerD)

lemma keeps_index_fetch: "keeps_setup (index_fetch ix)"
  unfolding index_fetch_def
  by (intro keeps_bnd keeps_xSys same_fetcher)
     (auto intro!: keeps_bnd keeps_simple keeps_xSys same_fetcher same_getBatches split: sum.split)

lemma index_setup_set_up:
  assumes "index_setup ix sub after n = (r, n')"
  shows "set_up n' (subscribers (ipcManager (env (xSys n))) @ (if after then [] else [sub]))"
proof -
  let ?im = "EnableSwitchIPC (ipcManager (env (xSys n)))"
  let ?n1 = "n\<lparr>xSys := (xSys n)\<lparr>env := (env (xSys n))\<lparr>ipcManager := (if after then ?im else Subscribe sub ?im)\<rparr>\<rparr>,
      stopChan := Some False\<rparr>"
  have "set_up ?n1 (subscribers (ipcManager (env (xSys n))) @ (if after then [] else [sub]))"
    by (simp add: set_up_def EnableSwitchIPC_def Subscribe_def)
  then have "set_up (snd (index_fetch ix ?n1)) (subscribers (ipcManager (env (xSys n))) @ (if after then [] else [sub]))"
    using keeps_index_fetch unfolding keeps_setup_def by blast
  moreover have "index_setup ix sub after n = index_fetch ix ?n1"
    by (cases n; cases after) (simp_all add: index_setup_def bnd_apply on_xSys_def on_manager_def on_env_def)
  ultimately show ?thesis using assms by (metis snd_conv)
qed

text \<open>
  C34. Through all switches of the IPC path the indexer is subscribed exactly once, and the stop channel of the current
  batches is open, so that the next notification closes it without a panic: \<open>FirstIndex\<close> subscribes, \<open>IpcUpdated\<close> does
  not, and both make a new channel before anything can fail.
\<close>

theorem subscribed_once:
  assumes "index_life ix sub n0 n" "sub \<notin> set (subscribers (ipcManager (env (xSys n0))))"
  shows "count_list (subscribers (ipcManager (env (xSys n)))) sub = 1 \<and>
    close_stop n = (Ret (), n\<lparr>stopChan := Some True\<rparr>)"
proof -
  have "count_list (subscribers (ipcManager (env (xSys n)))) sub = 1 \<and> stopChan n = Some False"
    using assms(1)
  proof (induction rule: index_life.induct)
    case (life_first r n)
    from index_setup_set_up [OF life_first [unfolded FirstIndex_def]] show ?case
      using assms(2) by (simp add: set_up_def)
  next
    case (life_updated n r n')
    let ?n1 = "if hasFetcher n then snd (on_xSys (on_env (on_world (ethClose (idxClient ix)))) n) else n"
    have same: "stopChan ?n1 = stopChan n" "subscribers (ipcManager (env (xSys ?n1))) = subscribers (ipcManager (env (xSys n)))"
      by (simp_all add: on_xSys_def on_env_def on_world_def split: prod.split)
    have "IndexerIpcUpdated ix sub n = index_setup ix sub True (?n1\<lparr>stopChan := Some True\<rparr>)"
      using life_updated.IH same(1)
      by (simp add: IndexerIpcUpdated_def bnd_apply close_stop_def on_xSys_def on_env_def on_world_def split: prod.split)
    from index_setup_set_up [OF trans [OF this [symmetric] life_updated.hyps(2)]] show ?case
      using life_updated.IH same(2) by (simp add: set_up_def)
  next
    case (life_env n others s b)
    then show ?case by simp
  qed
  then show ?thesis by (simp add: close_stop_def)
qed

text \<open>The sample node: the first index and one switch.\<close>

theorem subscribed_once_witness:
  "\<exists>n1 n2. index_life sIndexer 5 \<lparr>xSys = sSys, stopChan = None, hasFetcher = False\<rparr> n1 \<and>
    IndexerIpcUpdated sIndexer 5 n1 = (fst (IndexerIpcUpdated sIndexer 5 n1), n2) \<and>
    count_list (subscribers (ipcManager (env (xSys n2)))) 5 = 1 \<and> close_stop n2 = (Ret (), n2\<lparr>stopChan := Some True\<rparr>)"
proof -
  let ?n0 = "\<lparr>xSys = sSys, stopChan = None, hasFetcher = False\<rparr> :: (refdb, unit) IndexState"
  obtain r n1 where first: "FirstIndex sIndexer 5 ?n0 = (r, n1)" by fastforce
  have one: "index_life sIndexer 5 ?n0 n1" by (rule life_first [OF first])
  obtain n2 where n2: "IndexerIpcUpdated sIndexer 5 n1 = (fst (IndexerIpcUpdated sIndexer 5 n1), n2)"
    by (metis prod.collapse)
  have "5 \<notin> set (subscribers (ipcManager (env (xSys ?n0))))" by (simp add: sSys_def newIpcManager_def)
  from subscribed_once [OF life_updated [OF one n2] this] show ?thesis using one n2 by blast
qed

end
