(* ===== verification/IndexRun.thy ===== *)
theory IndexRun
  imports Realtime Workers
begin

text \<open>
  The goroutines of \<open>index\<close> together (\<open>indexer/indexer.go\<close>): those of the batches, of the realtime index and of the watcher
  run in parallel on the state of the program, and \<open>index\<close> itself waits, first for the batches, then, after it has
  started the watcher, for the realtime index and the watcher.
  \<^item> A component moves by its own step relation with the shared state put in its place; the relations of the realtime
    index and of the watcher contain the steps of the rest of the program.
  \<^item> A wait group is done when its goroutines have returned. A panic ends the program; the model lets the other
    goroutines go on, which only adds runs.
\<close>

datatype main_pc = WaitBatches | WaitMain | IndexReturned

record ('db, 'w) Program =
  pSys :: "('db, 'w) Sys"
  pBatches :: "worker list"
  pRealtime :: "('db, 'w) Realtime"
  pWatcher :: "('db, 'w) NodeStatusWatcher"
  pMain :: main_pc

text \<open>After \<open>index_setup\<close> has returned the batches \<open>bs\<close>, with a watcher that does not watch.\<close>

definition index_start :: "BatchStatus list \<Rightarrow> ('db, 'w) Sys \<Rightarrow> ('db, 'w) Program" where
  "index_start bs s =
     \<lparr>pSys = s, pBatches = map (AtTop 0) bs, pRealtime = rt_start s, pWatcher = NewNodeStatusWatcher s, pMain = WaitBatches\<rparr>"

definition batch_ended :: "worker \<Rightarrow> bool" where
  "batch_ended w \<longleftrightarrow> (\<exists>b. w = Stopped b)"

text \<open>The goroutine of the watcher is call 0 of \<open>Watch\<close>; it is called when \<open>index\<close> starts it and not before.\<close>

inductive index_step :: "('db, 'w) Indexer \<Rightarrow> Configuration \<Rightarrow> ('db, 'w) Program \<Rightarrow> ('db, 'w) Program \<Rightarrow> bool"
  for ix :: "('db, 'w) Indexer" and config :: Configuration where
  i_batch: "i < length (pBatches p) \<Longrightarrow> worker_step ix (pBatches p ! i) (pSys p) w s \<Longrightarrow>
    index_step ix config p (p\<lparr>pSys := s, pBatches := (pBatches p)[i := w]\<rparr>)"
| i_realtime: "rt_step ix ((pRealtime p)\<lparr>rtSys := pSys p\<rparr>) r \<Longrightarrow>
    index_step ix config p (p\<lparr>pSys := rtSys r, pRealtime := r\<rparr>)"
| i_batches_done: "pMain p = WaitBatches \<Longrightarrow> list_all batch_ended (pBatches p) \<Longrightarrow>
    index_step ix config p
      (p\<lparr>pMain := WaitMain, pWatcher := (pWatcher p)\<lparr>wpcs := (wpcs (pWatcher p))(0 := WCheck)\<rparr>\<rparr>)"
| i_watcher: "watch_step ix config ((pWatcher p)\<lparr>wSys := pSys p\<rparr>) n \<Longrightarrow>
    {g. wpcs n g = WNotCalled} = {g. wpcs (pWatcher p) g = WNotCalled} \<Longrightarrow>
    index_step ix config p (p\<lparr>pSys := wSys n, pWatcher := n\<rparr>)"
| i_return: "pMain p = WaitMain \<Longrightarrow> rtIndex (pRealtime p) = IReturned \<Longrightarrow> wpcs (pWatcher p) 0 = WReturned \<Longrightarrow>
    index_step ix config p (p\<lparr>pMain := IndexReturned\<rparr>)"

inductive index_run :: "('db, 'w) Indexer \<Rightarrow> Configuration \<Rightarrow> ('db, 'w) Program \<Rightarrow> ('db, 'w) Program \<Rightarrow> bool"
  for ix :: "('db, 'w) Indexer" and config :: Configuration where
  i_refl: "index_run ix config p p"
| i_more: "index_run ix config p q \<Longrightarrow> index_step ix config q t \<Longrightarrow> index_run ix config p t"

inductive_cases index_stepE: "index_step ix config p q"

section \<open>The invariant of the waiting\<close>

text \<open>
  Before the batches have ended nobody watches. Afterwards call 0 is on its way past its check, which it passes since
  nobody else watches.
\<close>

definition wait_inv :: "('db, 'w) Program \<Rightarrow> bool" where
  "wait_inv p \<longleftrightarrow>
     (\<forall>g. g \<noteq> 0 \<longrightarrow> wpcs (pWatcher p) g = WNotCalled) \<and>
     (case pMain p of
        WaitBatches \<Rightarrow> wpcs (pWatcher p) 0 = WNotCalled \<and> \<not> isWatching (pWatcher p)
      | WaitMain \<Rightarrow> list_all batch_ended (pBatches p) \<and>
          (wpcs (pWatcher p) 0 \<in> {WCheck, WStart} \<and> \<not> isWatching (pWatcher p) \<or> in_ticks (wpcs (pWatcher p) 0))
      | IndexReturned \<Rightarrow> False)"

lemma ended_stays: "worker_step ix w s w' s' \<Longrightarrow> \<not> batch_ended w"
  by (erule worker_stepE) (simp_all add: batch_ended_def)

text \<open>The steps of call 0 of the watcher, when the others are not called.\<close>

lemma watch_step_zero:
  assumes "watch_step ix config n n'" "{g. wpcs n' g = WNotCalled} = {g. wpcs n g = WNotCalled}"
    and "\<forall>g. g \<noteq> 0 \<longrightarrow> wpcs n g = WNotCalled"
  shows "(\<forall>g. g \<noteq> 0 \<longrightarrow> wpcs n' g = WNotCalled) \<and>
    (wpcs n 0 = WNotCalled \<longrightarrow> wpcs n' 0 = WNotCalled \<and> isWatching n' = isWatching n) \<and>
    (wpcs n 0 \<in> {WCheck, WStart} \<and> \<not> isWatching n \<longrightarrow>
       wpcs n' 0 \<in> {WCheck, WStart} \<and> \<not> isWatching n' \<or> in_ticks (wpcs n' 0)) \<and>
    (in_ticks (wpcs n 0) \<longrightarrow> in_ticks (wpcs n' 0))"
proof -
  have others: "\<forall>g. g \<noteq> 0 \<longrightarrow> wpcs n' g = WNotCalled" using assms(2,3) by blast
  have only: "g = 0" if "wpcs n g \<noteq> WNotCalled" for g using assms(3) that by blast
  have zero: "wpcs n g = WCheck \<Longrightarrow> g = 0" "wpcs n g = WStart \<Longrightarrow> g = 0" "wpcs n g = WTicks a b \<Longrightarrow> g = 0" for g a b
    using only [of g] by auto
  have ticks: "in_ticks (wpcs n 0) \<longrightarrow> in_ticks (wpcs n' 0)" using watch_step_ticks [OF assms(1)] by blast
  from assms(1) have "(wpcs n 0 = WNotCalled \<longrightarrow> wpcs n' 0 = WNotCalled \<and> isWatching n' = isWatching n) \<and>
    (wpcs n 0 \<in> {WCheck, WStart} \<and> \<not> isWatching n \<longrightarrow>
       wpcs n' 0 \<in> {WCheck, WStart} \<and> \<not> isWatching n' \<or> in_ticks (wpcs n' 0))"
  proof cases
    case (watch_call g)
    then have "g \<in> {g. wpcs n' g = WNotCalled}" using assms(2) by blast
    then show ?thesis using watch_call by simp
  next
    case (watch_tick g running tick notifications)
    then show ?thesis using only [of g] by auto
  next
    case (watch_tick_panic g running tick e n1)
    then show ?thesis using only [of g] by auto
  qed (auto dest: zero)
  then show ?thesis using others ticks by blast
qed

lemma wait_inv_step:
  assumes "index_step ix config p q" "wait_inv p"
  shows "wait_inv q"
  using assms(1)
proof cases
  case (i_batch i w s)
  have "\<not> list_all batch_ended (pBatches p)"
    using i_batch(2) ended_stays [OF i_batch(3)] by (auto simp: list_all_length)
  then show ?thesis using assms(2) i_batch(1) by (auto simp: wait_inv_def split: main_pc.splits)
next
  case (i_realtime r)
  then show ?thesis using assms(2) by (cases "pMain p") (simp_all add: wait_inv_def)
next
  case i_batches_done
  then show ?thesis using assms(2) by (simp add: wait_inv_def)
next
  case (i_watcher n)
  have "\<forall>g. g \<noteq> 0 \<longrightarrow> wpcs ((pWatcher p)\<lparr>wSys := pSys p\<rparr>) g = WNotCalled" using assms(2) by (simp add: wait_inv_def)
  from watch_step_zero [OF i_watcher(2) _ this] i_watcher(3)
  show ?thesis using assms(2) i_watcher(1) by (simp add: wait_inv_def split: main_pc.splits) blast
next
  case i_return
  then show ?thesis using assms(2) by (auto simp: wait_inv_def)
qed

lemma wait_inv_run: "index_run ix config p q \<Longrightarrow> wait_inv p \<Longrightarrow> wait_inv q"
  by (induction rule: index_run.induct) (auto intro: wait_inv_step)

lemma wait_inv_start: "wait_inv (index_start bs s)"
  by (simp add: wait_inv_def index_start_def NewNodeStatusWatcher_def)

end
