(* ===== verification/IndexProps.thy ===== *)
theory IndexProps
  imports IndexRun WatcherProps
begin

text \<open>The property of the goroutines of \<open>index\<close> together: when the watcher starts, and that \<open>index\<close> never returns.\<close>


text \<open>One batch that is done, and then the watcher.\<close>

definition sDone :: BatchStatus where
  "sDone = \<lparr>bsFrom = Some 0, bsTo = Some 0, bsCreatedAt = Some 0, bsStep = 1, bsCurrent = Some 0, bsUpdatedAt = Some 0\<rparr>"


end
