(* ===== verification/MainProgram.thy ===== *)
theory MainProgram
  imports Routes
begin

text \<open>
  The main program as a whole (\<open>cmd/indexer/main.go\<close>): the flags as they are declared, the application, the rest of
  \<open>index\<close> with its deferred \<open>cleanUp\<close>, the interrupt, and \<open>main\<close> with the exit status of the process.
  \<^item> The command line library is a parameter: \<open>cliParse\<close> answers the arguments by itself (help, version), with an error
    or without, or gives the context for which it calls the action. \<open>cli_defaults\<close> is what it promises of a flag
    that the arguments do not set.
  \<^item> Closing a database is a parameter, \<open>closeDB\<close>, with an error that the code ignores.
  \<^item> The goroutines that \<open>index\<close> starts are the subject of \<open>IndexRun\<close> and \<open>Watcher\<close>; \<open>others\<close> is what they have done to
    the state when the server ends.
\<close>

section \<open>Flags\<close>

datatype cli_flag =
    StringFlag (flagName: string) (flagUsage: string) (stringValue: string)
  | Float64Flag (flagName: string) (flagUsage: string) (floatValue: float64)
  | IntFlag (flagName: string) (flagUsage: string) (intValue: int)

definition ipc_flag :: cli_flag where
  "ipc_flag = StringFlag ''ipc'' (''ipc file paths separated by '' @ [char_of (39 :: nat)] @ '','' @ [char_of (39 :: nat)]) DefaultIpc"

definition db_flag :: cli_flag where
  "db_flag = StringFlag ''db'' ''leveldb file path'' DefaultDbPath"

definition clean_interval_flag :: cli_flag where
  "clean_interval_flag = Float64Flag ''bci'' ''block clean interval (int) in minute'' DefaultCleanInterval"

definition block_time_to_live_flag :: cli_flag where
  "block_time_to_live_flag = Float64Flag ''bttl'' ''block time to live (int) in hour'' DefaultBlockTTL"

definition watcher_interval_flag :: cli_flag where
  "watcher_interval_flag = Float64Flag ''w'' ''watcher interval (int) in minute'' DefaultWatcherInterval"

definition oos_threshold_flag :: cli_flag where
  "oos_threshold_flag =
     Float64Flag ''oos'' ''threshold (in second) to consider a node as out of sync'' DefaultOOSThreshold"

definition port_flag :: cli_flag where
  "port_flag = IntFlag ''p'' ''http port number'' DefaultHTTPPort"

definition batch_flag :: cli_flag where
  "batch_flag = IntFlag ''b'' ''initial number of batch (1-127)'' DefaultNumBatch"

definition indexerFlags :: "cli_flag list" where
  "indexerFlags =
     [ipc_flag, db_flag, clean_interval_flag, block_time_to_live_flag, watcher_interval_flag, oos_threshold_flag,
      port_flag, batch_flag]"

text \<open>What \<open>setConfig\<close> and \<open>index\<close> read of the context, each by the name of its flag.\<close>

record Context =
  GlobalString :: "string \<Rightarrow> string"
  GlobalFloat64 :: "string \<Rightarrow> float64"
  GlobalInt :: "string \<Rightarrow> int"

definition flags_of :: "Context \<Rightarrow> Flags" where
  "flags_of ctx =
     \<lparr>ipcFlag = GlobalString ctx (flagName ipc_flag), dbFlag = GlobalString ctx (flagName db_flag),
      cleanIntervalFlag = GlobalFloat64 ctx (flagName clean_interval_flag),
      blockTimeToLiveFlag = GlobalFloat64 ctx (flagName block_time_to_live_flag),
      watcherIntervalFlag = GlobalFloat64 ctx (flagName watcher_interval_flag),
      oosThresholdFlag = GlobalFloat64 ctx (flagName oos_threshold_flag),
      portFlag = GlobalInt ctx (flagName port_flag), batchFlag = GlobalInt ctx (flagName batch_flag)\<rparr>"

section \<open>The application\<close>

record App =
  appName :: string
  appAuthor :: string
  appEmail :: string
  appVersion :: string
  appUsage :: string
  appFlags :: "cli_flag list"

text \<open>\<open>base\<close> is what \<open>cli.NewApp()\<close> returns.\<close>

definition newApp :: "App \<Rightarrow> App" where
  "newApp base =
     base\<lparr>appName := ''indexer'', appAuthor := [], appEmail := [], appVersion := viVersion GetVersion,
          appUsage := ''the indexer for geth''\<rparr>"

definition init_app :: "App \<Rightarrow> App" where
  "init_app app = app\<lparr>appFlags := appFlags app @ indexerFlags\<rparr>"

definition cli_defaults :: "App \<Rightarrow> Context \<Rightarrow> bool" where
  "cli_defaults app ctx \<longleftrightarrow>
     (\<forall>f \<in> set (appFlags app). case f of
        StringFlag n u v \<Rightarrow> GlobalString ctx n = v
      | Float64Flag n u v \<Rightarrow> GlobalFloat64 ctx n = v
      | IntFlag n u v \<Rightarrow> GlobalInt ctx n = v)"

section \<open>index\<close>

definition cleanUp :: "('db \<Rightarrow> string option \<times> 'db) \<Rightarrow> ('db, 'w) Sys \<Rightarrow> ('db, 'w) Sys" where
  "cleanUp closeDB s =
     s\<lparr>addressDB := snd (closeDB (addressDB s)), blockDB := snd (closeDB (blockDB s)), batchDB := snd (closeDB (batchDB s))\<rparr>"

text \<open>
  \<open>index\<close> from the server on: \<open>NewServer\<close>, whose variable is at \<open>a\<close> and whose copy is at \<open>b\<close>, \<open>Start\<close>, and the deferred
  \<open>cleanUp\<close>, which runs when \<open>Start\<close> returns and when it panics.
\<close>

definition index_serve ::
  "'w Gin \<Rightarrow> 'w Machine \<Rightarrow> ('db \<Rightarrow> string option \<times> 'db) \<Rightarrow> (('db, 'w) Sys \<Rightarrow> ('db, 'w) Sys) \<Rightarrow> nat \<Rightarrow> nat
   \<Rightarrow> Configuration \<Rightarrow> ('db, 'w) Indexer \<Rightarrow> HttpRequest list \<Rightarrow> ('db, 'w, unit) sys_st" where
  "index_serve gin mc closeDB others a b config idx reqs =
     (\<lambda>s. let (r, h) = main_server idx a b \<lparr>httpEnv = env s, heap = (\<lambda>_. None)\<rparr>;
              s1 = s\<lparr>env := httpEnv h\<rparr>;
              (r1, s2) = bnd (lift r) (\<lambda>_. bnd (lift (deref (heap h b))) (\<lambda>server.
                           ServerStart gin mc (Some config) server reqs)) s1
          in (r1, if r1 = Diverge then s2 else cleanUp closeDB (others s2)))"

section \<open>main\<close>

datatype exit = Exit nat | Crash string | Runs

record ('db, 'it, 'w) Platform =
  cliParse :: "App \<Rightarrow> string list \<Rightarrow> string option + Context"
  cliApp :: App
  otherFloat :: "float64 \<Rightarrow> 64 word"
  startAt :: gotime
  OpenFile :: "string \<Rightarrow> string + 'db"
  closeFile :: "'db \<Rightarrow> string option \<times> 'db"
  leveldbApi :: "('db, 'it) leveldb"
  ethClient :: "'w EthClient"
  goRuntime :: "'w Runtime"
  platExt :: ext
  platGin :: "'w Gin"
  platMachine :: "'w Machine"

text \<open>
  The exit status: 1 after an error of the command line library, which is printed, and after an interrupt; a panic
  that nothing recovers ends the process with its message. The second part is the state with the databases.
\<close>

definition main_program ::
  "('db, 'it, 'w) Platform \<Rightarrow> string list \<Rightarrow> 'w \<Rightarrow> (('db, 'w) Sys \<Rightarrow> ('db, 'w) Sys) \<Rightarrow> HttpRequest list
   \<Rightarrow> exit \<times> ('db, 'w) Sys option" where
  "main_program pl args w others reqs =
     (case cliParse pl (init_app (newApp (cliApp pl))) args of
        Inl None \<Rightarrow> (Exit 0, None)
      | Inl (Some err) \<Rightarrow> (Exit 1, None)
      | Inr ctx \<Rightarrow>
          (case main_index (otherFloat pl) (startAt pl) (OpenFile pl) (leveldbApi pl) (ethClient pl) (goRuntime pl)
                  (platExt pl) (flags_of ctx) w of
             Panic e \<Rightarrow> (Crash e, None)
           | Diverge \<Rightarrow> (Runs, None)
           | Ret (config, idx, s) \<Rightarrow>
               (let (r, s1) = index_serve (platGin pl) (platMachine pl) (closeFile pl) others 0 1 config idx reqs s
                in (case r of Ret _ \<Rightarrow> Exit 0 | Panic e \<Rightarrow> Crash e | Diverge \<Rightarrow> Runs, Some s1))))"

text \<open>The goroutine that waits for an interrupt.\<close>

definition interrupt :: "('db \<Rightarrow> string option \<times> 'db) \<Rightarrow> ('db, 'w) Sys \<Rightarrow> exit \<times> ('db, 'w) Sys option" where
  "interrupt closeDB s = (Exit 1, Some (cleanUp closeDB s))"

end
