(* ===== verification/StartupProps.thy ===== *)
theory StartupProps
  imports Startup HttpProps
begin

text \<open>
  The properties of the start of the program: which flags are accepted and what configuration they give, and what
  becomes of a list of IPC paths that the manager refuses.
\<close>

lemma float_int64_exact:
  "\<bar>trunc r\<bar> < 2 ^ 63 \<Longrightarrow> float_int64 other (Finite r) = word_of_int (trunc r)"
  unfolding float_int64_def by (simp add: abs_less_iff)

lemma times_unit_exact:
  assumes "\<bar>n * unit\<bar> < 2 ^ 63"
  shows "times_unit (word_of_int n) unit = n * unit"
proof -
  have "times_unit (word_of_int n) unit = sint (big_Int64 (n * unit))"
    by (simp add: times_unit_def big_Int64_def)
  also have "\<dots> = n * unit" by (rule sint_big_Int64) (use assms in linarith)+
  finally show ?thesis .
qed

text \<open>A flag within the range of a unit gives its whole part in that unit.\<close>

lemma flag_exact:
  assumes "\<bar>trunc r\<bar> * unit < 2 ^ 63" "1 \<le> unit"
  shows "times_unit (float_int64 other (Finite r)) unit = trunc r * unit"
proof -
  have "\<bar>trunc r\<bar> * 1 \<le> \<bar>trunc r\<bar> * unit" using assms(2) by (intro mult_left_mono) auto
  then have "\<bar>trunc r\<bar> < 2 ^ 63" using assms(1) by simp
  moreover have "\<bar>trunc r * unit\<bar> < 2 ^ 63" using assms by (simp add: abs_mult)
  ultimately show ?thesis by (simp add: float_int64_exact times_unit_exact)
qed

text \<open>
  C39. The configuration: for flags in the range of the clock (292 years), the program starts if and only if each
  interval is at least one whole unit, its fraction dropped, and the number of batches is from 1 to 127; then the
  fields are exactly the whole parts in their units and the number fits the byte that holds a batch's step. So an
  interval of half a minute, which the check of one second would allow, is refused.
\<close>

theorem config_accepts_iff:
  assumes "cleanIntervalFlag ctx = Finite ci" "blockTimeToLiveFlag ctx = Finite ttl" "watcherIntervalFlag ctx = Finite wi"
      "oosThresholdFlag ctx = Finite oos"
    and "\<bar>trunc ci\<bar> * Minute < 2 ^ 63" "\<bar>trunc ttl\<bar> * Hour < 2 ^ 63" "\<bar>trunc wi\<bar> * Minute < 2 ^ 63"
      "\<bar>trunc oos\<bar> * Second < 2 ^ 63"
  shows "setConfig other t ctx config = Ret c \<longleftrightarrow>
    1 \<le> trunc ci \<and> 1 \<le> trunc ttl \<and> 1 \<le> trunc wi \<and> 1 \<le> trunc oos \<and> 1 \<le> batchFlag ctx \<and> batchFlag ctx \<le> 127 \<and>
    uint (word_of_int (NumBatch c) :: 8 word) = batchFlag ctx \<and>
    c = config\<lparr>CleanInterval := trunc ci * Minute, BlockTTL := trunc ttl * Hour, WatcherInterval := trunc wi * Minute,
               OOSThreshold := trunc oos * Second, Port := portFlag ctx, NumBatch := batchFlag ctx, StartTime := t\<rparr>"
proof -
  have units: "(1 :: int) \<le> Minute" "(1 :: int) \<le> Hour" "(1 :: int) \<le> Second"
    by (simp_all add: Hour_def Minute_def Second_def)
  have fields: "times_unit (float_int64 other (cleanIntervalFlag ctx)) Minute = trunc ci * Minute"
    "times_unit (float_int64 other (blockTimeToLiveFlag ctx)) Hour = trunc ttl * Hour"
    "times_unit (float_int64 other (watcherIntervalFlag ctx)) Minute = trunc wi * Minute"
    "times_unit (float_int64 other (oosThresholdFlag ctx)) Second = trunc oos * Second"
    unfolding assms(1-4) by (rule flag_exact [OF assms(5) units(1)] flag_exact [OF assms(6) units(2)]
        flag_exact [OF assms(7) units(1)] flag_exact [OF assms(8) units(3)])+
  have small: "n * Minute < Second \<longleftrightarrow> \<not> 1 \<le> n" "n * Hour < Hour \<longleftrightarrow> \<not> 1 \<le> n" "n * Second < Second \<longleftrightarrow> \<not> 1 \<le> n" for n
    by (simp_all add: Hour_def Minute_def Second_def) linarith+
  have byte: "uint (word_of_int b :: 8 word) = b" if "1 \<le> b" "b \<le> 127" for b
    using that by (simp add: unsigned_of_int take_bit_int_eq_self)
  show ?thesis
    unfolding setConfig_def fields mult_1 Let_def
    using byte [of "batchFlag ctx"] by (auto simp: small)
qed

text \<open>The default flags.\<close>

theorem config_accepts_iff_witness:
  "\<exists>c. setConfig (\<lambda>_. 0) 0 defaultFlags zeroConfiguration = Ret c \<and> CleanInterval c = 300 * Second \<and> BlockTTL c = 4 * Hour \<and>
     NumBatch c = 8"
proof -
  let ?c = "zeroConfiguration\<lparr>CleanInterval := 5 * Minute, BlockTTL := 4 * Hour, WatcherInterval := 5 * Minute,
      OOSThreshold := 300 * Second, Port := 3000, NumBatch := 8, StartTime := 0\<rparr>"
  have tr: "trunc 5 = 5" "trunc 4 = 4" "trunc 300 = 300" by (simp_all add: trunc_def)
  have "uint (word_of_int (NumBatch ?c) :: 8 word) = 8" by simp
  then have "setConfig (\<lambda>_. 0) 0 defaultFlags zeroConfiguration = Ret ?c"
    using config_accepts_iff [of defaultFlags 5 4 5 300 "\<lambda>_. 0" 0 zeroConfiguration ?c]
    by (simp add: tr defaultFlags_def DefaultCleanInterval_def DefaultBlockTTL_def DefaultWatcherInterval_def
        DefaultOOSThreshold_def DefaultHTTPPort_def DefaultNumBatch_def Hour_def Minute_def Second_def)
  then show ?thesis by (intro exI [of _ ?c]) (simp add: Minute_def)
qed

text \<open>The default values of the flags, in their units.\<close>

lemma default_units:
  "times_unit (float_int64 other DefaultCleanInterval) Minute = 300 * Second"
  "times_unit (float_int64 other DefaultBlockTTL) Hour = 14400 * Second"
  "times_unit (float_int64 other DefaultWatcherInterval) Minute = 300 * Second"
  "times_unit (float_int64 other DefaultOOSThreshold) Second = 300 * Second"
proof -
  have "trunc 5 = 5" "trunc 4 = 4" "trunc 300 = 300" by (simp_all add: trunc_def)
  then show "times_unit (float_int64 other DefaultCleanInterval) Minute = 300 * Second"
    "times_unit (float_int64 other DefaultBlockTTL) Hour = 14400 * Second"
    "times_unit (float_int64 other DefaultWatcherInterval) Minute = 300 * Second"
    "times_unit (float_int64 other DefaultOOSThreshold) Second = 300 * Second"
    unfolding DefaultCleanInterval_def DefaultBlockTTL_def DefaultWatcherInterval_def DefaultOOSThreshold_def
    by (subst flag_exact; simp add: Hour_def Minute_def Second_def)+
qed

lemmas default_values = default_units [unfolded Hour_def Minute_def Second_def, simplified]

text \<open>Outside of that range the product wraps around: a time to live of 5124097 hours is accepted, as less than two.\<close>

lemma config_wraps:
  "\<exists>c. setConfig other t (defaultFlags\<lparr>blockTimeToLiveFlag := Finite 5124097\<rparr>) zeroConfiguration = Ret c \<and> BlockTTL c < 2 * Hour"
proof -
  have "trunc 5124097 = 5124097" by (simp add: trunc_def)
  then have "float_int64 other (Finite 5124097) = 5124097" by (simp add: float_int64_def)
  moreover have "word_of_int Hour = (3600000000000 :: 64 word)" by (simp add: Hour_def Minute_def Second_def)
  moreover have "(5124097 * 3600000000000 :: 64 word) = 5126290448384" by simp
  ultimately have "times_unit (float_int64 other (Finite 5124097)) Hour = sint (5126290448384 :: 64 word)"
    by (simp only: times_unit_def)
  then have "times_unit (float_int64 other (Finite 5124097)) Hour = 5126290448384" by simp
  then show ?thesis
    by (simp add: setConfig_def defaultFlags_def default_values DefaultNumBatch_def Let_def Hour_def Minute_def Second_def)
qed

text \<open>An unknown name of a log level silences everything but panics.\<close>

lemma unknown_log_level: "strings_ToLower l \<notin> fst ` set logLevelMap \<Longrightarrow> logInit l = PanicLevel"
  using map_of_eq_None_iff [of logLevelMap "strings_ToLower l"] by (simp add: logInit_def)

text \<open>
  C40. The program starts with a list of IPC paths that the manager refuses: with valid flags and databases \<open>index\<close>
  goes on, the current path is empty, and it is the one that the first connection dials. When that fails the switch
  that the fetcher asks for panics, as it does for a list of a single path.
\<close>

theorem startup_ignores_ipc_error:
  assumes "setConfig other t ctx zeroConfiguration = Ret config"
    and "OpenFile (dbFlag ctx @ ''_address'') = Inr a" "OpenFile (dbFlag ctx @ ''_block'') = Inr b"
      "OpenFile (dbFlag ctx @ ''_batch'') = Inr bt"
    and "[] \<in> set (strings_Split (ipcFlag ctx) CHR '','') \<or> \<not> distinct (strings_Split (ipcFlag ctx) CHR '','')"
  shows "\<exists>config' idx s. main_index other t OpenFile api cl rt x ctx w = Ret (config', idx, s) \<and>
    GetIPC (ipcManager (env s)) = [] \<and> idxNumBatch idx = batchFlag ctx \<and>
    NewChainFetch cl (env s) = (case ethDial cl [] w of
       (None, w') \<Rightarrow> (Ret None, (env s)\<lparr>world := w'\<rparr>)
     | (Some e, w') \<Rightarrow> (Ret (Some e), (env s)\<lparr>world := w', switchRequests := 1\<rparr>)) \<and>
    ForceChangeIPC (ipcManager (env s)) = Panic (''IpcManager: Cannot switch IPC, number of IPC = '' @ Itoa 0)"
proof -
  let ?ipcs = "strings_Split (ipcFlag ctx) CHR '',''"
  have "fst (SetIPC ?ipcs newIpcManager) \<noteq> None"
    using assms(5) by (auto simp: SetIPC_ok_iff simp del: not_None_eq)
  then obtain e where e: "SetIPC ?ipcs newIpcManager = (Some e, newIpcManager)"
    using SetIPC_error [of ?ipcs newIpcManager] by (cases "SetIPC ?ipcs newIpcManager") auto
  have num: "NumBatch config = batchFlag ctx"
    using assms(1) by (auto simp: setConfig_def Let_def split: if_splits)
  have "main_index other t OpenFile api cl rt x ctx w =
      Ret (config\<lparr>DbPath := dbFlag ctx\<rparr>,
        NewIndexer (NewKVIndexRepo (LevelDbDAO x api) (LevelDbDAO x api)) (NewKVBatchRepo (LevelDbDAO x api)) cl rt x
          (config\<lparr>DbPath := dbFlag ctx\<rparr>),
        \<lparr>addressDB = a, blockDB = b, batchDB = bt, env = \<lparr>world = w, ipcManager = newIpcManager, switchRequests = 0\<rparr>\<rparr>)"
    using assms(1-4) e by (simp add: main_index_def GetConfig_def Let_def)
  then show ?thesis
    using num by (simp add: NewIndexer_def newIpcManager_def GetIPC_def ForceChangeIPC_def NewChainFetch_def on_world_def
        bnd_apply switchIPC_def split: prod.split option.split)
qed

text \<open>The default flags with a repeated path.\<close>

theorem startup_ignores_ipc_error_witness:
  "\<exists>config idx s. main_index (\<lambda>_. 0) 0 (\<lambda>_. Inr RBT.empty) refLevel sClient sRuntime refExt
      (defaultFlags\<lparr>ipcFlag := ''a,a''\<rparr>) () = Ret (config, idx, s) \<and> GetIPC (ipcManager (env s)) = [] \<and> idxNumBatch idx = 8"
proof -
  let ?fl = "defaultFlags\<lparr>ipcFlag := ''a,a''\<rparr>"
  obtain c where c: "setConfig (\<lambda>_. 0) 0 ?fl zeroConfiguration = Ret c"
    by (simp add: setConfig_def defaultFlags_def default_values DefaultNumBatch_def Let_def Hour_def Minute_def Second_def)
  have dup: "[] \<in> set (strings_Split (ipcFlag ?fl) CHR '','') \<or> \<not> distinct (strings_Split (ipcFlag ?fl) CHR '','')"
    by simp
  have "batchFlag ?fl = 8" by (simp add: defaultFlags_def DefaultNumBatch_def)
  then show ?thesis
    using startup_ignores_ipc_error [where api = refLevel and cl = sClient and rt = sRuntime and x = refExt and w = "()" and
        OpenFile = "\<lambda>_. Inr RBT.empty", OF c refl refl refl dup] by auto
qed

end
