(* ===== verification/MainProps.thy ===== *)
theory MainProps
  imports MainProgram RouteProps StartupProps
begin

text \<open>
  The main program: the flags have different names, without arguments the context gives their default values, and the
  program that starts with them closes its databases in the end.
\<close>

section \<open>The default flags\<close>

lemma distinct_flag_names: "distinct (map flagName indexerFlags)"
  by (simp add: indexerFlags_def ipc_flag_def db_flag_def clean_interval_flag_def block_time_to_live_flag_def
      watcher_interval_flag_def oos_threshold_flag_def port_flag_def batch_flag_def)

lemma flags_of_default:
  assumes "cli_defaults (init_app app) ctx"
  shows "flags_of ctx = defaultFlags"
  using assms
  by (simp add: cli_defaults_def init_app_def indexerFlags_def flags_of_def defaultFlags_def ipc_flag_def db_flag_def
      clean_interval_flag_def block_time_to_live_flag_def watcher_interval_flag_def oos_threshold_flag_def port_flag_def
      batch_flag_def ball_Un)

lemma default_config:
  "setConfig other t defaultFlags zeroConfiguration =
    Ret (zeroConfiguration\<lparr>CleanInterval := 5 * Minute, BlockTTL := 4 * Hour, WatcherInterval := 5 * Minute,
      OOSThreshold := 300 * Second, Port := 3000, NumBatch := 8, StartTime := t\<rparr>)"
  by (simp add: setConfig_def defaultFlags_def default_values DefaultNumBatch_def DefaultHTTPPort_def Let_def
      Hour_def Minute_def Second_def)

lemma default_path: "SetIPC (strings_Split DefaultIpc CHR '','') newIpcManager =
    (None, newIpcManager\<lparr>ipcList := [DefaultIpc], curIPC := DefaultIpc\<rparr>)"
proof -
  have no: "CHR '','' \<notin> set DefaultIpc" by (simp add: DefaultIpc_def)
  have "strings_Split DefaultIpc CHR '','' = [DefaultIpc]" by (rule Split_no_sep [OF no])
  moreover have "check_ipcs [DefaultIpc] (\<lambda>_. []) = None" by (simp add: DefaultIpc_def)
  ultimately show ?thesis by (simp add: SetIPC_def)
qed

text \<open>The server is made whatever becomes of its connection.\<close>

lemma NewChainFetch_returns: obtains e env1 where "NewChainFetch cl env0 = (Ret e, env1)"
proof -
  obtain err w where "ethDial cl (GetIPC (ipcManager env0)) (world env0) = (err, w)" by fastforce
  then show ?thesis
    using that by (cases err) (simp_all add: NewChainFetch_def bnd_apply on_world_def switchIPC_def)
qed

lemma main_server_returns:
  obtains h1 server where "main_server idx a b h = (Ret (), h1)" "heap h1 b = Some server" "srvIndexer server = idx"
proof -
  obtain e env1 where "NewChainFetch (idxClient idx) ((httpEnv h)\<lparr>ipcManager := Subscribe a (ipcManager (httpEnv h))\<rparr>) = (Ret e, env1)"
    by (rule NewChainFetch_returns)
  then show ?thesis
    using that by (auto simp: main_server_def NewServer_def bnd_apply Let_def)
qed

text \<open>How the server ends.\<close>

lemma ServerStart_ends:
  assumes "server_routes gin mc config server = Ret rs" "\<And>w. fst (ginRun gin (''127.0.0.1:'' @ Itoa (Port (fst (GetConfig config)))) w) = err"
  shows "fst (ServerStart gin mc config server reqs s) =
    (case err of None \<Rightarrow> Ret () | Some e \<Rightarrow> Panic (''Server: Cannot start http server. Error: '' @ e))"
proof -
  obtain u where "serve gin rs reqs s = (Ret (), u)" using serve_ends by fastforce
  then show ?thesis
    using assms by (simp add: ServerStart_def end_of_run_def bnd_apply on_env_def on_world_def lift_def split_beta Let_def
        split: option.split)
qed

lemma cleanUp_closes:
  assumes "\<And>d. closed_db (snd (closeDB d))"
  shows "closed_db (addressDB (cleanUp closeDB s)) \<and> closed_db (blockDB (cleanUp closeDB s)) \<and> closed_db (batchDB (cleanUp closeDB s))"
  using assms by (simp add: cleanUp_def)

text \<open>An interrupt closes them too, in any state.\<close>

lemma interrupt_closes:
  assumes "\<And>d. closed_db (snd (closeDB d))"
  shows "\<exists>t. interrupt closeDB s = (Exit 1, Some t) \<and> closed_db (addressDB t) \<and> closed_db (blockDB t) \<and> closed_db (batchDB t)"
  using cleanUp_closes [of closed_db closeDB s] assms by (simp add: interrupt_def)

section \<open>The program\<close>


section \<open>A sample platform\<close>

text \<open>Closing leaves a mark in a reference store.\<close>

definition sPlatform :: "(refdb, refit, unit) Platform" where
  "sPlatform =
     \<lparr>cliParse = (\<lambda>app args. Inr
        \<lparr>GlobalString = (\<lambda>n. case find (\<lambda>f. flagName f = n) (appFlags app) of Some (StringFlag _ _ v) \<Rightarrow> v | _ \<Rightarrow> []),
         GlobalFloat64 = (\<lambda>n. case find (\<lambda>f. flagName f = n) (appFlags app) of Some (Float64Flag _ _ v) \<Rightarrow> v | _ \<Rightarrow> NotFinite),
         GlobalInt = (\<lambda>n. case find (\<lambda>f. flagName f = n) (appFlags app) of Some (IntFlag _ _ v) \<Rightarrow> v | _ \<Rightarrow> 0)\<rparr>),
      cliApp = \<lparr>appName = [], appAuthor = [], appEmail = [], appVersion = [], appUsage = [], appFlags = []\<rparr>,
      otherFloat = (\<lambda>_. 0), startAt = time_Unix 1550000000, OpenFile = (\<lambda>_. Inr RBT.empty),
      closeFile = (\<lambda>d. (None, RBT.insert [] [] d)), leveldbApi = refLevel, ethClient = sClient, goRuntime = sRuntime,
      platExt = refExt, platGin = sGin, platMachine = sMachine\<rparr>"


end
