(* ===== verification/StringMarshaller.thy ===== *)
theory StringMarshaller
  imports Marshal MarshalFacts GoStrings
begin

text \<open>
  \<open>StringMarshaller\<close> (\<open>repository/keyvalue/marshal/string_marshaller.go\<close>), the first marshaller of the program, kept
  beside \<open>ByteMarshaller\<close>: keys and values are strings of parts joined by \<open>_\<close>. Its names clash with those of
  \<open>ByteMarshaller\<close>; the definitions have the prefix \<open>sm_\<close>.
\<close>

definition sm_sep :: char where "sm_sep = CHR ''_''"

text \<open>\<open>stringToBigInt\<close>: nil when the string is not a number.\<close>

definition stringToBigInt :: "string \<Rightarrow> int option" where
  "stringToBigInt str = (case big_SetString str of (v, ok) \<Rightarrow> if ok then Some v else None)"

definition sm_MarshallBlockDBValue :: "BlockIndex \<Rightarrow> bytes" where
  "sm_MarshallBlockDBValue blockIndex =
     bytes_of (strings_Join (map Address (biAddresses blockIndex)) sm_sep)"

definition sm_UnmarshallBlockDBValue :: "bytes \<Rightarrow> string list" where
  "sm_UnmarshallBlockDBValue v = strings_Split (string_of v) sm_sep"

definition sm_MarshallAddressKeyStr :: "string \<Rightarrow> string \<Rightarrow> bytes" where
  "sm_MarshallAddressKeyStr address blockNumber =
     bytes_of (strings_ToUpper (address @ [sm_sep] @ blockNumberWidPad blockNumber))"

definition sm_MarshallAddressKey :: "AddressIndex \<Rightarrow> bytes" where
  "sm_MarshallAddressKey index = sm_MarshallAddressKeyStr (Address index) []"

definition sm_MarshallAddressValue :: "AddressIndex \<Rightarrow> bytes" where
  "sm_MarshallAddressValue index =
     bytes_of (aiTxHash index @ [sm_sep] @ big_String (aiValue index) @ [sm_sep] @ big_String (aiTime index))"

definition sm_UnmarshallAddressKey :: "bytes \<Rightarrow> (string \<times> int option) outcome" where
  "sm_UnmarshallAddressKey key =
     (let keyArr = strings_Split (string_of key) sm_sep
      in obind (index_at keyArr 1) (\<lambda>b. Ret (hd keyArr, stringToBigInt b)))"

definition sm_UnmarshallAddressValue :: "bytes \<Rightarrow> AddressIndex outcome" where
  "sm_UnmarshallAddressValue v =
     (let valueArr = strings_Split (string_of v) sm_sep; txHash = hd valueArr
      in obind (index_at valueArr 1) (\<lambda>s1. obind (index_at valueArr 2) (\<lambda>s2.
         Ret \<lparr>Address = [], Sequence = 0, aiTxHash = txHash, aiValue = stringToBigInt s1, aiTime = stringToBigInt s2,
             CoupleAddress = []\<rparr>)))"

section \<open>Lemmas\<close>

lemma sep_not_digit: "\<not> is_digit sm_sep" "sm_sep \<noteq> CHR ''-''"
  by (simp_all add: is_digit_def sm_sep_def)

lemma big_String_no_sep [simp]: "sm_sep \<notin> set (big_String n)"
proof (cases n)
  case None
  then show ?thesis by (simp add: big_String_def sm_sep_def)
next
  case (Some k)
  then show ?thesis
    using dec_digits sep_not_digit by (auto simp: big_String_def)
qed

lemma stringToBigInt_String [simp]: "stringToBigInt (big_String n) = n"
proof (cases n)
  case None
  then show ?thesis by (simp add: big_String_def stringToBigInt_def big_SetString_def split_sign_def is_digit_def)
next
  case (Some k)
  then show ?thesis by (simp add: stringToBigInt_def)
qed

lemma upper_char_sep: "sm_sep = upper_char c \<Longrightarrow> c = sm_sep"
proof (rule ccontr)
  assume eq: "sm_sep = upper_char c" and ne: "c \<noteq> sm_sep"
  then have r: "97 \<le> (of_char c :: nat)" "(of_char c :: nat) \<le> 122" "sm_sep = char_of (of_char c - 32 :: nat)"
    by (auto simp: upper_char_def split: if_splits)
  have "(of_char sm_sep :: nat) = (of_char c - 32) mod 256" unfolding r(3) by simp
  moreover have "(of_char sm_sep :: nat) = 95" by (simp add: sm_sep_def)
  ultimately show False using r(1,2) by simp
qed

lemma sm_value_parts:
  assumes "sm_sep \<notin> set (aiTxHash i)"
  shows "strings_Split (string_of (sm_MarshallAddressValue i)) sm_sep =
    [aiTxHash i, big_String (aiValue i), big_String (aiTime i)]"
  using assms by (simp add: sm_MarshallAddressValue_def Split_append Split_no_sep)

text \<open>
  The text encoding of an index entry keeps what the binary one loses, the sign of the amount, and what
  the binary one keeps it loses: the value decodes to the hash, the amount with its sign (or none) and the
  time, while the key holds the upper-case address and the block number 0 only, so that two entries of one
  address have the same key whatever their times and sequences.
\<close>

lemma string_marshaller_roundtrip:
  assumes "sm_sep \<notin> set (aiTxHash i)" "sm_sep \<notin> set (Address i)"
  shows "(\<exists>r. sm_UnmarshallAddressValue (sm_MarshallAddressValue i) = Ret r \<and>
      aiTxHash r = aiTxHash i \<and> aiValue r = aiValue i \<and> aiTime r = aiTime i) \<and>
    sm_UnmarshallAddressKey (sm_MarshallAddressKey i) = Ret (strings_ToUpper (Address i), Some 0) \<and>
    (\<forall>j. strings_ToUpper (Address j) = strings_ToUpper (Address i) \<longleftrightarrow> sm_MarshallAddressKey j = sm_MarshallAddressKey i)"
proof -
  have val: "\<exists>r. sm_UnmarshallAddressValue (sm_MarshallAddressValue i) = Ret r \<and>
      aiTxHash r = aiTxHash i \<and> aiValue r = aiValue i \<and> aiTime r = aiTime i"
    unfolding sm_UnmarshallAddressValue_def sm_value_parts [OF assms(1)] by (simp add: index_at_def)
  have pad: "strings_ToUpper (blockNumberWidPad []) = replicate 10 CHR ''0''"
    by code_simp
  have up: "strings_ToUpper (sm_sep # s) = sm_sep # strings_ToUpper s" for s
  proof -
    have "strings_ToUpper [sm_sep] = [sm_sep]" by code_simp
    then show ?thesis by (simp add: strings_ToUpper_def)
  qed
  have "sm_sep \<notin> set (strings_ToUpper (Address i))"
  proof
    assume "sm_sep \<in> set (strings_ToUpper (Address i))"
    then obtain c where c: "c \<in> set (Address i)" "sm_sep = upper_char c" by (auto simp: strings_ToUpper_def)
    then have "c = sm_sep" using upper_char_sep by simp
    then show False using c(1) assms(2) by simp
  qed
  moreover have "sm_sep \<notin> set (replicate 10 CHR ''0'')" by (simp add: sm_sep_def)
  ultimately have "strings_Split (string_of (sm_MarshallAddressKey i)) sm_sep =
      [strings_ToUpper (Address i), replicate 10 CHR ''0'']"
    by (simp add: sm_MarshallAddressKey_def sm_MarshallAddressKeyStr_def up pad Split_append Split_no_sep)
  moreover have "stringToBigInt (replicate 10 CHR ''0'') = Some 0" by code_simp
  ultimately show ?thesis
    using val by (auto simp: sm_UnmarshallAddressKey_def index_at_def sm_MarshallAddressKey_def sm_MarshallAddressKeyStr_def)
qed

definition sText :: "8 word \<Rightarrow> int \<Rightarrow> AddressIndex" where
  "sText q t = \<lparr>Address = ''0xAb'', Sequence = q, aiTxHash = ''0x9'', aiValue = Some (- 70), aiTime = Some t,
     CoupleAddress = ''0xCd''\<rparr>"

end
