(* ===== verification/Spec2Isabelle.thy ===== *)
theory Spec2Isabelle
  imports MarshalFacts BlockProps BatchProps IpcProps ResumeProps ChainProps WatcherProps RealtimeProps RouteProps IndexLife IndexProps MainProps StringMarshaller
begin

text \<open>
  A verification development of the account indexer, a Go program that follows an Ethereum node and keeps, in three
  LevelDB databases, the transactions of every address, the recent blocks and the progress of its batches, and answers
  queries over HTTP.

  \<^bold>\<open>The program and its theories.\<close> Each part of \<open>src/\<close> has a theory with its definitions, in the order of the code:
  \<^item> \<open>Prelude\<close>: Go byte slices, strings, slice expressions with their panics, the outcome of a call (\<open>Ret\<close>, \<open>Panic\<close>,
    \<open>Diverge\<close>) and the sequencing \<open>bnd\<close> of calls on a state. \<open>GoLib\<close>, \<open>GoStrings\<close>, \<open>GoTime\<close>: the parts of Go's
    \<open>math/big\<close>, \<open>strconv\<close>, \<open>strings\<close> and \<open>time\<close> that the code uses.
  \<^item> \<open>CoreTypes\<close> (\<open>core/types\<close>), \<open>Datetime\<close> (\<open>common/datetime.go\<close>), \<open>Config\<close> (\<open>common/config\<close>).
  \<^item> \<open>Marshal\<close> (\<open>byte_marshaller.go\<close>) and \<open>StringMarshaller\<close> (\<open>string_marshaller.go\<close>): keys and values as bytes.
  \<^item> \<open>Dao\<close> (\<open>repository/keyvalue/dao\<close>): the interface \<open>KeyValueDAO\<close> as a record of operations, and its two
    implementations with their iterator loops.
  \<^item> \<open>IndexRepo\<close> (\<open>index_repo.go\<close>) and \<open>BatchRepo\<close> (\<open>batch_repo.go\<close>): the repositories on top of it.
  \<^item> \<open>IpcManager\<close> (\<open>service/ipc_manager.go\<close>), \<open>Fetcher\<close> (\<open>fetcher/fetch.go\<close>), \<open>Indexer\<close>, \<open>Workers\<close>, \<open>Realtime\<close> and
    \<open>IndexRun\<close> (\<open>indexer/indexer.go\<close>, and \<open>RealtimeFetch\<close> of the fetcher), \<open>Watcher\<close> (\<open>watcher\<close>), \<open>HttpServer\<close> (\<open>http\<close>),
    \<open>Routes\<close> (\<open>Start\<close> of the server), \<open>Startup\<close> and \<open>MainProgram\<close> (\<open>cmd/indexer/main.go\<close>).
  The state of the program is \<open>Sys\<close>: the three databases, and \<open>Env\<close> with the outside world, the IPC manager and the
  switches that were asked for.

  \<^bold>\<open>What is a parameter.\<close> Code outside of \<open>src/\<close>: goleveldb (\<open>goleveldb_laws\<close>, \<open>leveldb_laws\<close>, \<open>memdb_laws\<close> of \<open>DaoSpec\<close>
  state what a successful write stores and what an iterator visits; \<open>RefStore\<close> satisfies them with red-black trees),
  go-ethereum (\<open>EthClient\<close>, and \<open>ext\<close> for hexadecimal strings with the law that decoding undoes encoding), gin
  (\<open>Gin\<close> for its routing and authentication, \<open>Request\<close> and the list of responses), the command line library
  (\<open>cliParse\<close> and its \<open>Context\<close>), and Go's runtime (\<open>Runtime\<close>: the clock, the order of a map, the closed stop channel). \<open>SampleNode\<close> instantiates them all for the witnesses.

  \<^bold>\<open>Interfaces.\<close> \<open>kv_dao\<close> is the contract of \<open>KeyValueDAO\<close> over an abstract map; both implementations satisfy it. \<open>index_repo\<close>
  and \<open>batch_repo\<close> are the repositories over that contract. They are interpreted on the reference stores, and the facts
  of the properties come from them (\<open>leveldb_laws.level_repo\<close> and its like turn the laws of the database into them).

  \<^bold>\<open>What is shown.\<close> The properties are in the theories whose names end in \<open>Props\<close>, and in \<open>IndexLife\<close>:
  \<^item> \<open>StorageProps\<close>: keys and values round trip, byte order is the order of (address, time, sequence), the paging loop
    is the page of the listing, the two implementations agree.
  \<^item> \<open>RepoProps\<close>, \<open>QueryProps\<close>, \<open>BlockProps\<close>, \<open>BatchProps\<close>: storing a block refines an update of the abstract maps, a
    reorganised block is undone, queries return the page they should, the invariant of reachable states, cleaning.
  \<^item> \<open>IndexerProps\<close>, \<open>WorkerProps\<close>, \<open>ResumeProps\<close>: a block becomes the entries it should; for every interleaving of the
    goroutines of the batches the stored progress never runs ahead of the stored blocks, and the whole chain is
    indexed when the node answers; a restart goes on with the batches that have a record, and loses those that have none.
  \<^item> \<open>ChainProps\<close>: the parts together, from the node to the answer. When the goroutines of the initial batches have
    returned, the API answers an account with the list \<open>transfers\<close> of what the chain says about it.
  \<^item> \<open>IpcProps\<close>, \<open>RealtimeProps\<close>, \<open>IndexLife\<close>, \<open>WatcherProps\<close>, \<open>IndexProps\<close>: at most one switch at a time, blocks in the order of their
    headers, the end of the goroutines after a switch and the cases in which there is none, when the watcher switches.
  \<^item> \<open>HttpProps\<close>, \<open>RouteProps\<close>, \<open>StartupProps\<close>, \<open>MainProps\<close>: the answers of the server, what its requests can change, the
    accepted configurations, the program started without flags.
  Several of them state defects, as what the code does; they are the kind \<open>error\<close> of the manifest.

  \<^bold>\<open>Loops.\<close> A loop over a list is a structural recursion. The loops over iterators, that of \<open>HandleReorg\<close> and that of a batch
  are partial functions into \<open>option\<close>, so that not to return is a value (\<open>Diverge\<close> of the call); that they return is
  proved (\<open>find_loop_yields\<close> and its like, \<open>reorg_returns_iff\<close>, \<open>batch_index_ends\<close>). There is no fuel. Goroutines are
  \<open>inductive\<close> step relations, with environment steps for the rest of the program.

  \<^bold>\<open>Bounds.\<close> \<open>int64\<close>, \<open>int32\<close> and \<open>uint8\<close> values wrap as in Go. \<open>time_ok\<close> is the window of times from 1970-07-14 to 2106-02-07 in
  which a stored time takes the four bytes that the layout expects; block numbers of batches are below \<open>2\<^sup>6\<^sup>2\<close>
  (\<open>in_range\<close>).

  \<^bold>\<open>Not modelled.\<close> Logging; sleeping; JSON; how gin matches a path and checks a password, and how the command line is
  parsed, which are parameters; the use of a database by a goroutine while an interrupt closes it. The interfaces of
  \<open>repo.go\<close> and \<open>marshaller.go\<close> have no code. The data race of a server's field \<open>fetcher\<close> and of \<open>isWatching\<close> is taken at
  the granularity of one access per step.
\<close>

end
